(* ===== verification/Go_Regexp.thy ===== *)
theory Go_Regexp
  imports Go_Prelude
begin

text \<open>
  The fragment of package \<open>regexp\<close> the sources use, for patterns anchored at both ends: byte
  classes, concatenation, alternation, \<open>*\<close>, \<open>?\<close>, \<open>+\<close> and \<open>{0,n}\<close>.  A pattern is written as the
  source writes it, as a value of type \<open>rx\<close>; \<open>rx_match\<close> decides it by derivatives and
  \<open>rx_match_iff\<close> proves that it decides the language of the pattern.
\<close>

datatype rx = RNone | REps | RCls "char \<Rightarrow> bool" | RSeq rx rx | RAlt rx rx | RStar rx

inductive_set star_lang :: "string set \<Rightarrow> string set" for A where
  star_Nil: "[] \<in> star_lang A"
| star_Cons: "x \<in> A \<Longrightarrow> y \<in> star_lang A \<Longrightarrow> x @ y \<in> star_lang A"

fun rx_lang :: "rx \<Rightarrow> string set" where
  "rx_lang RNone = {}"
| "rx_lang REps = {[]}"
| "rx_lang (RCls P) = {[c] | c. P c}"
| "rx_lang (RSeq r t) = {x @ y | x y. x \<in> rx_lang r \<and> y \<in> rx_lang t}"
| "rx_lang (RAlt r t) = rx_lang r \<union> rx_lang t"
| "rx_lang (RStar r) = star_lang (rx_lang r)"

fun rx_seq :: "rx \<Rightarrow> rx \<Rightarrow> rx" where
  "rx_seq RNone t = RNone"
| "rx_seq REps t = t"
| "rx_seq r t = RSeq r t"

fun rx_alt :: "rx \<Rightarrow> rx \<Rightarrow> rx" where
  "rx_alt RNone t = t"
| "rx_alt r RNone = r"
| "rx_alt r t = RAlt r t"

fun nullable :: "rx \<Rightarrow> bool" where
  "nullable RNone = False"
| "nullable REps = True"
| "nullable (RCls P) = False"
| "nullable (RSeq r t) = (nullable r \<and> nullable t)"
| "nullable (RAlt r t) = (nullable r \<or> nullable t)"
| "nullable (RStar r) = True"

fun deriv :: "char \<Rightarrow> rx \<Rightarrow> rx" where
  "deriv c RNone = RNone"
| "deriv c REps = RNone"
| "deriv c (RCls P) = (if P c then REps else RNone)"
| "deriv c (RSeq r t) =
     (if nullable r then rx_alt (rx_seq (deriv c r) t) (deriv c t) else rx_seq (deriv c r) t)"
| "deriv c (RAlt r t) = rx_alt (deriv c r) (deriv c t)"
| "deriv c (RStar r) = rx_seq (deriv c r) (RStar r)"

fun rx_match :: "rx \<Rightarrow> string \<Rightarrow> bool" where
  "rx_match r [] = nullable r"
| "rx_match r (c # cs) = rx_match (deriv c r) cs"

lemma rx_lang_seq [simp]: "rx_lang (rx_seq r t) = {x @ y | x y. x \<in> rx_lang r \<and> y \<in> rx_lang t}"
  by (cases r) auto

lemma rx_lang_alt [simp]: "rx_lang (rx_alt r t) = rx_lang r \<union> rx_lang t"
  by (cases r; cases t) auto

lemma nullable_iff: "nullable r \<longleftrightarrow> [] \<in> rx_lang r"
  by (induction r) (auto intro: star_Nil)

lemma star_lang_Cons_iff:
  "c # cs \<in> star_lang A \<longleftrightarrow> (\<exists>x y. cs = x @ y \<and> c # x \<in> A \<and> y \<in> star_lang A)"
proof
  assume "c # cs \<in> star_lang A"
  then show "\<exists>x y. cs = x @ y \<and> c # x \<in> A \<and> y \<in> star_lang A"
    by (induction "c # cs" arbitrary: c cs) (auto simp: append_eq_Cons_conv Cons_eq_append_conv)
next
  assume "\<exists>x y. cs = x @ y \<and> c # x \<in> A \<and> y \<in> star_lang A"
  then show "c # cs \<in> star_lang A"
    by (metis append_Cons star_Cons)
qed

lemma deriv_iff: "cs \<in> rx_lang (deriv c r) \<longleftrightarrow> c # cs \<in> rx_lang r"
proof (induction r arbitrary: cs)
  case (RSeq r t)
  show ?case
    by (auto simp: RSeq.IH nullable_iff Cons_eq_append_conv)
next
  case (RStar r)
  show ?case
    by (auto simp: RStar.IH star_lang_Cons_iff)
qed auto

theorem rx_match_iff: "rx_match r s \<longleftrightarrow> s \<in> rx_lang r"
  by (induction s arbitrary: r) (simp_all add: nullable_iff deriv_iff)

section \<open>Derived operators\<close>

definition ROpt :: "rx \<Rightarrow> rx" where
  "ROpt r = RAlt r REps"

definition RPlus :: "rx \<Rightarrow> rx" where
  "RPlus r = RSeq r (RStar r)"

definition RChr :: "char \<Rightarrow> rx" where
  "RChr c = RCls (\<lambda>x. x = c)"

text \<open>\<open>r{0,n}\<close>\<close>

fun RUpto :: "nat \<Rightarrow> rx \<Rightarrow> rx" where
  "RUpto 0 r = REps"
| "RUpto (Suc n) r = RAlt (RSeq r (RUpto n r)) REps"

lemma seq_cls: "s \<in> rx_lang (RSeq (RCls P) t) \<longleftrightarrow> (\<exists>c u. s = c # u \<and> P c \<and> u \<in> rx_lang t)"
proof
  assume "s \<in> rx_lang (RSeq (RCls P) t)"
  then show "\<exists>c u. s = c # u \<and> P c \<and> u \<in> rx_lang t" by auto
next
  assume "\<exists>c u. s = c # u \<and> P c \<and> u \<in> rx_lang t"
  then obtain c u where "s = [c] @ u" "P c" "u \<in> rx_lang t" by auto
  then show "s \<in> rx_lang (RSeq (RCls P) t)"
    unfolding rx_lang.simps by blast
qed

lemma seq_cls_end: "s \<in> rx_lang (RSeq r (RCls P)) \<longleftrightarrow> (\<exists>u c. s = u @ [c] \<and> P c \<and> u \<in> rx_lang r)"
  by auto

lemma star_cls: "s \<in> star_lang {[c] | c. P c} \<longleftrightarrow> (\<forall>c \<in> set s. P c)"
proof
  assume "s \<in> star_lang {[c] | c. P c}"
  then show "\<forall>c \<in> set s. P c" by (induction) auto
next
  assume "\<forall>c \<in> set s. P c"
  then show "s \<in> star_lang {[c] | c. P c}"
  proof (induction s)
    case Nil
    show ?case by (rule star_Nil)
  next
    case (Cons c s)
    then show ?case using star_Cons [of "[c]" "{[c] | c. P c}" s] by auto
  qed
qed

lemma upto_cls: "s \<in> rx_lang (RUpto n (RCls P)) \<longleftrightarrow> length s \<le> n \<and> (\<forall>c \<in> set s. P c)"
proof (induction n arbitrary: s)
  case 0
  then show ?case by auto
next
  case (Suc n)
  show ?case
    by (cases s) (auto simp: seq_cls Suc.IH simp del: rx_lang.simps(4))
qed

lemma match_star_cls: "rx_match (RStar (RCls P)) s \<longleftrightarrow> (\<forall>c \<in> set s. P c)"
  by (simp add: rx_match_iff star_cls)

lemma match_plus_cls: "rx_match (RPlus (RCls P)) s \<longleftrightarrow> s \<noteq> [] \<and> (\<forall>c \<in> set s. P c)"
  unfolding rx_match_iff RPlus_def seq_cls by (cases s) (simp_all add: star_cls)

text \<open>
  \<open>^E(M*E)?$\<close>: a nonempty string whose ends are in \<open>E\<close>; and \<open>^E(M{0,n}E)?$\<close>, which also bounds
  its length.  These are the shapes of every host and name pattern of the sources.
\<close>

definition rx_edges :: "(char \<Rightarrow> bool) \<Rightarrow> rx \<Rightarrow> rx" where
  "rx_edges E mid = RSeq (RCls E) (ROpt (RSeq mid (RCls E)))"

lemma edges_lang:
  "s \<in> rx_lang (rx_edges E mid) \<longleftrightarrow>
     (\<exists>c. s = [c] \<and> E c) \<or> (\<exists>c m d. s = c # m @ [d] \<and> E c \<and> E d \<and> m \<in> rx_lang mid)"
  unfolding rx_edges_def ROpt_def seq_cls rx_lang.simps(2,5) Un_iff seq_cls_end by auto

lemma match_edges_star:
  assumes "\<And>c. E c \<Longrightarrow> M c"
  shows "rx_match (rx_edges E (RStar (RCls M))) s \<longleftrightarrow>
     s \<noteq> [] \<and> E (hd s) \<and> E (last s) \<and> (\<forall>c \<in> set s. M c)"
proof -
  have "(\<exists>c m d. s = c # m @ [d] \<and> E c \<and> E d \<and> (\<forall>x \<in> set m. M x)) \<longleftrightarrow>
     1 < length s \<and> E (hd s) \<and> E (last s) \<and> (\<forall>c \<in> set s. M c)"
  proof
    assume a: "1 < length s \<and> E (hd s) \<and> E (last s) \<and> (\<forall>c \<in> set s. M c)"
    then obtain c t where s: "s = c # t" "t \<noteq> []" by (cases s) auto
    then have "s = c # butlast t @ [last t]" by simp
    moreover have "\<forall>x \<in> set (butlast t). M x" using a s(1) by (auto dest: in_set_butlastD)
    ultimately show "\<exists>c m d. s = c # m @ [d] \<and> E c \<and> E d \<and> (\<forall>x \<in> set m. M x)"
      using a s by (metis last.simps list.sel(1))
  qed (auto intro: assms)
  moreover have "(\<exists>c. s = [c] \<and> E c) \<longleftrightarrow>
     length s = 1 \<and> E (hd s) \<and> E (last s) \<and> (\<forall>c \<in> set s. M c)"
    by (auto simp: length_Suc_conv intro: assms)
  moreover have "s \<noteq> [] \<longleftrightarrow> length s = 1 \<or> 1 < length s"
    by (cases s) auto
  ultimately show ?thesis by (auto simp: rx_match_iff edges_lang star_cls)
qed

lemma match_edges_upto:
  assumes "\<And>c. E c \<Longrightarrow> M c"
  shows "rx_match (rx_edges E (RUpto n (RCls M))) s \<longleftrightarrow>
     s \<noteq> [] \<and> length s \<le> n + 2 \<and> E (hd s) \<and> E (last s) \<and> (\<forall>c \<in> set s. M c)"
proof -
  have "s \<in> rx_lang (rx_edges E (RUpto n (RCls M))) \<longleftrightarrow>
     s \<in> rx_lang (rx_edges E (RStar (RCls M))) \<and> length s \<le> n + 2"
    unfolding edges_lang upto_cls rx_lang.simps star_cls by auto
  then show ?thesis using match_edges_star [OF assms, where s = s] by (auto simp: rx_match_iff)
qed

text \<open>The bytes a pattern can match at all.\<close>

fun rx_may :: "rx \<Rightarrow> char \<Rightarrow> bool" where
  "rx_may RNone c = False"
| "rx_may REps c = False"
| "rx_may (RCls P) c = P c"
| "rx_may (RSeq r t) c = (rx_may r c \<or> rx_may t c)"
| "rx_may (RAlt r t) c = (rx_may r c \<or> rx_may t c)"
| "rx_may (RStar r) c = rx_may r c"

lemma star_lang_chars:
  "s \<in> star_lang A \<Longrightarrow> (\<And>x c. x \<in> A \<Longrightarrow> c \<in> set x \<Longrightarrow> P c) \<Longrightarrow> c \<in> set s \<Longrightarrow> P c"
  by (induction rule: star_lang.induct) auto

lemma rx_lang_chars: "s \<in> rx_lang r \<Longrightarrow> c \<in> set s \<Longrightarrow> rx_may r c"
proof (induction r arbitrary: s c)
  case (RStar r)
  then show ?case using star_lang_chars [of s "rx_lang r" "rx_may r" c] by auto
qed auto

lemma rx_match_chars: "rx_match r s \<Longrightarrow> c \<in> set s \<Longrightarrow> rx_may r c"
  by (simp add: rx_match_iff rx_lang_chars)

section \<open>Shared patterns\<close>

text \<open>\<open>^[a-zA-Z0-9]([a-zA-Z0-9.-]*[a-zA-Z0-9])?$\<close> (netgate, tailscale and dns host names)\<close>

definition host_char :: "char \<Rightarrow> bool" where
  "host_char c \<longleftrightarrow> is_alnum c \<or> c = CHR ''.'' \<or> c = CHR ''-''"

definition plain_host_re :: rx where
  "plain_host_re = rx_edges is_alnum (RStar (RCls host_char))"

lemma plain_host_re_iff:
  "rx_match plain_host_re s \<longleftrightarrow>
     s \<noteq> [] \<and> is_alnum (hd s) \<and> is_alnum (last s) \<and> (\<forall>c \<in> set s. host_char c)"
  unfolding plain_host_re_def by (rule match_edges_star) (simp add: host_char_def)

text \<open>\<open>^[a-z0-9]([a-z0-9-]{0,61}[a-z0-9])?$\<close> (RFC 1123 labels: managed names, source names)\<close>

definition label_edge :: "char \<Rightarrow> bool" where
  "label_edge c \<longleftrightarrow> is_lower c \<or> is_digit c"

definition label_char :: "char \<Rightarrow> bool" where
  "label_char c \<longleftrightarrow> label_edge c \<or> c = CHR ''-''"

definition label_re :: rx where
  "label_re = rx_edges label_edge (RUpto 61 (RCls label_char))"

lemma label_re_iff:
  "rx_match label_re s \<longleftrightarrow>
     s \<noteq> [] \<and> length s \<le> 63 \<and> label_edge (hd s) \<and> label_edge (last s) \<and> (\<forall>c \<in> set s. label_char c)"
  unfolding label_re_def by (subst match_edges_upto) (simp_all add: label_char_def)

lemma host_char_not_space: "host_char c \<Longrightarrow> \<not> is_space c"
  by (auto simp: host_char_def char_class_defs code_def)

lemma label_char_host_char: "label_char c \<Longrightarrow> host_char c"
  by (auto simp: label_char_def label_edge_def host_char_def is_alnum_def)

lemma label_chars: "rx_match label_re n \<Longrightarrow> c \<in> set n \<Longrightarrow> c \<noteq> NL \<and> c \<noteq> CHR ''/''"
  by (auto simp: label_re_iff label_char_def label_edge_def char_class_defs code_def)

end
