(* ===== verification/Go_Strconv.thy ===== *)
theory Go_Strconv
  imports Go_Prelude
begin

text \<open>
  Decimal numbers as package \<open>strconv\<close> reads and writes them: \<open>itoa\<close> is \<open>Itoa\<close>/\<open>FormatInt(_, 10)\<close>,
  \<open>parse_int\<close> is \<open>ParseInt(_, 10, 64)\<close> (and \<open>Atoi\<close>), which rejects an empty digit string, any other
  byte and any value outside 64 bits.
\<close>

definition digit_char :: "int \<Rightarrow> char" where
  "digit_char d = char_of (48 + nat d)"

function dec_int :: "int \<Rightarrow> string" where
  "dec_int n = (if n < 10 then [digit_char n] else dec_int (n div 10) @ [digit_char (n mod 10)])"
  by pat_completeness auto
termination
  by (relation "measure nat") auto

declare dec_int.simps [simp del]

definition itoa :: "int \<Rightarrow> string" where
  "itoa i = (if i < 0 then CHR ''-'' # dec_int (- i) else dec_int i)"

fun int_of_digits :: "int \<Rightarrow> string \<Rightarrow> int option" where
  "int_of_digits acc [] = Some acc"
| "int_of_digits acc (c # cs) =
     (if is_digit c then int_of_digits (10 * acc + int (code c - 48)) cs else None)"

definition parse_digits :: "string \<Rightarrow> int option" where
  "parse_digits s = (if s = [] then None else int_of_digits 0 s)"

definition in_int64 :: "int \<Rightarrow> bool" where
  "in_int64 i \<longleftrightarrow> - (2 ^ 63) \<le> i \<and> i < 2 ^ 63"

definition parse_signed :: "string \<Rightarrow> int option" where
  "parse_signed s =
     (case s of
        [] \<Rightarrow> None
      | c # cs \<Rightarrow>
          (if c = CHR ''-'' then map_option uminus (parse_digits cs)
           else if c = CHR ''+'' then parse_digits cs
           else parse_digits s))"

definition parse_int :: "string \<Rightarrow> int option" where
  "parse_int s =
     (case parse_signed s of None \<Rightarrow> None | Some i \<Rightarrow> if in_int64 i then Some i else None)"

lemma code_digit_char [simp]: "0 \<le> d \<Longrightarrow> d < 10 \<Longrightarrow> code (digit_char d) = 48 + nat d"
  by (simp add: digit_char_def code_def)

lemma is_digit_digit_char [simp]: "0 \<le> d \<Longrightarrow> d < 10 \<Longrightarrow> is_digit (digit_char d)"
  by (simp add: is_digit_def)

lemma dec_int_not_Nil [simp]: "dec_int n \<noteq> []"
  by (subst dec_int.simps) simp

lemma dec_int_digits: "0 \<le> n \<Longrightarrow> c \<in> set (dec_int n) \<Longrightarrow> is_digit c"
proof (induction n rule: dec_int.induct)
  case (1 n)
  then show ?case
    by (cases "n < 10") (auto simp: dec_int.simps [of n])
qed

lemma int_of_digits_append:
  "int_of_digits acc (xs @ ys) =
     (case int_of_digits acc xs of None \<Rightarrow> None | Some a \<Rightarrow> int_of_digits a ys)"
  by (induction xs arbitrary: acc) auto

lemma int_of_digits_dec_int: "0 \<le> n \<Longrightarrow> int_of_digits 0 (dec_int n) = Some n"
proof (induction n rule: dec_int.induct)
  case (1 n)
  then show ?case
    by (cases "n < 10") (simp_all add: dec_int.simps [of n] int_of_digits_append)
qed

lemma parse_digits_dec_int [simp]: "0 \<le> n \<Longrightarrow> parse_digits (dec_int n) = Some n"
  by (simp add: parse_digits_def int_of_digits_dec_int)

lemma int_of_digits_nonneg: "int_of_digits acc s = Some n \<Longrightarrow> 0 \<le> acc \<Longrightarrow> 0 \<le> n"
  by (induction s arbitrary: acc) (auto split: if_splits)

lemma parse_digits_nonneg: "parse_digits s = Some n \<Longrightarrow> 0 \<le> n"
  by (auto simp: parse_digits_def dest: int_of_digits_nonneg split: if_splits)

lemma digit_not_sign: "is_digit c \<Longrightarrow> c \<noteq> CHR ''-'' \<and> c \<noteq> CHR ''+'' \<and> c \<noteq> CHR '':'' \<and> c \<noteq> CHR ''.''"
  by (auto simp: is_digit_def code_def)

lemma parse_signed_itoa [simp]: "parse_signed (itoa i) = Some i"
proof (cases "i < 0")
  case True
  then show ?thesis by (simp add: itoa_def parse_signed_def)
next
  case False
  obtain c cs where d: "dec_int i = c # cs" by (cases "dec_int i") auto
  then have "is_digit c" using False dec_int_digits [of i c] by simp
  then have "c \<noteq> CHR ''-''" "c \<noteq> CHR ''+''" by (auto dest: digit_not_sign)
  then have "parse_signed (c # cs) = parse_digits (c # cs)"
    by (simp add: parse_signed_def)
  then show ?thesis
    using False by (simp add: itoa_def d [symmetric])
qed

theorem parse_int_itoa: "in_int64 i \<Longrightarrow> parse_int (itoa i) = Some i"
  by (simp add: parse_int_def)

lemma parse_int_in_int64: "parse_int s = Some i \<Longrightarrow> in_int64 i"
  by (auto simp: parse_int_def split: option.splits if_splits)

lemma itoa_inj: "itoa i = itoa j \<Longrightarrow> i = j"
  by (metis option.inject parse_signed_itoa)

lemma itoa_chars: "c \<in> set (itoa i) \<Longrightarrow> is_digit c \<or> c = CHR ''-''"
  by (auto simp: itoa_def dest: dec_int_digits [rotated] split: if_splits)

lemma itoa_not_Nil [simp]: "itoa i \<noteq> []"
  by (simp add: itoa_def)

lemma itoa_no_colon: "CHR '':'' \<notin> set (itoa i)"
  by (auto dest: itoa_chars digit_not_sign)

end
