(* ===== verification/Net_Addr.thy ===== *)
theory Net_Addr
  imports Go_Strconv "HOL-Library.Word"
begin

unbundle bit_operations_syntax

text \<open>
  The part of package \<open>net\<close> the sources call: \<open>ParseIP\<close>, \<open>ParseCIDR\<close>, \<open>IP.To4\<close>, \<open>IsLoopback\<close>,
  \<open>IsUnspecified\<close>, \<open>IPNet.Contains\<close>, \<open>Mask.Size\<close> and \<open>SplitHostPort\<close>.  A Go \<open>net.IP\<close> is its 16-byte
  form, a 128-bit word, in which an IPv4 address is the mapped one \<open>::ffff:a.b.c.d\<close>.
\<close>

type_synonym ip4 = "32 word"
type_synonym ip16 = "128 word"

section \<open>Addresses\<close>

definition map4 :: "ip4 \<Rightarrow> ip16" where
  "map4 v = push_bit 32 0xFFFF OR ucast v"

definition to4 :: "ip16 \<Rightarrow> ip4 option" where
  "to4 a = (if drop_bit 32 a = 0xFFFF then Some (ucast a) else None)"

definition is_loopback :: "ip16 \<Rightarrow> bool" where
  "is_loopback a = (case to4 a of Some v \<Rightarrow> drop_bit 24 v = 127 | None \<Rightarrow> a = 1)"

definition is_unspecified :: "ip16 \<Rightarrow> bool" where
  "is_unspecified a \<longleftrightarrow> a = map4 0 \<or> a = 0"

lemma ucast_high_or: "(ucast (push_bit 32 x OR ucast v :: ip16) :: ip4) = v"
  by (rule bit_word_eqI) (auto simp: bit_simps)

lemma drop_high_or:
  "drop_bit 32 (push_bit 32 x OR ucast (v :: ip4) :: ip16) = take_bit 96 x"
  by (rule bit_word_eqI) (auto simp: bit_simps dest: bit_imp_le_length)

lemma to4_map4 [simp]: "to4 (map4 v) = Some v"
  unfolding to4_def map4_def ucast_high_or drop_high_or
  by (simp add: take_bit_eq_mod)

lemma to4_SomeD: "to4 a = Some v \<Longrightarrow> a = map4 v"
proof -
  assume "to4 a = Some v"
  then have h: "drop_bit 32 a = 0xFFFF" and v: "v = ucast a"
    by (auto simp: to4_def split: if_splits)
  have "a = push_bit 32 (drop_bit 32 a) OR ucast v"
    unfolding v by (rule bit_word_eqI) (auto simp: bit_simps)
  then show ?thesis by (simp only: h map4_def)
qed

section \<open>Parsing addresses\<close>

text \<open>One decimal octet: no leading zero, at most 255.\<close>

definition parse_octet :: "string \<Rightarrow> int option" where
  "parse_octet s =
     (case parse_digits s of
        None \<Rightarrow> None
      | Some n \<Rightarrow>
          if (hd s = CHR ''0'' \<and> length s \<noteq> 1) \<or> 255 < n then None else Some n)"

text \<open>\<open>netip.parseIPv4Fields\<close>\<close>

definition parse_ipv4 :: "string \<Rightarrow> ip4 option" where
  "parse_ipv4 s =
     (case map parse_octet (split_on CHR ''.'' s) of
        [Some a, Some b, Some c, Some d] \<Rightarrow>
          Some (word_of_int (a * 0x1000000 + b * 0x10000 + c * 0x100 + d))
      | _ \<Rightarrow> None)"

definition hex_val :: "char \<Rightarrow> int option" where
  "hex_val c =
     (if is_digit c then Some (int (code c) - 48)
      else if 97 \<le> code c \<and> code c \<le> 102 then Some (int (code c) - 87)
      else if 65 \<le> code c \<and> code c \<le> 70 then Some (int (code c) - 55)
      else None)"

text \<open>
  The leading hexadecimal digits of a group: their value, their number and the rest; \<open>None\<close> for a
  group of more than four digits.
\<close>

fun hex_group :: "int \<Rightarrow> nat \<Rightarrow> string \<Rightarrow> (int \<times> nat \<times> string) option" where
  "hex_group acc n [] = Some (acc, n, [])"
| "hex_group acc n (c # cs) =
     (case hex_val c of
        None \<Rightarrow> Some (acc, n, c # cs)
      | Some d \<Rightarrow> if 3 < n then None else hex_group (16 * acc + d) (Suc n) cs)"

text \<open>
  The loop of \<open>netip.parseIPv6\<close>: the 16-bit groups read so far (latest last), the index of the
  ellipsis in groups, the rest of the text.  A trailing IPv4 address counts as two groups.
\<close>

function ipv6_groups ::
    "int list \<Rightarrow> nat option \<Rightarrow> string \<Rightarrow> (int list \<times> nat option) option" where
  "ipv6_groups gs ell s =
     (if 8 \<le> length gs then (if s = [] then Some (gs, ell) else None)
      else
        case hex_group 0 0 s of
          None \<Rightarrow> None
        | Some (v, n, rest) \<Rightarrow>
            if n = 0 then None
            else if rest \<noteq> [] \<and> hd rest = CHR ''.'' then
              (if (ell = None \<and> length gs \<noteq> 6) \<or> 6 < length gs then None
               else case parse_ipv4 s of
                      None \<Rightarrow> None
                    | Some q \<Rightarrow> Some (gs @ [uint (drop_bit 16 q), uint (take_bit 16 q)], ell))
            else
              (case rest of
                 [] \<Rightarrow> Some (gs @ [v], ell)
               | c # more \<Rightarrow>
                   if c \<noteq> CHR '':'' \<or> more = [] then None
                   else if hd more = CHR '':'' then
                     (if ell \<noteq> None then None
                      else if tl more = [] then Some (gs @ [v], Some (length gs + 1))
                      else ipv6_groups (gs @ [v]) (Some (length gs + 1)) (tl more))
                   else ipv6_groups (gs @ [v]) ell more))"
  by pat_completeness auto
termination
  by (relation "measure (\<lambda>(gs, ell, s). 8 - length gs)") auto

declare ipv6_groups.simps [simp del]

definition of_groups :: "int list \<Rightarrow> ip16" where
  "of_groups gs = word_of_int (foldl (\<lambda>acc g. 65536 * acc + g) 0 gs)"

definition parse_ipv6 :: "string \<Rightarrow> ip16 option" where
  "parse_ipv6 s =
     (let (ell, body) = (if has_prefix s ''::'' then (Some 0, drop 2 s) else (None, s))
      in if ell = Some 0 \<and> body = [] then Some 0
         else case ipv6_groups [] ell body of
                None \<Rightarrow> None
              | Some (gs, e) \<Rightarrow>
                  (case e of
                     None \<Rightarrow> if length gs = 8 then Some (of_groups gs) else None
                   | Some i \<Rightarrow>
                       if length gs < 8
                       then Some (of_groups (take i gs @ replicate (8 - length gs) 0 @ drop i gs))
                       else None))"

text \<open>
  \<open>netip.ParseAddr\<close> decides by the first of \<open>.\<close>, \<open>:\<close> and \<open>%\<close>; the result carries whether it is a
  4-byte address (\<open>BitLen\<close> 32).  A zone makes \<open>ParseIP\<close> and \<open>ParseCIDR\<close> fail.
\<close>

definition parse_addr :: "string \<Rightarrow> (ip16 \<times> bool) option" where
  "parse_addr s =
     (case dropWhile (\<lambda>c. c \<noteq> CHR ''.'' \<and> c \<noteq> CHR '':'' \<and> c \<noteq> CHR ''%'') s of
        [] \<Rightarrow> None
      | c # _ \<Rightarrow>
          if c = CHR ''.'' then map_option (\<lambda>v. (map4 v, True)) (parse_ipv4 s)
          else if c = CHR '':'' \<and> CHR ''%'' \<notin> set s then map_option (\<lambda>a. (a, False)) (parse_ipv6 s)
          else None)"

definition parse_ip :: "string \<Rightarrow> ip16 option" where
  "parse_ip s = map_option fst (parse_addr s)"

section \<open>Networks\<close>

text \<open>
  \<open>net.IPNet\<close> as \<open>ParseCIDR\<close> builds it: a masked 4-byte or 16-byte base and the prefix length of
  its 32-bit or 128-bit mask.
\<close>

datatype ipnet = Net4 ip4 nat | Net6 ip16 nat

definition cidr_mask :: "nat \<Rightarrow> nat \<Rightarrow> 'a::len word" where
  "cidr_mask ones bits = NOT (mask (bits - ones))"

fun net_ones :: "ipnet \<Rightarrow> nat" where
  "net_ones (Net4 b n) = n"
| "net_ones (Net6 b n) = n"

fun net_base :: "ipnet \<Rightarrow> ip16" where
  "net_base (Net4 b n) = map4 b"
| "net_base (Net6 b n) = b"

text \<open>\<open>networkNumberAndMask\<close>: a mapped 16-byte base is compared as IPv4 with the mask's last 4 bytes.\<close>

fun v4_view :: "ipnet \<Rightarrow> (ip4 \<times> nat) option" where
  "v4_view (Net4 b n) = Some (b, n)"
| "v4_view (Net6 b n) = (case to4 b of None \<Rightarrow> None | Some v \<Rightarrow> Some (v, n - 96))"

definition net_contains :: "ipnet \<Rightarrow> ip16 \<Rightarrow> bool" where
  "net_contains net a =
     (case v4_view net of
        Some (b, n) \<Rightarrow>
          (case to4 a of
             Some v \<Rightarrow> b AND cidr_mask n 32 = v AND cidr_mask n 32
           | None \<Rightarrow> False)
      | None \<Rightarrow>
          (case to4 a of
             Some v \<Rightarrow> False
           | None \<Rightarrow> net_base net AND cidr_mask (net_ones net) 128 = a AND cidr_mask (net_ones net) 128))"

text \<open>\<open>net.dtoi\<close>: the prefix length, which must be all of the text after the slash.\<close>

definition parse_prefix_len :: "string \<Rightarrow> nat option" where
  "parse_prefix_len s =
     (case parse_digits s of None \<Rightarrow> None | Some n \<Rightarrow> if n < 0xFFFFFF then Some (nat n) else None)"

definition parse_cidr :: "string \<Rightarrow> ipnet option" where
  "parse_cidr s =
     (case cut CHR ''/'' s of
        None \<Rightarrow> None
      | Some (addr, len) \<Rightarrow>
          (case (parse_addr addr, parse_prefix_len len) of
             (Some (a, is4), Some n) \<Rightarrow>
               (if is4 then
                  (if n \<le> 32 then Some (Net4 (the (to4 a) AND cidr_mask n 32) n) else None)
                else
                  (if n \<le> 128 then Some (Net6 (a AND cidr_mask n 128) n) else None))
           | _ \<Rightarrow> None))"

text \<open>The nets \<open>ParseCIDR\<close> returns: a prefix length within the width and a masked base.\<close>

fun wf_net :: "ipnet \<Rightarrow> bool" where
  "wf_net (Net4 b n) \<longleftrightarrow> n \<le> 32 \<and> b AND cidr_mask n 32 = b"
| "wf_net (Net6 b n) \<longleftrightarrow> n \<le> 128 \<and> b AND cidr_mask n 128 = b"

lemma parse_cidr_wf: "parse_cidr s = Some n \<Longrightarrow> wf_net n"
  by (auto simp: parse_cidr_def word_bw_assocs split: option.splits prod.splits if_splits)

text \<open>Two IPv4 addresses agree on their first \<open>n\<close> bits.\<close>

definition same_prefix :: "nat \<Rightarrow> ip4 \<Rightarrow> ip4 \<Rightarrow> bool" where
  "same_prefix n x y \<longleftrightarrow> x AND cidr_mask n 32 = y AND cidr_mask n 32"

lemma same_prefix_iff: "same_prefix n x y \<longleftrightarrow> (\<forall>i. 32 - n \<le> i \<and> i < 32 \<longrightarrow> bit x i = bit y i)"
  by (auto simp: same_prefix_def cidr_mask_def bit_eq_iff bit_simps not_less)

lemma same_prefix_refl [simp]: "same_prefix n x x"
  by (simp add: same_prefix_def)

lemma same_prefix_sym: "same_prefix n x y \<Longrightarrow> same_prefix n y x"
  by (simp add: same_prefix_def)

lemma same_prefix_trans: "same_prefix n x y \<Longrightarrow> same_prefix n y z \<Longrightarrow> same_prefix n x z"
  by (simp add: same_prefix_def)

lemma same_prefix_mono: "same_prefix n x y \<Longrightarrow> m \<le> n \<Longrightarrow> same_prefix m x y"
  by (auto simp: same_prefix_iff)

lemma net_contains_map4:
  "net_contains net (map4 v) \<longleftrightarrow> (\<exists>b n. v4_view net = Some (b, n) \<and> same_prefix n b v)"
  by (auto simp: net_contains_def same_prefix_def split: option.splits)

lemma to4_net_base: "v4_view net = Some (b, n) \<Longrightarrow> to4 (net_base net) = Some b"
  by (cases net) (auto split: option.splits)

lemma net_base_view: "v4_view net = Some (b, n) \<Longrightarrow> net_base net = map4 b"
  by (cases net) (auto split: option.splits dest: to4_SomeD)

lemma v4_view_ones: "v4_view net = Some (b, n) \<Longrightarrow> n \<le> net_ones net"
  by (cases net) (auto split: option.splits)

text \<open>Two networks with an IPv4 address in common: the wider one holds the base of the other.\<close>

lemma net_common_address:
  assumes "net_contains m (map4 v)" and "net_contains n (map4 v)"
  shows "net_contains m (net_base n) \<or> net_contains n (net_base m)"
proof -
  obtain b i c j where
    m: "v4_view m = Some (b, i)" "same_prefix i b v" and
    n: "v4_view n = Some (c, j)" "same_prefix j c v"
    using assms by (auto simp: net_contains_map4)
  have "i \<le> j \<or> j \<le> i" by arith
  then show ?thesis
  proof
    assume "i \<le> j"
    then have "same_prefix i c v" by (rule same_prefix_mono [OF n(2)])
    then have "same_prefix i b c" by (metis m(2) same_prefix_sym same_prefix_trans)
    then show ?thesis using m(1) net_base_view [OF n(1)] by (simp add: net_contains_map4)
  next
    assume "j \<le> i"
    then have "same_prefix j b v" by (rule same_prefix_mono [OF m(2)])
    then have "same_prefix j c b" by (metis n(2) same_prefix_sym same_prefix_trans)
    then show ?thesis using n(1) net_base_view [OF m(1)] by (simp add: net_contains_map4)
  qed
qed

section \<open>Dotted decimal addresses\<close>

definition dotted :: "int \<Rightarrow> int \<Rightarrow> int \<Rightarrow> int \<Rightarrow> string" where
  "dotted a b c d = join ''.'' [dec_int a, dec_int b, dec_int c, dec_int d]"

definition is_octet :: "int \<Rightarrow> bool" where
  "is_octet n \<longleftrightarrow> 0 \<le> n \<and> n \<le> 255"

lemma digit_char_zero_iff: "0 \<le> n \<Longrightarrow> n < 10 \<Longrightarrow> digit_char n = CHR ''0'' \<longleftrightarrow> n = 0"
proof
  assume "0 \<le> n" "n < 10" "digit_char n = CHR ''0''"
  then have "code (CHR ''0'') = 48 + nat n" using code_digit_char [of n] by simp
  then have "nat n = 0" by (simp add: code_def)
  then show "n = 0" using \<open>0 \<le> n\<close> by simp
next
  assume "n = 0"
  moreover have "digit_char 0 = CHR ''0''" by code_simp
  ultimately show "digit_char n = CHR ''0''" by simp
qed

lemma dec_int_leading: "0 \<le> n \<Longrightarrow> hd (dec_int n) = CHR ''0'' \<Longrightarrow> n = 0"
proof (induction n rule: dec_int.induct)
  case (1 n)
  show ?case
  proof (cases "n < 10")
    case True
    with 1 show ?thesis by (simp add: dec_int.simps [of n] digit_char_zero_iff)
  next
    case False
    with 1 have "n div 10 = 0" by (simp add: dec_int.simps [of n])
    with False show ?thesis by simp
  qed
qed

lemma parse_octet_dec_int: "is_octet n \<Longrightarrow> parse_octet (dec_int n) = Some n"
proof -
  assume n: "is_octet n"
  have "hd (dec_int n) = CHR ''0'' \<Longrightarrow> length (dec_int n) = 1"
    using n dec_int_leading [of n] by (simp add: is_octet_def dec_int.simps [of 0])
  then show ?thesis using n by (auto simp: parse_octet_def is_octet_def)
qed

lemma dec_int_no_sep: "0 \<le> n \<Longrightarrow> c = CHR ''.'' \<or> c = CHR '':'' \<Longrightarrow> c \<notin> set (dec_int n)"
  by (auto dest: dec_int_digits digit_not_sign)

lemma parse_ipv4_dotted:
  assumes "is_octet a" "is_octet b" "is_octet c" "is_octet d"
  shows "parse_ipv4 (dotted a b c d) =
    Some (word_of_int (a * 0x1000000 + b * 0x10000 + c * 0x100 + d))"
proof -
  have "split_on CHR ''.'' (dotted a b c d) = [dec_int a, dec_int b, dec_int c, dec_int d]"
    unfolding dotted_def using assms
    by (intro split_on_join) (auto simp: is_octet_def dest: dec_int_no_sep)
  then show ?thesis using assms by (simp add: parse_ipv4_def parse_octet_dec_int)
qed

lemma parse_ip_dotted:
  assumes "is_octet a" "is_octet b" "is_octet c" "is_octet d"
  shows "parse_ip (dotted a b c d) =
    Some (map4 (word_of_int (a * 0x1000000 + b * 0x10000 + c * 0x100 + d)))"
proof -
  have "0 \<le> a" using assms by (simp add: is_octet_def)
  then have "\<And>x. x \<in> set (dec_int a) \<Longrightarrow> x \<noteq> CHR ''.'' \<and> x \<noteq> CHR '':'' \<and> x \<noteq> CHR ''%''"
    by (auto dest: dec_int_digits simp: is_digit_def code_def)
  then have "\<exists>r. dropWhile (\<lambda>c. c \<noteq> CHR ''.'' \<and> c \<noteq> CHR '':'' \<and> c \<noteq> CHR ''%'') (dotted a b c d)
      = CHR ''.'' # r"
    by (auto simp: dotted_def dropWhile_append)
  then obtain r where
    "dropWhile (\<lambda>c. c \<noteq> CHR ''.'' \<and> c \<noteq> CHR '':'' \<and> c \<noteq> CHR ''%'') (dotted a b c d) = CHR ''.'' # r"
    by blast
  then show ?thesis by (simp add: parse_ip_def parse_addr_def parse_ipv4_dotted [OF assms])
qed

lemma drop_bit_word_of_int:
  assumes "0 \<le> n" "n < 2 ^ 32"
  shows "drop_bit 24 (word_of_int n :: ip4) = word_of_int (n div 2 ^ 24)"
proof -
  have "n div 2 ^ 24 \<le> n" using assms by auto
  with assms have "0 \<le> n div 2 ^ 24" "n div 2 ^ 24 < 2 ^ 32" by auto
  then have "uint (word_of_int (n div 2 ^ 24) :: ip4) = n div 2 ^ 24"
    by (simp add: uint_word_of_int)
  moreover have "uint (word_of_int n :: ip4) = n" using assms by (simp add: uint_word_of_int)
  ultimately have "uint (drop_bit 24 (word_of_int n :: ip4)) = uint (word_of_int (n div 2 ^ 24) :: ip4)"
    by (simp add: drop_bit_eq_div uint_div)
  then show ?thesis by (simp only: word_uint_eq_iff)
qed

lemma word_of_octets_hi:
  assumes "is_octet a" "is_octet b" "is_octet c" "is_octet d"
  shows "drop_bit 24 (word_of_int (a * 0x1000000 + b * 0x10000 + c * 0x100 + d) :: ip4) = word_of_int a"
proof -
  let ?n = "a * 0x1000000 + b * 0x10000 + c * 0x100 + d"
  have "0 \<le> ?n" "?n < 2 ^ 32" "?n div 2 ^ 24 = a" using assms by (auto simp: is_octet_def)
  then show ?thesis using drop_bit_word_of_int [of ?n] by simp
qed

section \<open>Host and port\<close>

text \<open>
  \<open>net.SplitHostPort\<close>: the last colon separates the port; a bracketed host ends right before it,
  an unbracketed one holds no colon, and no bracket may stand anywhere else.
\<close>

definition split_last :: "char \<Rightarrow> string \<Rightarrow> (string \<times> string) option" where
  "split_last c s =
     (case cut c (rev s) of None \<Rightarrow> None | Some (p, h) \<Rightarrow> Some (rev h, rev p))"

definition split_host_port :: "string \<Rightarrow> (string \<times> string) option" where
  "split_host_port s =
     (case split_last CHR '':'' s of
        None \<Rightarrow> None
      | Some (h, p) \<Rightarrow>
          if s \<noteq> [] \<and> hd s = CHR ''['' then
            (case cut CHR '']'' s of
               None \<Rightarrow> None
             | Some (a, b) \<Rightarrow>
                 if b = CHR '':'' # p \<and> CHR ''['' \<notin> set (tl a) \<and> CHR ''['' \<notin> set p \<and> CHR '']'' \<notin> set p
                 then Some (tl a, p) else None)
          else if CHR '':'' \<in> set h \<or> CHR ''['' \<in> set s \<or> CHR '']'' \<in> set s then None
          else Some (h, p))"

section \<open>The bytes of an address\<close>

definition ip_char :: "char \<Rightarrow> bool" where
  "ip_char c \<longleftrightarrow> hex_val c \<noteq> None \<or> c = CHR ''.'' \<or> c = CHR '':''"

lemma split_on_bytes: "c \<in> set s \<Longrightarrow> c = d \<or> (\<exists>x \<in> set (split_on d s). c \<in> set x)"
proof (induction s)
  case (Cons a s)
  then show ?case by (cases "split_on d s") auto
qed simp

lemma int_of_digits_bytes: "int_of_digits acc s = Some n \<Longrightarrow> c \<in> set s \<Longrightarrow> is_digit c"
  by (induction acc s rule: int_of_digits.induct) (auto split: if_splits)

lemma parse_octet_bytes: "parse_octet s = Some n \<Longrightarrow> c \<in> set s \<Longrightarrow> is_digit c"
  by (auto simp: parse_octet_def parse_digits_def split: option.splits if_splits dest: int_of_digits_bytes)

lemma digit_ip_char: "is_digit c \<Longrightarrow> ip_char c"
  by (simp add: ip_char_def hex_val_def)

lemma parse_ipv4_bytes:
  assumes "parse_ipv4 s = Some v" "c \<in> set s"
  shows "ip_char c"
proof (cases "c = CHR ''.''")
  case False
  then obtain x where x: "x \<in> set (split_on CHR ''.'' s)" "c \<in> set x"
    using split_on_bytes [OF assms(2)] by blast
  have "\<forall>y \<in> set (map parse_octet (split_on CHR ''.'' s)). y \<noteq> None"
    using assms(1) by (auto simp: parse_ipv4_def split: list.splits option.splits)
  then obtain n where "parse_octet x = Some n" using x(1) by fastforce
  then show ?thesis using parse_octet_bytes x(2) digit_ip_char by blast
qed (simp add: ip_char_def)

lemma hex_group_bytes: "hex_group acc n s = Some (v, m, rest) \<Longrightarrow> \<exists>p. s = p @ rest \<and> (\<forall>c \<in> set p. ip_char c)"
proof (induction acc n s rule: hex_group.induct)
  case (2 acc n c cs)
  show ?case
  proof (cases "hex_val c")
    case None
    then show ?thesis using 2(2) by auto
  next
    case (Some d)
    with 2 obtain p where p: "cs = p @ rest" "\<forall>c \<in> set p. ip_char c" by (auto split: if_splits)
    have "ip_char c" using Some by (simp add: ip_char_def)
    with p show ?thesis by (intro exI [of _ "c # p"]) simp
  qed
qed simp

lemma ipv6_groups_bytes: "ipv6_groups gs ell s = Some r \<Longrightarrow> \<forall>c \<in> set s. ip_char c"
proof (induction gs ell s rule: ipv6_groups.induct)
  case (1 gs ell s)
  show ?case
  proof (cases "8 \<le> length gs")
    case True
    then show ?thesis using 1(3) by (subst (asm) ipv6_groups.simps) (auto split: if_splits)
  next
    case False
    then obtain v n rest where g: "hex_group 0 0 s = Some (v, n, rest)" and n: "n \<noteq> 0"
      using 1(3) by (subst (asm) ipv6_groups.simps) (auto split: option.splits if_splits)
    obtain p where p: "s = p @ rest" "\<forall>c \<in> set p. ip_char c" using hex_group_bytes [OF g] by blast
    show ?thesis
    proof (cases "rest \<noteq> [] \<and> hd rest = CHR ''.''")
      case True
      then have "parse_ipv4 s \<noteq> None"
        using 1(3) False g n by (subst (asm) ipv6_groups.simps) (auto split: option.splits if_splits)
      then show ?thesis using parse_ipv4_bytes by blast
    next
      case plain: False
      show ?thesis
      proof (cases rest)
        case Nil
        then show ?thesis using p by simp
      next
        case (Cons x more)
        then have x: "x = CHR '':''" and m: "more \<noteq> []"
          using 1(3) False g n plain by (subst (asm) ipv6_groups.simps; auto split: if_splits)+
        have colon: "ip_char CHR '':''" by (simp add: ip_char_def)
        have "\<forall>c \<in> set more. ip_char c"
        proof (cases "hd more = CHR '':''")
          case True
          then have "tl more = [] \<or> ipv6_groups (gs @ [v]) (Some (length gs + 1)) (tl more) = Some r"
            and e: "ell = None"
            using 1(3) False g n plain Cons x m by (subst (asm) ipv6_groups.simps; auto split: if_splits)+
          then have "\<forall>c \<in> set (tl more). ip_char c"
            using 1(1) [OF False g refl refl n plain Cons] True x m e by (cases "tl more = []") auto
          then show ?thesis using True colon m by (cases more) auto
        next
          case hd: False
          then have "ipv6_groups (gs @ [v]) ell more = Some r"
            using 1(3) False g n plain Cons x m by (subst (asm) ipv6_groups.simps) (auto split: if_splits)
          then show ?thesis using 1(2) [OF False g refl refl n plain Cons] hd x m by auto
        qed
        then show ?thesis using p Cons x colon by auto
      qed
    qed
  qed
qed

lemma parse_ip_bytes:
  assumes "parse_ip s = Some a" "c \<in> set s"
  shows "ip_char c"
proof -
  have "(\<exists>v. parse_ipv4 s = Some v) \<or> parse_ipv6 s = Some a"
    using assms(1) by (auto simp: parse_ip_def parse_addr_def split: list.splits if_splits)
  then show ?thesis
  proof
    assume "\<exists>v. parse_ipv4 s = Some v"
    then show ?thesis using parse_ipv4_bytes assms(2) by blast
  next
    assume 6: "parse_ipv6 s = Some a"
    have colon: "ip_char CHR '':''" by (simp add: ip_char_def)
    show ?thesis
    proof (cases "has_prefix s ''::''")
      case True
      then obtain t where t: "s = ''::'' @ t" by (auto simp: str_simps)
      have "t = [] \<or> (\<exists>r. ipv6_groups [] (Some 0) t = Some r)"
        using 6 True t by (auto simp: parse_ipv6_def Let_def split: if_splits option.splits)
      then show ?thesis using t assms(2) colon ipv6_groups_bytes by auto
    next
      case False
      then have "\<exists>r. ipv6_groups [] None s = Some r"
        using 6 by (auto simp: parse_ipv6_def Let_def split: if_splits option.splits)
      then show ?thesis using assms(2) ipv6_groups_bytes by auto
    qed
  qed
qed

lemma ip_char_plain: "ip_char c \<Longrightarrow> \<not> is_space c \<and> c \<noteq> CHR ''#''"
  by (auto simp: ip_char_def hex_val_def is_space_def is_digit_def code_def split: if_splits)

lemma parse_ip_not_Nil: "parse_ip [] = None"
  by (simp add: parse_ip_def parse_addr_def)

end
