(* ===== verification/Target_Guard.thy ===== *)
theory Target_Guard
  imports Go_Regexp Net_Addr "HOL-Library.Char_ord" "HOL-Library.List_Lexorder"
begin

text \<open>
  \<open>internal/targetguard\<close>: which \<open>host:port\<close> a managed route, forward or publish may point at.  The
  process environment is a function from variable names to values (\<open>os.Getenv\<close>: \<open>''''\<close> when
  unset); a Go \<open>map[string]bool\<close> holding only \<open>true\<close> is a set.  Errors keep the arguments of the
  messages, not their text.
\<close>

datatype guard_error =
    NotPlainHostPort
  | PointsAtRouter string string
  | DockerApi string string string
  | HostNotAllowed string "string list" string

definition self_hosts :: "string set" where
  "self_hosts = {''localhost'', ''127.0.0.1'', ''::1'', ''router'', ''forward''}"

definition trim_chars :: "(char \<Rightarrow> bool) \<Rightarrow> string \<Rightarrow> string" where
  "trim_chars P s = rev (dropWhile P (rev (dropWhile P s)))"

definition is_bracket :: "char \<Rightarrow> bool" where
  "is_bracket c \<longleftrightarrow> c = CHR ''['' \<or> c = CHR '']''"

definition is_self_host :: "string \<Rightarrow> bool" where
  "is_self_host host =
     (let h = to_lower (trim_chars is_bracket host)
      in h \<in> self_hosts \<or>
         (case parse_ip h of
            None \<Rightarrow> False
          | Some ip \<Rightarrow> is_loopback ip \<or> is_unspecified ip))"

definition denied_targets :: "string \<Rightarrow> string \<Rightarrow> bool" where
  "denied_targets host port \<longleftrightarrow> host = ''dind'' \<and> port \<in> {''2375'', ''2376''}"

definition extra_allowed_hosts_env :: string where
  "extra_allowed_hosts_env = ''ROUTER_EXTRA_ALLOWED_TARGET_HOSTS''"

definition with_extra_hosts :: "env \<Rightarrow> string set \<Rightarrow> string set" where
  "with_extra_hosts env base =
     base \<union> set (filter (\<lambda>h. h \<noteq> [])
       (map (\<lambda>h. to_lower (trim_space h)) (split_on CHR '','' (env extra_allowed_hosts_env))))"

definition default_allowed_hosts :: "env \<Rightarrow> string set" where
  "default_allowed_hosts env = with_extra_hosts env {''code-docker'', ''dind''}"

text \<open>\<open>^[a-zA-Z0-9_.:\[\]-]+$\<close>\<close>

definition target_char :: "char \<Rightarrow> bool" where
  "target_char c \<longleftrightarrow>
     is_alnum c \<or> c = CHR ''_'' \<or> c = CHR ''.'' \<or> c = CHR '':'' \<or> is_bracket c \<or> c = CHR ''-''"

definition target_re :: rx where
  "target_re = RPlus (RCls target_char)"

definition validate_host ::
    "env \<Rightarrow> string \<Rightarrow> string \<Rightarrow> string set \<Rightarrow> string \<Rightarrow> string \<Rightarrow> guard_error + unit" where
  "validate_host env host0 port allowed allow_external_env label =
     (let host = to_lower host0
      in if is_self_host host then Inl (PointsAtRouter host label)
         else if denied_targets host port then Inl (DockerApi host port label)
         else if allow_external_env \<noteq> [] \<and> env allow_external_env = ''true'' then Inr ()
         else if host \<notin> allowed
           then Inl (HostNotAllowed host (sorted_list_of_set allowed) allow_external_env)
         else Inr ())"

text \<open>The host and port \<open>Validate\<close> hands on: the whole target when \<open>SplitHostPort\<close> fails.\<close>

definition target_parts :: "string \<Rightarrow> string \<times> string" where
  "target_parts target =
     (case split_host_port target of None \<Rightarrow> (target, []) | Some (h, p) \<Rightarrow> (h, p))"

definition validate_target ::
    "env \<Rightarrow> string \<Rightarrow> string set \<Rightarrow> string \<Rightarrow> string \<Rightarrow> guard_error + unit" where
  "validate_target env target allowed allow_external_env label =
     (if target = [] \<or> \<not> rx_match target_re target then Inl NotPlainHostPort
      else let (host, port) = target_parts target
           in validate_host env host port allowed allow_external_env label)"

section \<open>What an accepted target satisfies\<close>

lemma target_re_iff: "rx_match target_re s \<longleftrightarrow> s \<noteq> [] \<and> (\<forall>c \<in> set s. target_char c)"
  unfolding target_re_def by (rule match_plus_cls)

lemma target_char_not: "target_char c \<Longrightarrow> \<not> is_space c \<and> c \<noteq> CHR ''{'' \<and> c \<noteq> CHR ''}'' \<and> c \<noteq> NL"
  by (auto simp: target_char_def is_bracket_def char_class_defs code_def)

lemma validate_host_eq_Inr [res_simps]:
  "validate_host env h p A ext l = Inr u \<longleftrightarrow>
     \<not> is_self_host (to_lower h) \<and> \<not> denied_targets (to_lower h) p \<and>
     (ext \<noteq> [] \<and> env ext = ''true'' \<or> to_lower h \<in> A)"
  by (auto simp: validate_host_def Let_def)

lemma validate_target_eq_Inr [res_simps]:
  "validate_target env t A ext l = Inr u \<longleftrightarrow>
     t \<noteq> [] \<and> (\<forall>c \<in> set t. target_char c) \<and>
     validate_host env (fst (target_parts t)) (snd (target_parts t)) A ext l = Inr ()"
  by (auto simp: validate_target_def target_re_iff split: prod.splits)

lemma validate_target_plain:
  assumes "validate_target env t A ext l = Inr u" and "c \<in> set t"
  shows "\<not> is_space c" "c \<noteq> CHR ''{''" "c \<noteq> CHR ''}''" "c \<noteq> NL"
  using assms by (auto simp: res_simps dest: target_char_not)

text \<open>Host and port are recovered when the target is written as \<open>host:port\<close>.\<close>

lemma split_last_append: "c \<notin> set p \<Longrightarrow> split_last c (h @ c # p) = Some (h, p)"
  by (simp add: split_last_def)

lemma target_parts_plain:
  assumes "CHR '':'' \<notin> set h" "CHR '':'' \<notin> set p" "\<forall>c \<in> set (h @ p). \<not> is_bracket c"
  shows "target_parts (h @ CHR '':'' # p) = (h, p)"
proof -
  have "hd (h @ CHR '':'' # p) \<noteq> CHR ''[''"
    using assms(3) by (cases h) (auto simp: is_bracket_def)
  then have "split_host_port (h @ CHR '':'' # p) = Some (h, p)"
    using assms by (auto simp: split_host_port_def split_last_append is_bracket_def)
  then show ?thesis by (simp add: target_parts_def)
qed

lemma trim_chars_none:
  assumes "\<forall>c \<in> set s. \<not> P c"
  shows "trim_chars P s = s"
proof -
  have 1: "dropWhile P s = s" by (rule dropWhile_none) (use assms in blast)
  have 2: "dropWhile P (rev s) = rev s" by (rule dropWhile_none) (use assms in simp)
  show ?thesis by (simp add: trim_chars_def 1 2)
qed

text \<open>Every dotted spelling of \<open>127.0.0.0/8\<close> and of \<open>0.0.0.0\<close> names router itself.\<close>

lemma dotted_chars:
  assumes "is_octet a" "is_octet b" "is_octet c" "is_octet d" and "x \<in> set (dotted a b c d)"
  shows "is_digit x \<or> x = CHR ''.''"
  using assms by (auto simp: dotted_def is_octet_def dest: dec_int_digits)

lemma dotted_lower:
  assumes "is_octet a" "is_octet b" "is_octet c" "is_octet d"
  shows "to_lower (dotted a b c d) = dotted a b c d"
  unfolding to_lower_def
proof (rule map_idI)
  fix x assume "x \<in> set (dotted a b c d)"
  then have "is_digit x \<or> x = CHR ''.''" by (rule dotted_chars [OF assms])
  then have "\<not> is_upper x" by (auto simp: char_class_defs code_def)
  then show "lower_char x = x" by (simp add: lower_char_def)
qed

lemma dotted_no_bracket:
  assumes "is_octet a" "is_octet b" "is_octet c" "is_octet d"
  shows "\<forall>x \<in> set (dotted a b c d). \<not> is_bracket x"
proof
  fix x assume "x \<in> set (dotted a b c d)"
  then have "is_digit x \<or> x = CHR ''.''" by (rule dotted_chars [OF assms])
  then show "\<not> is_bracket x" by (auto simp: is_bracket_def is_digit_def code_def)
qed

lemma loopback_dotted_self:
  assumes "is_octet b" "is_octet c" "is_octet d"
  shows "is_self_host (dotted 127 b c d)"
proof -
  have 127: "is_octet 127" by (simp add: is_octet_def)
  have "is_loopback (map4 (word_of_int (127 * 0x1000000 + b * 0x10000 + c * 0x100 + d)))"
    using word_of_octets_hi [OF 127 assms] by (simp add: is_loopback_def del: of_int_add of_int_mult)
  then show ?thesis
    unfolding is_self_host_def Let_def trim_chars_none [OF dotted_no_bracket [OF 127 assms]]
      dotted_lower [OF 127 assms] parse_ip_dotted [OF 127 assms]
    by simp
qed

section \<open>What an accepted target can reach\<close>

text \<open>
  How a target is written: \<open>host:port\<close>, \<open>[host]:port\<close>, or, where it is neither, a host as a whole with no port.
  Every target is written in one way.
\<close>

definition unbracketed :: "string \<Rightarrow> bool" where
  "unbracketed s = list_all (\<lambda>c. \<not> is_bracket c) s"

definition written_pair :: "string \<Rightarrow> string \<Rightarrow> string \<Rightarrow> bool" where
  "written_pair t h p \<longleftrightarrow> unbracketed h \<and> unbracketed p \<and> CHR '':'' \<notin> set p \<and>
     (t = h @ CHR '':'' # p \<and> CHR '':'' \<notin> set h \<or> t = CHR ''['' # h @ CHR '']'' # CHR '':'' # p)"

definition written :: "string \<Rightarrow> string \<Rightarrow> string \<Rightarrow> bool" where
  "written t h p \<longleftrightarrow> written_pair t h p \<or> (\<nexists>h' p'. written_pair t h' p') \<and> h = t \<and> p = []"

lemma split_last_SomeD: "split_last c s = Some (h, p) \<Longrightarrow> s = h @ c # p \<and> c \<notin> set p"
proof -
  assume "split_last c s = Some (h, p)"
  then have "cut c (rev s) = Some (rev p, rev h)" by (auto simp: split_last_def split: option.splits prod.splits)
  then have "rev s = rev p @ c # rev h" "c \<notin> set (rev p)" by (auto dest: cut_SomeD)
  then show ?thesis by (simp add: rev_swap)
qed

text \<open>\<open>SplitHostPort\<close> splits just the targets written as a pair.\<close>

lemmas pair_defs = written_pair_def unbracketed_def list_all_iff is_bracket_def

lemma split_host_port_pair: "split_host_port t = Some (h, p) \<Longrightarrow> written_pair t h p"
proof -
  assume sp: "split_host_port t = Some (h, p)"
  then obtain h' p' where t: "split_last CHR '':'' t = Some (h', p')"
    by (auto simp: split_host_port_def split: option.splits)
  note tp = split_last_SomeD [OF t]
  show ?thesis
  proof (cases "hd t = CHR ''[''")
    case True
    moreover have "t \<noteq> []" using tp by auto
    ultimately obtain a where a: "cut CHR '']'' t = Some (a, CHR '':'' # p')" "h = tl a" "p = p'"
      "CHR ''['' \<notin> set h" "CHR ''['' \<notin> set p" "CHR '']'' \<notin> set p"
      using sp t by (auto simp: split_host_port_def split: option.splits if_splits prod.splits)
    from cut_SomeD [OF a(1)] show ?thesis using True tp a(2-)
      by (cases a) (auto simp: pair_defs)
  next
    case False
    then show ?thesis using sp t tp
      by (auto simp: split_host_port_def pair_defs split: if_splits)
  qed
qed

lemma pair_split_host_port: "written_pair t h p \<Longrightarrow> split_host_port t = Some (h, p)"
proof -
  assume w: "written_pair t h p"
  show ?thesis
  proof (cases "t = h @ CHR '':'' # p \<and> CHR '':'' \<notin> set h")
    case True
    moreover have "hd t \<noteq> CHR ''[''" using True w by (cases h) (auto simp: pair_defs)
    ultimately show ?thesis using w by (auto simp: split_host_port_def split_last_append pair_defs)
  next
    case False
    then have t: "t = (CHR ''['' # h) @ CHR '']'' # CHR '':'' # p" using w by (auto simp: written_pair_def)
    have "cut CHR '']'' t = Some (CHR ''['' # h, CHR '':'' # p)"
      unfolding t by (rule cut_append) (use w in \<open>auto simp: pair_defs\<close>)
    moreover have "split_last CHR '':'' t = Some ((CHR ''['' # h) @ [CHR '']''], p)"
      using split_last_append [of "CHR '':''" p "(CHR ''['' # h) @ [CHR '']'']"] w t by (simp add: pair_defs)
    ultimately show ?thesis using w t by (auto simp: split_host_port_def pair_defs)
  qed
qed

lemma split_host_port_iff: "written_pair t h p \<longleftrightarrow> split_host_port t = Some (h, p)"
  by (rule iffI) (fact pair_split_host_port, fact split_host_port_pair)

lemma written_iff: "written t h p \<longleftrightarrow> target_parts t = (h, p)"
  by (cases "split_host_port t") (auto simp: written_def target_parts_def split_host_port_iff)

lemma written_once:
  "\<exists>h p. written t h p"
  "written t h p \<Longrightarrow> written t h' p' \<Longrightarrow> h' = h \<and> p' = p"
  by (cases "target_parts t", auto simp: written_iff)

text \<open>Router's own addresses: \<open>::\<close>, \<open>::1\<close>, \<open>0.0.0.0\<close> and \<open>127.0.0.0\<close> to \<open>127.255.255.255\<close>, the latter two mapped.\<close>

definition own_address :: "ip16 \<Rightarrow> bool" where
  "own_address a \<longleftrightarrow> uint a \<in> {0, 1, 0xFFFF00000000} \<or> 0xFFFF7F000000 \<le> uint a \<and> uint a \<le> 0xFFFF7FFFFFFF"

lemma uint_drop: "uint (drop_bit n (a :: 'a::len word)) = uint a div 2 ^ n"
proof -
  have "take_bit LENGTH('a) (uint a) = uint a"
    using uint_bounded [of a] by (intro take_bit_int_eq_self) simp_all
  then show ?thesis unfolding unsigned_drop_bit_eq by (simp only: drop_bit_eq_div)
qed

lemma div_mod_pair: "0 \<le> w \<Longrightarrow> w < m \<Longrightarrow> u div m = c \<and> u mod m = w \<longleftrightarrow> u = m * c + (w :: int)"
  using div_mult_mod_eq [of u m] by (auto simp: mult.commute)

lemma uint_to4: "to4 a = Some v \<longleftrightarrow> uint a = 0xFFFF00000000 + uint v"
proof -
  have d: "drop_bit 32 a = 0xFFFF \<longleftrightarrow> uint a div 0x100000000 = 0xFFFF"
    using uint_drop [of 32 a] by (auto simp: word_uint_eq_iff)
  have m: "ucast a = v \<longleftrightarrow> uint a mod 0x100000000 = uint v"
    by (simp add: word_uint_eq_iff unsigned_ucast_eq take_bit_eq_mod)
  have "0 \<le> uint v" "uint v < 0x100000000" using uint_bounded [of v] by simp_all
  then have "uint a div 0x100000000 = 0xFFFF \<and> uint a mod 0x100000000 = uint v \<longleftrightarrow> uint a = 0xFFFF00000000 + uint v"
    using div_mod_pair [of "uint v" "0x100000000" "uint a" "0xFFFF"] by simp
  then show ?thesis using d m by (auto simp: to4_def)
qed

lemma own_address_iff: "is_loopback a \<or> is_unspecified a \<longleftrightarrow> own_address a"
proof (cases "to4 a")
  case None
  have "uint a \<noteq> 0xFFFF00000000 + uint v" for v :: ip4 using None uint_to4 [of a v] by simp
  have n: "uint a \<noteq> 0xFFFF00000000 + n" if "0 \<le> n" "n < 0x100000000" for n
  proof -
    have "uint (word_of_int n :: ip4) = n" using that by (simp add: uint_word_of_int)
    then show ?thesis using None uint_to4 [of a "word_of_int n"] by auto
  qed
  have "a \<noteq> map4 0" using None by auto
  moreover have "a = 1 \<longleftrightarrow> uint a = 1" "a = 0 \<longleftrightarrow> uint a = 0" by (simp_all add: word_uint_eq_iff)
  moreover have "uint a \<noteq> 0xFFFF00000000" "\<not> (0xFFFF7F000000 \<le> uint a \<and> uint a \<le> 0xFFFF7FFFFFFF)"
    using n [of 0] n [of "uint a - 0xFFFF00000000"] by (simp, fastforce)
  ultimately show ?thesis using None by (auto simp: is_loopback_def is_unspecified_def own_address_def)
next
  case (Some v)
  then have v: "uint a = 0xFFFF00000000 + uint v" by (simp add: uint_to4)
  obtain n where n: "uint v = n" "0 \<le> n" using uint_ge_0 by blast
  have "drop_bit 24 v = 127 \<longleftrightarrow> n div 0x1000000 = 127"
    using uint_drop [of 24 v] n(1) by (auto simp: word_uint_eq_iff)
  moreover have "a = map4 0 \<longleftrightarrow> n = 0"
    using to4_SomeD [OF Some] Some to4_map4 [of 0] n(1) by (metis option.inject uint_0_iff)
  moreover have u: "uint a = 0xFFFF00000000 + n" using v n(1) by simp
  moreover have "a \<noteq> 0" using u n(2) by auto
  ultimately show ?thesis using Some n(2) by (auto simp: is_loopback_def is_unspecified_def own_address_def)
qed

lemma validate_target_written:
  assumes "validate_target env t A ext l = Inr ()" "written t h p"
  shows "\<forall>c \<in> set t. target_char c" "\<not> is_self_host (to_lower h)" "\<not> denied_targets (to_lower h) p"
    "ext \<noteq> [] \<and> env ext = ''true'' \<or> to_lower h \<in> A"
  using assms by (simp_all add: res_simps written_iff)

lemma target_char_listed:
  "target_char c \<Longrightarrow> c \<in> set ''0123456789ABCDEFGHIJKLMNOPQRSTUVWXYZabcdefghijklmnopqrstuvwxyz_.:[]-''"
proof -
  assume "target_char c"
  then have "code c \<in> {48..<58} \<union> {65..<91} \<union> {97..<123} \<or> c \<in> set ''_.:[]-''"
    by (auto simp: target_char_def is_bracket_def char_class_defs)
  then have "code c \<in> set ([48..<58] @ [65..<91] @ [97..<123]) \<or> c \<in> set ''_.:[]-''"
    by (simp only: set_append set_upt Un_assoc)
  moreover have "c = char_of (code c)" by (simp add: code_def)
  ultimately have "c \<in> set (map char_of ([48..<58] @ [65..<91] @ [97..<123]) @ ''_.:[]-'')"
    by (metis UnI1 UnI2 imageI list.set_map set_append)
  moreover have "map char_of ([48..<58] @ [65..<91] @ [97..<123]) @ ''_.:[]-'' =
      ''0123456789ABCDEFGHIJKLMNOPQRSTUVWXYZabcdefghijklmnopqrstuvwxyz_.:[]-''" by code_simp
  ultimately show ?thesis by (simp only:)
qed

lemma not_self_host:
  assumes "\<not> is_self_host (to_lower h)"
  shows "to_lower (trim_chars is_bracket h) \<notin> {''localhost'', ''127.0.0.1'', ''::1'', ''router'', ''forward''}"
    "parse_ip (to_lower (trim_chars is_bracket h)) = Some a \<Longrightarrow> \<not> own_address a"
proof -
  have "is_bracket c \<longleftrightarrow> code c = 91 \<or> code c = 93" for c
    using of_char_eq_iff [of c "CHR ''[''", where ?'a = nat] of_char_eq_iff [of c "CHR '']''", where ?'a = nat] by (auto simp: is_bracket_def code_def)
  then have "is_bracket (lower_char c) = is_bracket c" for c by (auto simp: code_lower_char is_upper_def)
  then have d: "dropWhile is_bracket (to_lower x) = to_lower (dropWhile is_bracket x)" for x
    by (induction x) (simp_all add: to_lower_def)
  have "rev (to_lower x) = to_lower (rev x)" for x by (simp add: to_lower_def rev_map)
  then have t: "trim_chars is_bracket (to_lower h) = to_lower (trim_chars is_bracket h)"
    by (simp add: trim_chars_def d)
  have "to_lower (to_lower x) = to_lower x" for x by (rule to_lower_idem)
  then show "to_lower (trim_chars is_bracket h) \<notin> {''localhost'', ''127.0.0.1'', ''::1'', ''router'', ''forward''}"
    "parse_ip (to_lower (trim_chars is_bracket h)) = Some a \<Longrightarrow> \<not> own_address a"
    using assms by (simp_all add: is_self_host_def t self_hosts_def own_address_iff [symmetric] Let_def)
qed

text \<open>
  C6.  What a target accepted under any environment and allowlist can be.  It has only letters, digits and
  \<open>_.:[]-\<close> (so nothing that could leave its place in a template).  Its host, in any case and with or without
  brackets, is none of router's listed names and no spelling that \<open>net.ParseIP\<close> reads as one of router's own
  addresses (loopback or unspecified, IPv4, mapped or IPv6); it is not \<open>dind\<close> with the port written \<open>2375\<close> or
  \<open>2376\<close>; and it is on the allowlist, unless the opt-out variable is set.  The target may be \<open>host:port\<close>,
  \<open>[host]:port\<close> or, as it need not have a port, a host alone.  (With the opt-out there are other ways to write
  router: \<open>trailing_dot_self\<close> and \<open>empty_host_self\<close>.)
\<close>

theorem validate_target_sound:
  assumes "validate_target env t A ext l = Inr ()" and "written t h p"
  shows "t \<noteq> [] \<and> set t \<subseteq> set ''0123456789ABCDEFGHIJKLMNOPQRSTUVWXYZabcdefghijklmnopqrstuvwxyz_.:[]-'' \<and>
    to_lower (trim_chars is_bracket h) \<notin> {''localhost'', ''127.0.0.1'', ''::1'', ''router'', ''forward''} \<and>
    (parse_ip (to_lower (trim_chars is_bracket h)) = Some a \<longrightarrow> \<not> own_address a) \<and>
    \<not> (to_lower h = ''dind'' \<and> (p = ''2375'' \<or> p = ''2376'')) \<and>
    (to_lower h \<in> A \<or> ext \<noteq> [] \<and> env ext = ''true'')"
proof -
  note v = validate_target_written [OF assms]
  have "t \<noteq> []" using assms(1) by (simp add: validate_target_eq_Inr)
  moreover have "set t \<subseteq> set ''0123456789ABCDEFGHIJKLMNOPQRSTUVWXYZabcdefghijklmnopqrstuvwxyz_.:[]-''"
    using v(1) target_char_listed by blast
  ultimately show ?thesis
    using v(2-) not_self_host [OF v(2)] by (auto simp: denied_targets_def)
qed

theorem validate_target_sound_witness:
  "validate_target (\<lambda>_. ''true'') ''[2001:DB8::7]:80'' {''code-docker''} ''OPT'' ''dev'' = Inr () \<and>
   written ''[2001:DB8::7]:80'' ''2001:DB8::7'' ''80'' \<and>
   parse_ip (to_lower ''2001:DB8::7'') = Some 0x20010DB8000000000000000000000007 \<and>
   \<not> own_address 0x20010DB8000000000000000000000007 \<and> ''2001:db8::7'' \<noteq> ''router''"
proof -
  have ok: "validate_target (\<lambda>_. ''true'') ''[2001:DB8::7]:80'' {''code-docker''} ''OPT'' ''dev'' = Inr ()" by code_simp
  have w: "written ''[2001:DB8::7]:80'' ''2001:DB8::7'' ''80''" unfolding written_iff by code_simp
  have p: "parse_ip (to_lower ''2001:DB8::7'') = Some 0x20010DB8000000000000000000000007" by code_simp
  have "trim_chars is_bracket ''2001:DB8::7'' = ''2001:DB8::7''" by code_simp
  then show ?thesis using validate_target_sound [OF ok w, of "0x20010DB8000000000000000000000007"] ok w p by simp
qed

text \<open>
  With the opt-out variable set an empty host is accepted, which Caddy, like Go's \<open>net.Dial\<close>, takes for the local
  system: router itself.
\<close>

theorem empty_host_self:
  "validate_target (\<lambda>_. ''true'') '':2019'' A ''OPT'' l = Inr () \<and> written '':2019'' [] ''2019''"
proof -
  have p: "target_parts '':2019'' = ([], ''2019'')" by code_simp
  have "\<forall>c \<in> set '':2019''. target_char c" "\<not> is_self_host (to_lower [])" "\<not> denied_targets (to_lower []) ''2019''"
    by code_simp+
  then show ?thesis using p unfolding validate_target_eq_Inr validate_host_eq_Inr written_iff by simp
qed

text \<open>
  Every dotted spelling of the loopback range is refused as a target, with any port, allowlist,
  environment and opt-out variable.
\<close>

theorem loopback_target_refused:
  assumes "is_octet b" "is_octet c" "is_octet d" and "CHR '':'' \<notin> set p" "\<forall>x \<in> set p. \<not> is_bracket x"
  shows "is_err (validate_target env (dotted 127 b c d @ CHR '':'' # p) A ext l)"
proof -
  have 127: "is_octet 127" by (simp add: is_octet_def)
  have "CHR '':'' \<notin> set (dotted 127 b c d)"
    using dotted_chars [OF 127 assms(1-3), of "CHR '':''"] by (auto simp: is_digit_def code_def)
  moreover have "\<forall>x \<in> set (dotted 127 b c d @ p). \<not> is_bracket x"
    using dotted_no_bracket [OF 127 assms(1-3)] assms(5) by auto
  ultimately have "target_parts (dotted 127 b c d @ CHR '':'' # p) = (dotted 127 b c d, p)"
    using assms(4) by (intro target_parts_plain)
  then have "validate_target env (dotted 127 b c d @ CHR '':'' # p) A ext l \<noteq> Inr ()"
    using loopback_dotted_self [OF assms(1-3)] dotted_lower [OF 127 assms(1-3)] by (simp add: res_simps)
  then show ?thesis
    by (cases "validate_target env (dotted 127 b c d @ CHR '':'' # p) A ext l") auto
qed

theorem loopback_target_refused_witness:
  "is_err (validate_target (\<lambda>_. ''true'') (dotted 127 0 53 1 @ CHR '':'' # ''2019'') {dotted 127 0 53 1} ''X'' [])"
  by (rule loopback_target_refused) (simp_all add: is_octet_def is_bracket_def)

text \<open>
  The port of a denied target is compared as text: another spelling of the Docker API's port is
  accepted, with the default allowlist, though it dials the same port.
\<close>

theorem docker_api_respelled:
  "validate_target (\<lambda>_. []) ''dind:02375'' (default_allowed_hosts (\<lambda>_. [])) [] l = Inr () \<and>
   is_err (validate_target (\<lambda>_. []) ''dind:2375'' (default_allowed_hosts (\<lambda>_. [])) [] l) \<and>
   parse_int ''02375'' = parse_int ''2375''"
proof -
  have "validate_target (\<lambda>_. []) ''dind:02375'' (default_allowed_hosts (\<lambda>_. [])) [] l = Inr ()"
    by code_simp
  moreover have "is_err (validate_target (\<lambda>_. []) ''dind:2375'' (default_allowed_hosts (\<lambda>_. [])) [] l)"
    by code_simp
  moreover have "parse_int ''02375'' = parse_int ''2375''" by code_simp
  ultimately show ?thesis by simp
qed

text \<open>
  With the opt-out variable set, router's own name with a trailing dot (the same host to a
  resolver) is accepted as a target.
\<close>

theorem trailing_dot_self:
  "validate_target (\<lambda>_. ''true'') ''localhost.:2019'' A ''OPT'' l = Inr () \<and>
   is_err (validate_target (\<lambda>_. ''true'') ''localhost:2019'' A ''OPT'' l)"
proof -
  have "target_parts ''localhost.:2019'' = (''localhost.'', ''2019'')"
    "target_parts ''localhost:2019'' = (''localhost'', ''2019'')" 
    "\<not> is_self_host (to_lower ''localhost.'')" "is_self_host (to_lower ''localhost'')"
    "\<not> denied_targets (to_lower ''localhost.'') ''2019''"
    "\<forall>c \<in> set ''localhost.:2019''. target_char c" "\<forall>c \<in> set ''localhost:2019''. target_char c" by code_simp+
  then have "validate_target (\<lambda>_. ''true'') ''localhost.:2019'' A ''OPT'' l = Inr ()"
    and "validate_target (\<lambda>_. ''true'') ''localhost:2019'' A ''OPT'' l \<noteq> Inr ()"
    unfolding validate_target_eq_Inr validate_host_eq_Inr by auto
  then show ?thesis by (cases "validate_target (\<lambda>_. ''true'') ''localhost:2019'' A ''OPT'' l") auto
qed

end
