(* ===== verification/Atomic_File.thy ===== *)
theory Atomic_File
  imports Go_Prelude
begin

text \<open>
  The file system as the sources use it, and \<open>internal/atomicfile\<close>.  A file holds its contents
  (of any type \<open>'b\<close>: the text of a fragment, or the bytes an encoder made) and its mode.  Which
  system calls fail, what a failed write leaves behind and the mode a new file gets under the
  process umask are the environment's choice, the record \<open>os\<close>.
\<close>

datatype syscall =
    ReadFile string
  | Stat string
  | MkdirAll string
  | WriteFile string
  | Chmod string
  | Rename string string
  | Remove string

datatype io_error = IOError syscall

record 'b inode =
  contents :: 'b
  perm :: nat

type_synonym 'b fs = "string \<rightharpoonup> 'b inode"

record 'b os =
  fails :: "syscall \<Rightarrow> bool"
  torn :: "'b \<Rightarrow> 'b option"
  create_perm :: "nat \<Rightarrow> nat"

definition path_dir :: "string \<Rightarrow> string" where
  "path_dir p = (case dropWhile (\<lambda>c. c \<noteq> CHR ''/'') (rev p) of [] \<Rightarrow> ''.'' | _ # r \<Rightarrow> rev r)"

section \<open>System calls\<close>

datatype 'b read_result = NoSuchFile | ReadFailed io_error | ReadOK 'b

definition read_file :: "'b os \<Rightarrow> 'b fs \<Rightarrow> string \<Rightarrow> 'b read_result" where
  "read_file os fs p =
     (case fs p of
        None \<Rightarrow> NoSuchFile
      | Some f \<Rightarrow> if fails os (ReadFile p) then ReadFailed (IOError (ReadFile p)) else ReadOK (contents f))"

text \<open>\<open>os.Stat(p)\<close> with \<open>err == nil\<close>\<close>

definition stat_ok :: "'b os \<Rightarrow> 'b fs \<Rightarrow> string \<Rightarrow> bool" where
  "stat_ok os fs p \<longleftrightarrow> fs p \<noteq> None \<and> \<not> fails os (Stat p)"

type_synonym 'b act = "'b fs \<Rightarrow> (io_error + unit) \<times> 'b fs"

definition mkdir_all :: "'b os \<Rightarrow> string \<Rightarrow> 'b act" where
  "mkdir_all os d fs = (if fails os (MkdirAll d) then (Inl (IOError (MkdirAll d)), fs) else (Inr (), fs))"

text \<open>\<open>os.WriteFile\<close>: the mode argument only applies to a file it creates.\<close>

definition file_mode :: "'b os \<Rightarrow> 'b fs \<Rightarrow> string \<Rightarrow> nat \<Rightarrow> nat" where
  "file_mode os fs p m = (case fs p of None \<Rightarrow> create_perm os m | Some f \<Rightarrow> perm f)"

definition write_file :: "'b os \<Rightarrow> string \<Rightarrow> 'b \<Rightarrow> nat \<Rightarrow> 'b act" where
  "write_file os p d m fs =
     (if fails os (WriteFile p) then
        (Inl (IOError (WriteFile p)),
         (case torn os d of
            None \<Rightarrow> fs
          | Some t \<Rightarrow> fs(p \<mapsto> \<lparr>contents = t, perm = file_mode os fs p m\<rparr>)))
      else (Inr (), fs(p \<mapsto> \<lparr>contents = d, perm = file_mode os fs p m\<rparr>)))"

definition chmod :: "'b os \<Rightarrow> string \<Rightarrow> nat \<Rightarrow> 'b act" where
  "chmod os p m fs =
     (case fs p of
        None \<Rightarrow> (Inl (IOError (Chmod p)), fs)
      | Some f \<Rightarrow>
          if fails os (Chmod p) then (Inl (IOError (Chmod p)), fs)
          else (Inr (), fs(p \<mapsto> f\<lparr>perm := m\<rparr>)))"

definition rename :: "'b os \<Rightarrow> string \<Rightarrow> string \<Rightarrow> 'b act" where
  "rename os p q fs =
     (case fs p of
        None \<Rightarrow> (Inl (IOError (Rename p q)), fs)
      | Some f \<Rightarrow>
          if fails os (Rename p q) then (Inl (IOError (Rename p q)), fs)
          else (Inr (), fs(p := None, q \<mapsto> f)))"

definition remove :: "'b os \<Rightarrow> string \<Rightarrow> 'b act" where
  "remove os p fs =
     (if fs p = None \<or> fails os (Remove p) then (Inl (IOError (Remove p)), fs)
      else (Inr (), fs(p := None)))"

text \<open>A sequence of calls stops at the first that fails; \<open>states\<close> lists the file systems passed.\<close>

fun run_acts :: "'b act list \<Rightarrow> 'b act" where
  "run_acts [] fs = (Inr (), fs)"
| "run_acts (a # as) fs =
     (case a fs of
        (Inl e, fs') \<Rightarrow> (Inl e, fs')
      | (Inr _, fs') \<Rightarrow> run_acts as fs')"

fun states :: "'b act list \<Rightarrow> 'b fs \<Rightarrow> 'b fs list" where
  "states [] fs = [fs]"
| "states (a # as) fs =
     fs # (case a fs of
        (Inl e, fs') \<Rightarrow> [fs']
      | (Inr _, fs') \<Rightarrow> states as fs')"

section \<open>atomicfile.Write\<close>

definition tmp_path :: "string \<Rightarrow> string" where
  "tmp_path p = p @ ''.tmp''"

definition atomic_write_acts :: "'b os \<Rightarrow> string \<Rightarrow> 'b \<Rightarrow> nat \<Rightarrow> 'b act list" where
  "atomic_write_acts os p d m =
     [mkdir_all os (path_dir p),
      write_file os (tmp_path p) d m,
      chmod os (tmp_path p) m,
      rename os (tmp_path p) p]"

definition atomic_write :: "'b os \<Rightarrow> string \<Rightarrow> 'b \<Rightarrow> nat \<Rightarrow> 'b act" where
  "atomic_write os p d m fs = run_acts (atomic_write_acts os p d m) fs"

text \<open>
  The hand-written variant of \<open>authgate/store.go\<close> and \<open>tinyauthusers/store.go\<close>: the same steps
  without the \<open>Chmod\<close>.
\<close>

definition credential_write_acts :: "'b os \<Rightarrow> string \<Rightarrow> 'b \<Rightarrow> nat \<Rightarrow> 'b act list" where
  "credential_write_acts os p d m =
     [mkdir_all os (path_dir p),
      write_file os (tmp_path p) d m,
      rename os (tmp_path p) p]"

definition credential_write :: "'b os \<Rightarrow> string \<Rightarrow> 'b \<Rightarrow> nat \<Rightarrow> 'b act" where
  "credential_write os p d m fs = run_acts (credential_write_acts os p d m) fs"

lemmas syscall_defs =
  mkdir_all_def write_file_def chmod_def rename_def remove_def file_mode_def

lemma tmp_path_neq [simp]: "tmp_path p \<noteq> p" "p \<noteq> tmp_path p"
  by (simp_all add: tmp_path_def)

text \<open>An environment in which every call succeeds.\<close>

definition quiet_os :: "'b os" where
  "quiet_os = \<lparr>fails = (\<lambda>_. False), torn = (\<lambda>_. None), create_perm = (\<lambda>m. m)\<rparr>"

lemma quiet_os_simps [simp]:
  "fails quiet_os c = False" "torn quiet_os d = None" "create_perm quiet_os m = m"
  by (simp_all add: quiet_os_def)

text \<open>Each call, by result.\<close>

lemma mkdir_all_cases:
  "mkdir_all os d fs = (r, fs') \<Longrightarrow> fs' = fs"
  by (auto simp: mkdir_all_def split: if_splits)

lemma write_file_ok:
  "write_file os p d m fs = (Inr u, fs') \<Longrightarrow>
     fs' = fs(p \<mapsto> \<lparr>contents = d, perm = file_mode os fs p m\<rparr>)"
  by (auto simp: write_file_def split: if_splits)

lemma write_file_frame: "write_file os p d m fs = (r, fs') \<Longrightarrow> q \<noteq> p \<Longrightarrow> fs' q = fs q"
  by (auto simp: write_file_def split: if_splits option.splits)

lemma chmod_ok:
  "chmod os p m fs = (Inr u, fs') \<Longrightarrow> \<exists>f. fs p = Some f \<and> fs' = fs(p \<mapsto> f\<lparr>perm := m\<rparr>)"
  by (auto simp: chmod_def split: if_splits option.splits)

lemma chmod_frame: "chmod os p m fs = (r, fs') \<Longrightarrow> q \<noteq> p \<Longrightarrow> fs' q = fs q"
  by (auto simp: chmod_def split: if_splits option.splits)

lemma rename_ok:
  "rename os p q fs = (Inr u, fs') \<Longrightarrow> \<exists>f. fs p = Some f \<and> fs' = fs(p := None, q \<mapsto> f)"
  by (auto simp: rename_def split: if_splits option.splits)

lemma rename_err: "rename os p q fs = (Inl e, fs') \<Longrightarrow> fs' = fs"
  by (auto simp: rename_def split: if_splits option.splits)

lemma run_acts_Nil_iff: "run_acts [] fs = (r, fs') \<longleftrightarrow> r = Inr () \<and> fs' = fs"
  by auto

lemma run_acts_ok_iff:
  "run_acts (a # as) fs = (Inr u, fs') \<longleftrightarrow>
     (\<exists>fs1. a fs = (Inr (), fs1) \<and> run_acts as fs1 = (Inr u, fs'))"
  by (auto split: prod.splits sum.splits)

lemma run_acts_err_iff:
  "run_acts (a # as) fs = (Inl e, fs') \<longleftrightarrow>
     a fs = (Inl e, fs') \<or> (\<exists>fs1. a fs = (Inr (), fs1) \<and> run_acts as fs1 = (Inl e, fs'))"
  by (auto split: prod.splits sum.splits)

lemmas run_acts_iffs = run_acts_Nil_iff run_acts_ok_iff run_acts_err_iff

lemma run_acts_frame:
  "(\<And>a g. a \<in> set as \<Longrightarrow> snd (a g) q = g q) \<Longrightarrow> snd (run_acts as fs) q = fs q"
proof (induction as arbitrary: fs)
  case (Cons a as)
  have "snd (a fs) q = fs q" by (rule Cons.prems) simp
  moreover have "snd (run_acts as g) q = g q" for g by (rule Cons.IH) (simp add: Cons.prems)
  ultimately show ?case by (auto split: prod.splits sum.splits)
qed simp

lemma atomic_write_ok:
  assumes "atomic_write os p d m fs = (Inr (), fs')"
  shows "fs' = fs(tmp_path p := None, p \<mapsto> \<lparr>contents = d, perm = m\<rparr>)"
proof -
  obtain fs0 fs1 fs2 where "mkdir_all os (path_dir p) fs = (Inr (), fs0)"
    and "write_file os (tmp_path p) d m fs0 = (Inr (), fs1)"
    and "chmod os (tmp_path p) m fs1 = (Inr (), fs2)"
    and "rename os (tmp_path p) p fs2 = (Inr (), fs')"
    using assms unfolding atomic_write_def atomic_write_acts_def run_acts_iffs by blast
  then show ?thesis
    by (auto simp: fun_eq_iff dest!: mkdir_all_cases write_file_ok chmod_ok rename_ok)
qed

lemma atomic_write_err:
  assumes "atomic_write os p d m fs = (Inl e, fs')" and q: "q \<noteq> tmp_path p"
  shows "fs' q = fs q"
  using assms(1) unfolding atomic_write_def atomic_write_acts_def run_acts_iffs
  by (auto dest!: mkdir_all_cases rename_err write_file_frame [OF _ q] chmod_frame [OF _ q])

lemma atomic_write_other:
  assumes "q \<noteq> tmp_path p" and "q \<noteq> p"
  shows "snd (atomic_write os p d m fs) q = fs q"
  unfolding atomic_write_def
proof (rule run_acts_frame)
  fix a and g :: "'a fs"
  assume "a \<in> set (atomic_write_acts os p d m)"
  then show "snd (a g) q = g q"
    using assms by (auto simp: atomic_write_acts_def syscall_defs split: option.splits)
qed

lemma atomic_write_quiet:
  "atomic_write quiet_os p d m fs =
     (Inr (), fs(tmp_path p := None, p \<mapsto> \<lparr>contents = d, perm = m\<rparr>))"
  by (simp add: atomic_write_def atomic_write_acts_def syscall_defs fun_eq_iff)

lemma credential_write_ok:
  assumes "credential_write os p d m fs = (Inr (), fs')"
  shows "fs' = fs(tmp_path p := None, p \<mapsto> \<lparr>contents = d, perm = file_mode os fs (tmp_path p) m\<rparr>)"
proof -
  obtain fs0 fs1 where "mkdir_all os (path_dir p) fs = (Inr (), fs0)"
    and "write_file os (tmp_path p) d m fs0 = (Inr (), fs1)"
    and "rename os (tmp_path p) p fs1 = (Inr (), fs')"
    using assms unfolding credential_write_def credential_write_acts_def run_acts_iffs by blast
  then show ?thesis
    by (auto simp: fun_eq_iff dest!: mkdir_all_cases write_file_ok rename_ok)
qed

lemma credential_write_err:
  assumes "credential_write os p d m fs = (Inl e, fs')" and q: "q \<noteq> tmp_path p"
  shows "fs' q = fs q"
  using assms(1) unfolding credential_write_def credential_write_acts_def run_acts_iffs
  by (auto dest!: mkdir_all_cases rename_err dest: write_file_frame [OF _ q])

lemma credential_write_quiet:
  "credential_write quiet_os p d m fs =
     (Inr (), fs(tmp_path p := None, p \<mapsto> \<lparr>contents = d, perm = file_mode quiet_os fs (tmp_path p) m\<rparr>))"
  by (simp add: credential_write_def credential_write_acts_def syscall_defs fun_eq_iff)

section \<open>What a reader of the path can see\<close>

text \<open>
  C13.  At every moment of an atomic write, whichever calls fail in it, the path holds what it held
  before or the whole new contents with the requested mode.
\<close>

theorem atomic_write_states:
  assumes "s \<in> set (states (atomic_write_acts os p d m) fs)"
  shows "s p = fs p \<or> s p = Some \<lparr>contents = d, perm = m\<rparr>"
  using assms
  by (auto simp: atomic_write_acts_def syscall_defs split: if_splits option.splits)

theorem atomic_write_states_witness:
  "\<exists>s. s \<in> set (states (atomic_write_acts
        \<lparr>fails = \<lambda>c. c = WriteFile ''a.tmp'', torn = \<lambda>_. Some ''n'', create_perm = \<lambda>m. m\<rparr> ''a'' ''new'' 0x180)
        [''a'' \<mapsto> \<lparr>contents = ''old'', perm = 0x1A4\<rparr>]) \<and>
     s ''a.tmp'' = Some \<lparr>contents = ''n'', perm = 0x180\<rparr> \<and>
     (s ''a'' = Some \<lparr>contents = ''old'', perm = 0x1A4\<rparr> \<or> s ''a'' = Some \<lparr>contents = ''new'', perm = 0x180\<rparr>)"
proof -
  let ?os = "\<lparr>fails = \<lambda>c. c = WriteFile ''a.tmp'', torn = \<lambda>_. Some ''n'', create_perm = \<lambda>m. m\<rparr>"
  let ?fs = "[''a'' \<mapsto> \<lparr>contents = ''old'', perm = 0x1A4\<rparr>]"
  let ?s = "?fs(''a.tmp'' \<mapsto> \<lparr>contents = ''n'', perm = 0x180\<rparr>)"
  have "?s \<in> set (states (atomic_write_acts ?os ''a'' ''new'' 0x180) ?fs)"
    by (simp add: atomic_write_acts_def syscall_defs tmp_path_def)
  from this and atomic_write_states [OF this] show ?thesis
    by (intro exI [of _ ?s]) simp
qed

text \<open>
  An atomic write that answers success leaves the new contents with exactly the requested mode,
  whatever temporary file an earlier crash left and whatever the umask, and no temporary file; one that
  fails leaves every file but the temporary one as it was.
\<close>

theorem atomic_write_spec:
  "(case atomic_write os p d m fs of
      (Inr u, fs') \<Rightarrow> fs' = fs(tmp_path p := None, p \<mapsto> \<lparr>contents = d, perm = m\<rparr>)
    | (Inl e, fs') \<Rightarrow> \<not> (\<exists>q. q \<noteq> tmp_path p \<and> fs' q \<noteq> fs q))"
  using atomic_write_ok atomic_write_err by (fastforce split: prod.splits sum.splits)

text \<open>
  The hand-written variant the credential files use does not have that property: a temporary file
  left with another mode gives the credential file its mode.
\<close>

theorem credential_write_stale_mode:
  assumes "fs (tmp_path p) = Some f"
  shows "\<exists>fs'. credential_write quiet_os p d m fs = (Inr (), fs') \<and>
    fs' p = Some \<lparr>contents = d, perm = perm f\<rparr>"
  using assms by (simp add: credential_write_quiet file_mode_def)

theorem credential_write_stale_mode_witness:
  "\<exists>fs'. credential_write quiet_os ''h'' ''hash'' 0x180 [''h.tmp'' \<mapsto> \<lparr>contents = [], perm = 0x1B6\<rparr>] =
      (Inr (), fs') \<and> fs' ''h'' = Some \<lparr>contents = ''hash'', perm = 0x1B6\<rparr>"
  using credential_write_stale_mode [of "[''h.tmp'' \<mapsto> \<lparr>contents = [], perm = 0x1B6\<rparr>]" "''h''"
      "\<lparr>contents = [], perm = 0x1B6\<rparr>" "''hash''" "0x180"]
  by (simp add: tmp_path_def)

end
