(* ===== verification/Config_Store.thy ===== *)
theory Config_Store
  imports Atomic_File
begin

text \<open>
  The two interfaces the configuration packages (\<open>netgate\<close>, \<open>tailscale\<close>, \<open>vnc\<close>, \<open>tinyauthusers\<close>)
  share.  \<open>keyed_entries\<close>: a list of entries with a unique key, the loops that look for a taken key,
  drop a key or replace an entry.  \<open>config_store\<close>: one document in one file, read whole, changed and
  written whole.  The encoders (\<open>yaml.v3\<close>, \<open>encoding/json\<close>) are parameters, a \<open>codec\<close>.
\<close>

section \<open>Keyed lists\<close>

text \<open>\<open>for _, e := range xs { if e.Key == k { return ErrExists } }\<close>\<close>

fun key_taken :: "('e \<Rightarrow> 'k) \<Rightarrow> 'k \<Rightarrow> 'e list \<Rightarrow> bool" where
  "key_taken key k [] = False"
| "key_taken key k (e # es) = (if key e = k then True else key_taken key k es)"

text \<open>The \<open>found\<close>/\<open>kept\<close> loop of every delete.\<close>

fun drop_key :: "('e \<Rightarrow> 'k) \<Rightarrow> 'k \<Rightarrow> 'e list \<Rightarrow> bool \<times> 'e list" where
  "drop_key key k [] = (False, [])"
| "drop_key key k (e # es) =
     (let (found, kept) = drop_key key k es
      in if key e = k then (True, kept) else (found, e # kept))"

text \<open>The update loop: the first entry with the key is overwritten, then \<open>break\<close>.\<close>

fun replace_key :: "('e \<Rightarrow> 'k) \<Rightarrow> 'k \<Rightarrow> 'e \<Rightarrow> 'e list \<Rightarrow> 'e list option" where
  "replace_key key k f [] = None"
| "replace_key key k f (e # es) =
     (if key e = k then Some (f # es)
      else map_option ((#) e) (replace_key key k f es))"

definition lookup_key :: "('e \<Rightarrow> 'k) \<Rightarrow> 'k \<Rightarrow> 'e list \<Rightarrow> 'e option" where
  "lookup_key key k xs = find (\<lambda>e. key e = k) xs"

definition unique_keys :: "('e \<Rightarrow> 'k) \<Rightarrow> 'e list \<Rightarrow> bool" where
  "unique_keys key xs \<longleftrightarrow> distinct (map key xs)"

lemma key_taken_iff [simp]: "key_taken key k xs \<longleftrightarrow> k \<in> key ` set xs"
  by (induction xs) auto

lemma drop_key_eq: "drop_key key k xs = (k \<in> key ` set xs, filter (\<lambda>e. key e \<noteq> k) xs)"
  by (induction xs) auto

lemma replace_key_None_iff: "replace_key key k f xs = None \<longleftrightarrow> k \<notin> key ` set xs"
  by (induction xs) auto

lemma lookup_key_simps [simp]:
  "lookup_key key k [] = None"
  "lookup_key key k (e # es) = (if key e = k then Some e else lookup_key key k es)"
  by (auto simp: lookup_key_def)

lemma lookup_key_None_iff: "lookup_key key k xs = None \<longleftrightarrow> k \<notin> key ` set xs"
  by (induction xs) auto

lemma lookup_key_SomeD: "lookup_key key k xs = Some e \<Longrightarrow> e \<in> set xs \<and> key e = k"
  by (induction xs) (auto split: if_splits)

lemma lookup_key_append:
  "lookup_key key k (xs @ ys) =
     (case lookup_key key k xs of None \<Rightarrow> lookup_key key k ys | Some e \<Rightarrow> Some e)"
  by (induction xs) auto

lemma lookup_key_filter:
  "lookup_key key j (filter (\<lambda>e. key e \<noteq> k) xs) = (if j = k then None else lookup_key key j xs)"
  by (induction xs) auto

lemma replace_key_lookup:
  "replace_key key k f xs = Some ys \<Longrightarrow> key f = k \<Longrightarrow>
     lookup_key key j ys = (if j = k then Some f else lookup_key key j xs)"
  by (induction xs arbitrary: ys) (auto split: if_splits)

lemma replace_key_keys: "replace_key key k f xs = Some ys \<Longrightarrow> key f = k \<Longrightarrow> map key ys = map key xs"
  by (induction xs arbitrary: ys) (auto split: if_splits)

lemma replace_key_set: "replace_key key k f xs = Some ys \<Longrightarrow> set ys \<subseteq> insert f (set xs)"
  by (induction xs arbitrary: ys) (fastforce split: if_splits)+

text \<open>
  The two list mutations as the packages write them: refuse a taken key and append; drop every entry
  with the key, and refuse when there was none.
\<close>

definition insert_entry :: "('e \<Rightarrow> 'k) \<Rightarrow> 'e \<Rightarrow> 'e list \<Rightarrow> 'e list option" where
  "insert_entry key e xs = (if key_taken key (key e) xs then None else Some (xs @ [e]))"

definition remove_entry :: "('e \<Rightarrow> 'k) \<Rightarrow> 'k \<Rightarrow> 'e list \<Rightarrow> 'e list option" where
  "remove_entry key k xs = (let (found, kept) = drop_key key k xs in if found then Some kept else None)"

text \<open>
  The contract of a keyed collection, by its lookups: what an insertion, a replacement and a deletion
  leave, and that an insertion under a taken key and the other two under a free one are refused.
\<close>

locale keyed_entries =
  fixes key :: "'e \<Rightarrow> 'k"
    and add :: "'e \<Rightarrow> 'e list \<Rightarrow> 'e list option"
    and del :: "'k \<Rightarrow> 'e list \<Rightarrow> 'e list option"
  assumes add_taken: "key e \<in> key ` set xs \<Longrightarrow> add e xs = None"
    and add_free: "key e \<notin> key ` set xs \<Longrightarrow> add e xs = Some (xs @ [e])"
    and del_free: "k \<notin> key ` set xs \<Longrightarrow> del k xs = None"
    and del_taken: "k \<in> key ` set xs \<Longrightarrow> del k xs = Some (filter (\<lambda>e. key e \<noteq> k) xs)"
begin

lemma add_Some_iff: "add e xs = Some ys \<longleftrightarrow> key e \<notin> key ` set xs \<and> ys = xs @ [e]"
  by (cases "key e \<in> key ` set xs") (auto simp: add_taken add_free)

lemma del_Some_iff:
  "del k xs = Some ys \<longleftrightarrow> k \<in> key ` set xs \<and> ys = filter (\<lambda>e. key e \<noteq> k) xs"
  by (cases "k \<in> key ` set xs") (auto simp: del_taken del_free)

lemma add_unique: "add e xs = Some ys \<Longrightarrow> unique_keys key xs \<Longrightarrow> unique_keys key ys"
  by (auto simp: add_Some_iff unique_keys_def)

lemma del_unique: "del k xs = Some ys \<Longrightarrow> unique_keys key xs \<Longrightarrow> unique_keys key ys"
  by (auto simp: del_Some_iff unique_keys_def distinct_map_filter)

lemma lookup_add:
  "add e xs = Some ys \<Longrightarrow>
     lookup_key key j ys = (if j = key e then Some e else lookup_key key j xs)"
  by (auto simp: add_Some_iff lookup_key_append lookup_key_None_iff [THEN iffD2] split: option.splits)

lemma lookup_del:
  "del k xs = Some ys \<Longrightarrow> lookup_key key j ys = (if j = k then None else lookup_key key j xs)"
  by (simp add: del_Some_iff lookup_key_filter)

lemma del_add: "add e xs = Some ys \<Longrightarrow> del (key e) ys = Some xs"
proof -
  assume "add e xs = Some ys"
  then have f: "key e \<notin> key ` set xs" and ys: "ys = xs @ [e]" by (auto simp: add_Some_iff)
  have "filter (\<lambda>x. key x \<noteq> key e) xs = xs" using f by (intro filter_True) (auto simp: image_iff)
  then show ?thesis by (simp add: del_Some_iff ys)
qed

end

lemma keyed_entries_list: "keyed_entries key (insert_entry key) (remove_entry key)"
  by unfold_locales (auto simp: insert_entry_def remove_entry_def drop_key_eq)

locale updatable_entries = keyed_entries +
  fixes upd :: "'b \<Rightarrow> 'a \<Rightarrow> 'a list \<Rightarrow> 'a list option"
  assumes upd_free: "k \<notin> key ` set xs \<Longrightarrow> upd k f xs = None"
    and upd_keys: "upd k f xs = Some ys \<Longrightarrow> key f = k \<Longrightarrow> map key ys = map key xs"
    and upd_lookup: "upd k f xs = Some ys \<Longrightarrow> key f = k \<Longrightarrow>
      lookup_key key j ys = (if j = k then Some f else lookup_key key j xs)"
begin

lemma upd_unique:
  "upd k f xs = Some ys \<Longrightarrow> key f = k \<Longrightarrow> unique_keys key xs \<Longrightarrow> unique_keys key ys"
  by (simp add: unique_keys_def upd_keys)

end

lemma updatable_entries_list:
  "updatable_entries key (insert_entry key) (remove_entry key) (replace_key key)"
  by (intro updatable_entries.intro updatable_entries_axioms.intro keyed_entries_list)
    (auto simp: replace_key_None_iff replace_key_keys replace_key_lookup)

section \<open>Documents in files\<close>

record ('c, 'b) codec =
  marshal :: "'c \<Rightarrow> 'b option"
  unmarshal :: "'b \<Rightarrow> 'c option"

datatype store_error = StoreIO io_error | Corrupt | MarshalFailed

definition load_doc :: "('c, 'b) codec \<Rightarrow> 'c \<Rightarrow> string \<Rightarrow> 'b os \<Rightarrow> 'b fs \<Rightarrow> store_error + 'c" where
  "load_doc cd zero p os fs =
     (case read_file os fs p of
        NoSuchFile \<Rightarrow> Inr zero
      | ReadFailed e \<Rightarrow> Inl (StoreIO e)
      | ReadOK b \<Rightarrow> (case unmarshal cd b of None \<Rightarrow> Inl Corrupt | Some c \<Rightarrow> Inr c))"

definition save_doc ::
    "('c, 'b) codec \<Rightarrow> nat \<Rightarrow> string \<Rightarrow> 'b os \<Rightarrow> 'c \<Rightarrow> 'b fs \<Rightarrow> (store_error + unit) \<times> 'b fs" where
  "save_doc cd m p os c fs =
     (case marshal cd c of
        None \<Rightarrow> (Inl MarshalFailed, fs)
      | Some b \<Rightarrow> (case atomic_write os p b m fs of (r, fs') \<Rightarrow> (map_error StoreIO r, fs')))"

text \<open>
  \<open>mu.Lock(); cfg, err := load(path); ...; save(path, cfg)\<close>: the body of every mutation, with the
  change (which may refuse) as an argument.
\<close>

definition modify_doc ::
    "('s \<Rightarrow> 'e + 'c) \<Rightarrow> ('c \<Rightarrow> 's \<Rightarrow> ('e + unit) \<times> 's) \<Rightarrow> ('c \<Rightarrow> 'e + 'c \<times> 'r) \<Rightarrow> 's \<Rightarrow> ('e + 'r) \<times> 's" where
  "modify_doc load save change s =
     (case load s of
        Inl e \<Rightarrow> (Inl e, s)
      | Inr c \<Rightarrow>
          (case change c of
             Inl e \<Rightarrow> (Inl e, s)
           | Inr (c', r) \<Rightarrow>
               (case save c' s of
                  (Inl e, s') \<Rightarrow> (Inl e, s')
                | (Inr _, s') \<Rightarrow> (Inr r, s'))))"

lemma modify_doc_ok_iff:
  "modify_doc load save change s = (Inr r, s') \<longleftrightarrow>
     (\<exists>c c'. load s = Inr c \<and> change c = Inr (c', r) \<and> save c' s = (Inr (), s'))"
  by (auto simp: modify_doc_def split: sum.splits prod.splits)

lemma modify_doc_err_cases:
  assumes "modify_doc load save change s = (Inl e, s')"
  obtains "load s = Inl e" "s' = s"
  | c where "load s = Inr c" "change c = Inl e" "s' = s"
  | c c' r where "load s = Inr c" "change c = Inr (c', r)" "save c' s = (Inl e, s')"
  using assms by (auto simp: modify_doc_def split: sum.splits prod.splits)

text \<open>A mutation whose input is checked before the lock is taken.\<close>

definition checked_modify ::
    "'e + unit \<Rightarrow> ('s \<Rightarrow> 'e + 'c) \<Rightarrow> ('c \<Rightarrow> 's \<Rightarrow> ('e + unit) \<times> 's) \<Rightarrow> ('c \<Rightarrow> 'e + 'c \<times> 'r) \<Rightarrow>
       's \<Rightarrow> ('e + 'r) \<times> 's" where
  "checked_modify check load save change s =
     (case check of Inl e \<Rightarrow> (Inl e, s) | Inr _ \<Rightarrow> modify_doc load save change s)"

lemma modify_is_checked: "modify_doc load save change s = checked_modify (Inr ()) load save change s"
  by (simp add: checked_modify_def)

text \<open>
  The codec round trip the packages rely on: what is written is read back, with a \<open>nil\<close> slice read
  back as the empty one (\<open>norm\<close>).
\<close>

definition codec_ok :: "('c, 'b) codec \<Rightarrow> ('c \<Rightarrow> 'c) \<Rightarrow> bool" where
  "codec_ok cd norm \<longleftrightarrow> (\<forall>c b. marshal cd c = Some b \<longrightarrow> unmarshal cd b = Some (norm c))"

definition plain_codec :: "('c \<Rightarrow> 'c) \<Rightarrow> ('c, 'c) codec" where
  "plain_codec norm = \<lparr>marshal = Some, unmarshal = (\<lambda>b. Some (norm b))\<rparr>"

lemma codec_ok_plain [simp]: "codec_ok (plain_codec norm) norm"
  by (simp add: codec_ok_def plain_codec_def)

text \<open>The document a file system holds, read without a fault.\<close>

definition stored_doc :: "('c, 'b) codec \<Rightarrow> 'c \<Rightarrow> string \<Rightarrow> 'b fs \<Rightarrow> 'c option" where
  "stored_doc cd zero p fs = (case fs p of None \<Rightarrow> Some zero | Some f \<Rightarrow> unmarshal cd (contents f))"

locale config_store =
  fixes load :: "'s \<Rightarrow> 'e + 'c"
    and save :: "'c \<Rightarrow> 's \<Rightarrow> ('e + unit) \<times> 's"
    and stored :: "'s \<Rightarrow> 'c option"
    and reread :: "'c \<Rightarrow> 'c option"
  assumes load_stored: "load s = Inr c \<Longrightarrow> stored s = Some c"
    and save_ok: "save c s = (Inr u, s') \<Longrightarrow> stored s' = reread c"
    and save_failed: "save c s = (Inl e, s') \<Longrightarrow> stored s' = stored s"
begin

text \<open>A mutation that fails, wherever it fails, leaves the stored document as it was.\<close>

lemma modify_failed: "modify_doc load save change s = (Inl e, s') \<Longrightarrow> stored s' = stored s"
  by (erule modify_doc_err_cases) (simp_all add: save_failed)

lemma modify_ok:
  assumes "modify_doc load save change s = (Inr r, s')"
  shows "\<exists>c c'. stored s = Some c \<and> change c = Inr (c', r) \<and> stored s' = reread c'"
  using assms unfolding modify_doc_ok_iff by (blast intro: save_ok load_stored)

text \<open>An invariant of the document that the change keeps holds after the mutation.\<close>

lemma modify_invariant:
  assumes "modify_doc load save change s = (x, s')"
    and "\<And>c. stored s = Some c \<Longrightarrow> I c"
    and "\<And>c c' r d. I c \<Longrightarrow> change c = Inr (c', r) \<Longrightarrow> reread c' = Some d \<Longrightarrow> I d"
    and "stored s' = Some d"
  shows "I d"
proof (cases x)
  case (Inl e)
  with assms(1) have "modify_doc load save change s = (Inl e, s')" by simp
  then have "stored s' = stored s" by (rule modify_failed)
  with assms(4) have "stored s = Some d" by simp
  then show ?thesis by (rule assms(2))
next
  case (Inr r)
  with assms(1) have "modify_doc load save change s = (Inr r, s')" by simp
  from modify_ok [OF this]
  obtain c c' where c: "stored s = Some c" "change c = Inr (c', r)" "stored s' = reread c'"
    by (elim exE conjE) (rule that)
  have "reread c' = Some d" using c(3) assms(4) by simp
  then show ?thesis by (rule assms(3) [OF assms(2) [OF c(1)] c(2)])
qed

lemma checked_failed: "checked_modify check load save change s = (Inl e, s') \<Longrightarrow> stored s' = stored s"
  by (auto simp: checked_modify_def dest: modify_failed split: sum.splits)

lemma checked_ok:
  assumes "checked_modify check load save change s = (Inr r, s')"
  shows "check = Inr () \<and> (\<exists>c c'. stored s = Some c \<and> change c = Inr (c', r) \<and> stored s' = reread c')"
  using assms modify_ok by (auto simp: checked_modify_def split: sum.splits)

lemma checked_invariant:
  assumes "checked_modify check load save change s = (x, s')"
    and "\<And>c. stored s = Some c \<Longrightarrow> I c"
    and "\<And>c c' r d. check = Inr () \<Longrightarrow> I c \<Longrightarrow> change c = Inr (c', r) \<Longrightarrow> reread c' = Some d \<Longrightarrow> I d"
    and "stored s' = Some d"
  shows "I d"
proof (cases check)
  case (Inl e)
  then show ?thesis using assms by (simp add: checked_modify_def)
next
  case (Inr u)
  then have "modify_doc load save change s = (x, s')" using assms(1) by (simp add: checked_modify_def)
  then show ?thesis by (rule modify_invariant [OF _ assms(2) _ assms(4)]) (use assms(3) Inr in auto)
qed

end

text \<open>
  Every document kept by \<open>load_doc\<close> and \<open>save_doc\<close> meets the contract, with \<open>reread\<close> what decoding the
  encoded document gives and any tag \<open>f\<close> on the errors.
\<close>

definition reread_doc :: "('c, 'b) codec \<Rightarrow> 'c \<Rightarrow> 'c option" where
  "reread_doc cd c = (case marshal cd c of None \<Rightarrow> None | Some b \<Rightarrow> unmarshal cd b)"

lemma load_doc_stored: "load_doc cd zero p os fs = Inr c \<Longrightarrow> stored_doc cd zero p fs = Some c"
  by (auto simp: load_doc_def read_file_def stored_doc_def split: option.splits if_splits)

lemma save_doc_ok:
  "save_doc cd m p os c fs = (Inr u, fs') \<Longrightarrow> stored_doc cd zero p fs' = reread_doc cd c"
  by (auto simp: save_doc_def stored_doc_def reread_doc_def res_simps dest!: atomic_write_ok
      split: option.splits prod.splits)

lemma save_doc_failed:
  "save_doc cd m p os c fs = (Inl e, fs') \<Longrightarrow> stored_doc cd zero p fs' = stored_doc cd zero p fs"
  by (auto simp: save_doc_def stored_doc_def res_simps dest!: atomic_write_err [where q = p]
      split: option.splits prod.splits)

lemma config_store_doc:
  "config_store (\<lambda>fs. map_error f (load_doc cd zero p os fs))
     (\<lambda>c fs. apfst (map_error f) (save_doc cd m p os c fs)) (stored_doc cd zero p) (reread_doc cd)"
  by unfold_locales
    (auto simp: res_simps apfst_def map_prod_def split: prod.splits
      intro: load_doc_stored save_doc_ok save_doc_failed)

lemma reread_codec_ok: "codec_ok cd norm \<Longrightarrow> reread_doc cd c = Some d \<Longrightarrow> d = norm c"
  by (auto simp: reread_doc_def codec_ok_def split: option.splits)

lemma reread_plain [simp]: "reread_doc (plain_codec norm) c = Some (norm c)"
  by (simp add: reread_doc_def plain_codec_def)

lemma load_doc_quiet:
  "load_doc cd zero p quiet_os fs =
     (case stored_doc cd zero p fs of None \<Rightarrow> Inl Corrupt | Some c \<Rightarrow> Inr c)"
  by (auto simp: load_doc_def read_file_def stored_doc_def split: option.splits)

lemma checked_modify_quiet:
  assumes "stored_doc (plain_codec norm) zero p fs = Some c" "change c = Inr (c', r)"
  obtains fs' where "checked_modify (Inr ()) (\<lambda>fs. map_error f (load_doc (plain_codec norm) zero p quiet_os fs))
      (\<lambda>c fs. apfst (map_error f) (save_doc (plain_codec norm) m p quiet_os c fs)) change fs = (Inr r, fs')"
    "stored_doc (plain_codec norm) zero p fs' = Some (norm c')"
  using assms
  by (auto simp: checked_modify_def modify_doc_def load_doc_quiet save_doc_def atomic_write_quiet
      stored_doc_def plain_codec_def)

text \<open>
  A codec of line pairs, for concrete runs with documents that are lists of two strings each: a value is
  written as its pairs, line after line, and refused when a line break is inside.
\<close>

fun pair_up :: "string list \<Rightarrow> (string \<times> string) list option" where
  "pair_up [] = Some []"
| "pair_up [_] = None"
| "pair_up (a # b # ls) = map_option ((#) (a, b)) (pair_up ls)"

definition pair_lines :: "(string \<times> string) list \<Rightarrow> string list" where
  "pair_lines ps = concat (map (\<lambda>(a, b). [a, b]) ps)"

definition pairs_codec :: "('c \<Rightarrow> (string \<times> string) list) \<Rightarrow> ((string \<times> string) list \<Rightarrow> 'c) \<Rightarrow> ('c, string) codec" where
  "pairs_codec enc dec =
     \<lparr>marshal = (\<lambda>c. if \<forall>l \<in> set (pair_lines (enc c)). NL \<notin> set l then Some (text_of (pair_lines (enc c))) else None),
      unmarshal = (\<lambda>s. map_option dec (pair_up (butlast (split_on NL s))))\<rparr>"

lemma pair_up_lines: "pair_up (pair_lines ps) = Some ps"
  by (induction ps) (auto simp: pair_lines_def)

lemma pairs_codec_unmarshal:
  "\<forall>l \<in> set (pair_lines ps). NL \<notin> set l \<Longrightarrow> unmarshal (pairs_codec enc dec) (text_of (pair_lines ps)) = Some (dec ps)"
  by (simp add: pairs_codec_def split_text_of pair_up_lines)

lemma codec_ok_pairs: "(\<And>c. dec (enc c) = norm c) \<Longrightarrow> codec_ok (pairs_codec enc dec) norm"
  by (auto simp: codec_ok_def pairs_codec_def split_text_of pair_up_lines split: if_splits)

end
