(* ===== verification/Netgate.thy ===== *)
theory Netgate
  imports Target_Guard Config_Store
begin

text \<open>
  \<open>internal/netgate\<close>: the live copy of the egress allow/block list, the inbound port forwards and the
  bandwidth limits, and the backstop that keeps an accepted list from opening the private ranges.
  The operations run under the package mutex, so each is one transition of the file system.
\<close>

section \<open>Data\<close>

record outbound_rule =
  action :: string
  cidr :: string

record forward =
  host_port :: int
  target_host :: string
  target_port :: int

record service_limit =
  limit_host :: string
  limit_mbps :: int

record bandwidth =
  total_mbps :: int
  services :: "service_limit slice"

record netgate_config =
  outbound :: "outbound_rule slice"
  forwards :: "forward slice"
  band :: bandwidth

definition empty_config :: netgate_config where
  "empty_config =
     \<lparr>outbound = None, forwards = None, band = \<lparr>total_mbps = 0, services = None\<rparr>\<rparr>"

text \<open>The arguments of every message that wraps \<open>ErrValidation\<close>.\<close>

datatype invalid_input =
    BadHost string
  | CIDRRequired string
  | BadCIDR string string
  | BadPort string
  | OpensRange string ipnet
  | MustStayBlocked ipnet
  | AlwaysBlocked string ipnet
  | NegativeTotal
  | LimitTooSmall
  | DuplicateHost string
  | ForwardRefused guard_error

datatype netgate_error =
    ErrInvalidAction
  | ErrForwardExists
  | ErrForwardNotFound
  | ErrValidation invalid_input
  | StoreError store_error

type_synonym 'a checked = "netgate_error + 'a"

section \<open>Validation\<close>

definition validate_fwd_host :: "string \<Rightarrow> string \<Rightarrow> unit checked" where
  "validate_fwd_host field host =
     (if host = [] \<or> \<not> rx_match plain_host_re host then Inl (ErrValidation (BadHost field))
      else Inr ())"

definition validate_cidr :: "string \<Rightarrow> string \<Rightarrow> unit checked" where
  "validate_cidr field c =
     (if c = [] then Inl (ErrValidation (CIDRRequired field))
      else if parse_cidr c \<noteq> None then Inr ()
      else if parse_ip c \<noteq> None then Inr ()
      else Inl (ErrValidation (BadCIDR field c)))"

definition validate_port :: "string \<Rightarrow> int \<Rightarrow> unit checked" where
  "validate_port field port =
     (if port < 1 \<or> port > 65535 then Inl (ErrValidation (BadPort field)) else Inr ())"

section \<open>The IPv4 backstop\<close>

text \<open>\<open>mustParseCIDRs\<close>; \<open>None\<close> is the panic.\<close>

fun must_parse_cidrs :: "string list \<Rightarrow> ipnet list option" where
  "must_parse_cidrs [] = Some []"
| "must_parse_cidrs (c # cs) =
     (case parse_cidr c of
        None \<Rightarrow> None
      | Some n \<Rightarrow> map_option ((#) n) (must_parse_cidrs cs))"

definition private_v4 :: "ipnet list" where
  "private_v4 =
     (case must_parse_cidrs [''10.0.0.0/8'', ''172.16.0.0/12'', ''192.168.0.0/16''] of
        None \<Rightarrow> [] | Some ns \<Rightarrow> ns)"

definition fixed_block_v4 :: "ipnet list" where
  "fixed_block_v4 =
     (case must_parse_cidrs [''127.0.0.0/8'', ''169.254.0.0/16'', ''0.0.0.0/8''] of
        None \<Rightarrow> [] | Some ns \<Rightarrow> ns)"

definition rule_net :: "string \<Rightarrow> ipnet option" where
  "rule_net c =
     (case parse_cidr c of
        Some n \<Rightarrow> if to4 (net_base n) \<noteq> None then Some n else None
      | None \<Rightarrow>
          (case parse_ip c of
             None \<Rightarrow> None
           | Some a \<Rightarrow> (case to4 a of None \<Rightarrow> None | Some v \<Rightarrow> Some (Net4 v 32))))"

definition covers :: "ipnet \<Rightarrow> ipnet \<Rightarrow> bool" where
  "covers outer inner \<longleftrightarrow> net_ones outer \<le> net_ones inner \<and> net_contains outer (net_base inner)"

definition overlaps :: "ipnet \<Rightarrow> ipnet \<Rightarrow> bool" where
  "overlaps a b \<longleftrightarrow> net_contains a (net_base b) \<or> net_contains b (net_base a)"

text \<open>The inner loop over the rules for one private range; the result is \<open>blocked\<close>.\<close>

fun scan_private :: "ipnet \<Rightarrow> bool \<Rightarrow> outbound_rule list \<Rightarrow> bool checked" where
  "scan_private priv blocked [] = Inr blocked"
| "scan_private priv blocked (r # rs) =
     (case rule_net (cidr r) of
        None \<Rightarrow> scan_private priv blocked rs
      | Some n \<Rightarrow>
          if \<not> covers n priv then scan_private priv blocked rs
          else if action r = ''allow'' then Inl (ErrValidation (OpensRange (cidr r) priv))
          else scan_private priv True rs)"

definition check_private :: "outbound_rule list \<Rightarrow> ipnet \<Rightarrow> unit checked" where
  "check_private rules priv =
     res_bind (scan_private priv False rules)
       (\<lambda>blocked. ensure blocked (ErrValidation (MustStayBlocked priv)))"

definition check_fixed :: "outbound_rule \<Rightarrow> unit checked" where
  "check_fixed r =
     (case rule_net (cidr r) of
        None \<Rightarrow> Inr ()
      | Some n \<Rightarrow>
          if action r \<noteq> ''allow'' then Inr ()
          else each (\<lambda>fixed. ensure (\<not> overlaps n fixed) (ErrValidation (AlwaysBlocked (cidr r) fixed)))
                 fixed_block_v4)"

definition check_v4_backstop :: "outbound_rule list \<Rightarrow> unit checked" where
  "check_v4_backstop rules =
     res_bind (each (check_private rules) private_v4) (\<lambda>_. each check_fixed rules)"

definition check_rule :: "outbound_rule \<Rightarrow> unit checked" where
  "check_rule r =
     (if action r \<noteq> ''allow'' \<and> action r \<noteq> ''block'' then Inl ErrInvalidAction
      else validate_cidr ''cidr'' (cidr r))"

definition check_outbound :: "outbound_rule list \<Rightarrow> unit checked" where
  "check_outbound rules = res_bind (each check_rule rules) (\<lambda>_. check_v4_backstop rules)"

section \<open>The live file\<close>

definition live_config_path :: string where
  "live_config_path = ''/var/lib/code-docker-router/netgate/config.yaml''"

definition default_config_path :: string where
  "default_config_path = ''/etc/router/netgate/config.default.yaml''"

definition override_config_path :: string where
  "override_config_path = ''/etc/router/netgate/config.override.yaml''"

type_synonym 'b ng_codec = "(netgate_config, 'b) codec"

definition netgate_load :: "'b ng_codec \<Rightarrow> 'b os \<Rightarrow> string \<Rightarrow> 'b fs \<Rightarrow> netgate_config checked" where
  "netgate_load cd os path fs = map_error StoreError (load_doc cd empty_config path os fs)"

definition netgate_save ::
    "'b ng_codec \<Rightarrow> 'b os \<Rightarrow> string \<Rightarrow> netgate_config \<Rightarrow> 'b fs \<Rightarrow> unit checked \<times> 'b fs" where
  "netgate_save cd os path cfg fs = apfst (map_error StoreError) (save_doc cd 0x1A4 path os cfg fs)"

text \<open>
  \<open>EnsureSeeded\<close>: \<open>os.Stat\<close> tells a present file, a missing one and any other failure apart; the copy
  itself is a plain \<open>os.WriteFile\<close>.
\<close>

definition ensure_seeded :: "'b os \<Rightarrow> 'b act" where
  "ensure_seeded os fs =
     (if stat_ok os fs live_config_path then (Inr (), fs)
      else if fails os (Stat live_config_path) then (Inl (IOError (Stat live_config_path)), fs)
      else
        let src = (if stat_ok os fs override_config_path then override_config_path
                   else default_config_path)
        in case read_file os fs src of
             NoSuchFile \<Rightarrow> (Inl (IOError (ReadFile src)), fs)
           | ReadFailed e \<Rightarrow> (Inl e, fs)
           | ReadOK data \<Rightarrow>
               run_acts [mkdir_all os (path_dir live_config_path),
                         write_file os live_config_path data 0x1A4] fs)"

section \<open>Operations\<close>

definition list_outbound ::
    "'b ng_codec \<Rightarrow> 'b os \<Rightarrow> string \<Rightarrow> 'b fs \<Rightarrow> outbound_rule slice checked" where
  "list_outbound cd os path fs =
     res_bind (netgate_load cd os path fs) (\<lambda>cfg. Inr (non_nil (outbound cfg)))"

definition set_outbound ::
    "outbound_rule slice \<Rightarrow> netgate_config \<Rightarrow> (netgate_config \<times> outbound_rule slice) checked" where
  "set_outbound rules cfg = Inr (cfg\<lparr>outbound := rules\<rparr>, non_nil rules)"

definition replace_outbound ::
    "'b ng_codec \<Rightarrow> 'b os \<Rightarrow> string \<Rightarrow> outbound_rule slice \<Rightarrow> 'b fs \<Rightarrow>
       outbound_rule slice checked \<times> 'b fs" where
  "replace_outbound cd os path rules fs =
     (case check_outbound (elems rules) of
        Inl e \<Rightarrow> (Inl e, fs)
      | Inr _ \<Rightarrow> modify_doc (netgate_load cd os path) (netgate_save cd os path) (set_outbound rules) fs)"

definition list_forwards :: "'b ng_codec \<Rightarrow> 'b os \<Rightarrow> string \<Rightarrow> 'b fs \<Rightarrow> forward slice checked" where
  "list_forwards cd os path fs =
     res_bind (netgate_load cd os path fs) (\<lambda>cfg. Inr (non_nil (forwards cfg)))"

definition forward_allowed_hosts :: "env \<Rightarrow> string set" where
  "forward_allowed_hosts env = default_allowed_hosts env"

definition check_forward :: "env \<Rightarrow> forward \<Rightarrow> unit checked" where
  "check_forward env f =
     res_bind (validate_port ''hostPort'' (host_port f)) (\<lambda>_.
     res_bind (validate_fwd_host ''targetHost'' (target_host f)) (\<lambda>_.
     res_bind (validate_port ''targetPort'' (target_port f)) (\<lambda>_.
     map_error (\<lambda>e. ErrValidation (ForwardRefused e))
       (validate_host env (target_host f) (itoa (target_port f)) (forward_allowed_hosts env) [] ''port forward''))))"

definition put_forward :: "forward \<Rightarrow> netgate_config \<Rightarrow> (netgate_config \<times> forward) checked" where
  "put_forward f cfg =
     (case insert_entry host_port f (elems (forwards cfg)) of
        None \<Rightarrow> Inl ErrForwardExists
      | Some fs \<Rightarrow> Inr (cfg\<lparr>forwards := Some fs\<rparr>, f))"

definition add_forward ::
    "env \<Rightarrow> 'b ng_codec \<Rightarrow> 'b os \<Rightarrow> string \<Rightarrow> forward \<Rightarrow> 'b fs \<Rightarrow> forward checked \<times> 'b fs" where
  "add_forward env cd os path f fs =
     (case check_forward env f of
        Inl e \<Rightarrow> (Inl e, fs)
      | Inr _ \<Rightarrow> modify_doc (netgate_load cd os path) (netgate_save cd os path) (put_forward f) fs)"

definition drop_forward :: "int \<Rightarrow> netgate_config \<Rightarrow> (netgate_config \<times> unit) checked" where
  "drop_forward p cfg =
     (case remove_entry host_port p (elems (forwards cfg)) of
        None \<Rightarrow> Inl ErrForwardNotFound
      | Some fs \<Rightarrow> Inr (cfg\<lparr>forwards := Some fs\<rparr>, ()))"

definition delete_forward ::
    "'b ng_codec \<Rightarrow> 'b os \<Rightarrow> string \<Rightarrow> int \<Rightarrow> 'b fs \<Rightarrow> unit checked \<times> 'b fs" where
  "delete_forward cd os path p fs =
     modify_doc (netgate_load cd os path) (netgate_save cd os path) (drop_forward p) fs"

definition with_services :: "bandwidth \<Rightarrow> bandwidth" where
  "with_services bw = bw\<lparr>services := non_nil (services bw)\<rparr>"

definition get_bandwidth :: "'b ng_codec \<Rightarrow> 'b os \<Rightarrow> string \<Rightarrow> 'b fs \<Rightarrow> bandwidth checked" where
  "get_bandwidth cd os path fs =
     res_bind (netgate_load cd os path fs) (\<lambda>cfg. Inr (with_services (band cfg)))"

fun check_services :: "string set \<Rightarrow> service_limit list \<Rightarrow> unit checked" where
  "check_services seen [] = Inr ()"
| "check_services seen (s # ss) =
     res_bind (validate_fwd_host ''targetHost'' (limit_host s)) (\<lambda>_.
     if limit_mbps s < 1 then Inl (ErrValidation LimitTooSmall)
     else if limit_host s \<in> seen then Inl (ErrValidation (DuplicateHost (limit_host s)))
     else check_services (insert (limit_host s) seen) ss)"

definition check_bandwidth :: "bandwidth \<Rightarrow> unit checked" where
  "check_bandwidth bw =
     (if total_mbps bw < 0 then Inl (ErrValidation NegativeTotal)
      else check_services {} (elems (services bw)))"

definition put_bandwidth :: "bandwidth \<Rightarrow> netgate_config \<Rightarrow> (netgate_config \<times> bandwidth) checked" where
  "put_bandwidth bw cfg = Inr (cfg\<lparr>band := bw\<rparr>, with_services bw)"

definition set_bandwidth ::
    "'b ng_codec \<Rightarrow> 'b os \<Rightarrow> string \<Rightarrow> bandwidth \<Rightarrow> 'b fs \<Rightarrow> bandwidth checked \<times> 'b fs" where
  "set_bandwidth cd os path bw fs =
     (case check_bandwidth bw of
        Inl e \<Rightarrow> (Inl e, fs)
      | Inr _ \<Rightarrow> modify_doc (netgate_load cd os path) (netgate_save cd os path) (put_bandwidth bw) fs)"

section \<open>What the backstop decides\<close>

lemma private_v4_eq: "private_v4 = [Net4 0x0A000000 8, Net4 0xAC100000 12, Net4 0xC0A80000 16]"
proof -
  have "must_parse_cidrs [''10.0.0.0/8'', ''172.16.0.0/12'', ''192.168.0.0/16''] =
      Some [Net4 0x0A000000 8, Net4 0xAC100000 12, Net4 0xC0A80000 16]" by code_simp
  then show ?thesis by (simp add: private_v4_def)
qed

lemma fixed_block_v4_eq: "fixed_block_v4 = [Net4 0x7F000000 8, Net4 0xA9FE0000 16, Net4 0 8]"
proof -
  have "must_parse_cidrs [''127.0.0.0/8'', ''169.254.0.0/16'', ''0.0.0.0/8''] =
      Some [Net4 0x7F000000 8, Net4 0xA9FE0000 16, Net4 0 8]" by code_simp
  then show ?thesis by (simp add: fixed_block_v4_def)
qed

lemma scan_private_ok:
  "scan_private priv blocked rules = Inr b \<longleftrightarrow>
     (\<forall>r \<in> set rules. \<forall>n. rule_net (cidr r) = Some n \<longrightarrow> covers n priv \<longrightarrow> action r \<noteq> ''allow'') \<and>
     (b \<longleftrightarrow> blocked \<or> (\<exists>r \<in> set rules. \<exists>n. rule_net (cidr r) = Some n \<and> covers n priv))"
  by (induction rules arbitrary: blocked) (auto split: option.splits)

lemma check_private_eq_Inr [res_simps]:
  "check_private rules priv = Inr u \<longleftrightarrow>
     (\<forall>r \<in> set rules. \<forall>n. rule_net (cidr r) = Some n \<longrightarrow> covers n priv \<longrightarrow> action r \<noteq> ''allow'') \<and>
     (\<exists>r \<in> set rules. \<exists>n. rule_net (cidr r) = Some n \<and> covers n priv)"
  by (auto simp: check_private_def res_simps scan_private_ok)

lemma check_fixed_eq_Inr [res_simps]:
  "check_fixed r = Inr u \<longleftrightarrow>
     (\<forall>n fixed. rule_net (cidr r) = Some n \<longrightarrow> action r = ''allow'' \<longrightarrow>
        fixed \<in> set fixed_block_v4 \<longrightarrow> \<not> overlaps n fixed)"
  by (auto simp: check_fixed_def res_simps split: option.splits)

lemma rule_net_wf: "rule_net c = Some n \<Longrightarrow> wf_net n"
  by (auto simp: rule_net_def cidr_mask_def dest: parse_cidr_wf split: option.splits if_splits)

lemma rule_net_view: "rule_net c = Some n \<Longrightarrow> \<exists>b m. v4_view n = Some (b, m)"
  by (cases n) (auto simp: rule_net_def split: option.splits if_splits)

text \<open>A mapped 16-byte network is never as wide as a private range.\<close>

lemma mapped_net_narrow:
  assumes "wf_net (Net6 b n)" "to4 b = Some v"
  shows "96 \<le> n"
proof (rule ccontr)
  assume "\<not> 96 \<le> n"
  have h: "drop_bit 32 b = 0xFFFF"
    using assms(2) unfolding to4_def by (rule contrapos_pp) simp
  have "bit (0xFFFF :: ip16) 0" by simp
  then have "bit (drop_bit 32 b) 0" by (simp only: h)
  then have "bit b (32 + 0)" by (simp only: bit_drop_bit_eq o_def)
  then have b: "bit b 32" by simp
  have m: "b AND cidr_mask n 128 = b" using assms(1) by simp
  from b have "bit (b AND cidr_mask n 128) 32" by (subst m)
  then have "bit (cidr_mask n 128 :: ip16) 32" unfolding bit_and_iff by (rule conjunct2)
  then show False using \<open>\<not> 96 \<le> n\<close> by (simp add: cidr_mask_def bit_simps)
qed

text \<open>\<open>covers\<close> is inclusion of IPv4 ranges, and \<open>overlaps\<close> is a common address.\<close>

lemma covers_Net4_iff:
  assumes "i \<le> 32" "j \<le> 32"
  shows "covers (Net4 b i) (Net4 c j) \<longleftrightarrow>
    (\<forall>v. net_contains (Net4 c j) (map4 v) \<longrightarrow> net_contains (Net4 b i) (map4 v))"
proof
  assume "covers (Net4 b i) (Net4 c j)"
  then have "i \<le> j" "same_prefix i b c" by (auto simp: covers_def net_contains_map4)
  then show "\<forall>v. net_contains (Net4 c j) (map4 v) \<longrightarrow> net_contains (Net4 b i) (map4 v)"
    by (auto simp: net_contains_map4 intro: same_prefix_trans same_prefix_mono)
next
  assume a: "\<forall>v. net_contains (Net4 c j) (map4 v) \<longrightarrow> net_contains (Net4 b i) (map4 v)"
  then have bc: "same_prefix i b c" using same_prefix_refl by (simp add: net_contains_map4)
  have "i \<le> j"
  proof (rule ccontr)
    assume "\<not> i \<le> j"
    define v where "v = c XOR push_bit (32 - i) 1"
    have "same_prefix j c v"
      using \<open>\<not> i \<le> j\<close> assms by (auto simp: same_prefix_iff v_def bit_simps)
    then have "same_prefix i b v" using a by (auto simp: net_contains_map4)
    then have "same_prefix i c v" by (rule same_prefix_trans [OF same_prefix_sym [OF bc]])
    moreover have "bit v (32 - i) \<noteq> bit c (32 - i)" "32 - i < 32"
      using \<open>\<not> i \<le> j\<close> assms by (auto simp: v_def bit_simps)
    ultimately show False by (auto simp: same_prefix_iff)
  qed
  with bc show "covers (Net4 b i) (Net4 c j)" by (auto simp: covers_def net_contains_map4)
qed

lemma overlaps_iff:
  assumes "v4_view m = Some (b, i)" "v4_view n = Some (c, j)"
  shows "overlaps m n \<longleftrightarrow> (\<exists>v. net_contains m (map4 v) \<and> net_contains n (map4 v))"
proof
  assume "overlaps m n"
  then show "\<exists>v. net_contains m (map4 v) \<and> net_contains n (map4 v)"
    using assms net_base_view [OF assms(1)] net_base_view [OF assms(2)]
    by (auto simp: overlaps_def net_contains_map4 intro: same_prefix_refl)
next
  assume "\<exists>v. net_contains m (map4 v) \<and> net_contains n (map4 v)"
  then show "overlaps m n" by (auto simp: overlaps_def dest: net_common_address)
qed

lemma private_wf: "P \<in> set private_v4 \<Longrightarrow> \<exists>c j. P = Net4 c j \<and> j \<le> 32"
  by (auto simp: private_v4_eq)

lemma fixed_wf: "F \<in> set fixed_block_v4 \<Longrightarrow> \<exists>c j. F = Net4 c j"
  by (auto simp: fixed_block_v4_eq)

text \<open>
  The packet filter's reading of the list: an entry without a colon is an IPv4 rule that matches the
  addresses of its network, and the first rule that matches decides.
\<close>

definition rule_matches :: "outbound_rule \<Rightarrow> ip4 \<Rightarrow> bool" where
  "rule_matches r v =
     (case rule_net (cidr r) of
        Some (Net4 b n) \<Rightarrow> net_contains (Net4 b n) (map4 v)
      | _ \<Rightarrow> False)"

definition first_match :: "outbound_rule list \<Rightarrow> ip4 \<Rightarrow> outbound_rule option" where
  "first_match rules v = find (\<lambda>r. rule_matches r v) rules"

lemma covers_private_iff:
  assumes "rule_net (cidr r) = Some n" and P: "P \<in> set private_v4"
  shows "covers n P \<longleftrightarrow> (\<forall>v. net_contains P (map4 v) \<longrightarrow> rule_matches r v)"
proof -
  obtain c j where Pj: "P = Net4 c j" "j \<le> 32" using private_wf [OF P] by blast
  show ?thesis
  proof (cases n)
    case (Net4 b i)
    then have "i \<le> 32" using rule_net_wf [OF assms(1)] by simp
    then show ?thesis
      using covers_Net4_iff [of i j b c] assms(1) Net4 Pj by (simp add: rule_matches_def)
  next
    case (Net6 b i)
    then obtain v where "to4 b = Some v"
      using rule_net_view [OF assms(1)] by (auto split: option.splits)
    then have "96 \<le> i" using rule_net_wf [OF assms(1)] Net6 mapped_net_narrow by blast
    then have "\<not> covers n P" using Net6 Pj by (simp add: covers_def)
    moreover have "net_contains P (map4 c)" "\<not> rule_matches r c"
      using Pj Net6 assms(1) by (auto simp: net_contains_map4 rule_matches_def)
    ultimately show ?thesis by blast
  qed
qed

lemma covers_private_ex:
  assumes "P \<in> set private_v4"
  shows "(\<exists>n. rule_net (cidr r) = Some n \<and> covers n P) \<longleftrightarrow>
    (\<forall>v. net_contains P (map4 v) \<longrightarrow> rule_matches r v)"
proof (cases "rule_net (cidr r)")
  case None
  obtain c j where "P = Net4 c j" using private_wf [OF assms] by blast
  then have "net_contains P (map4 c)" "\<not> rule_matches r c"
    using None by (auto simp: net_contains_map4 rule_matches_def)
  with None show ?thesis by auto
next
  case (Some n)
  then show ?thesis using covers_private_iff [OF Some assms] by simp
qed

lemma check_private_iff:
  assumes "P \<in> set private_v4"
  shows "check_private rules P = Inr u \<longleftrightarrow>
    (\<forall>r \<in> set rules. (\<forall>v. net_contains P (map4 v) \<longrightarrow> rule_matches r v) \<longrightarrow> action r \<noteq> ''allow'') \<and>
    (\<exists>r \<in> set rules. \<forall>v. net_contains P (map4 v) \<longrightarrow> rule_matches r v)"
  unfolding check_private_eq_Inr covers_private_ex [OF assms, symmetric] by blast

lemma check_fixed_iff:
  "check_fixed r = Inr u \<longleftrightarrow>
     (\<forall>n F v. rule_net (cidr r) = Some n \<longrightarrow> action r = ''allow'' \<longrightarrow> F \<in> set fixed_block_v4 \<longrightarrow>
        \<not> (net_contains n (map4 v) \<and> net_contains F (map4 v)))"
proof -
  have "overlaps n F \<longleftrightarrow> (\<exists>v. net_contains n (map4 v) \<and> net_contains F (map4 v))"
    if n: "rule_net (cidr r) = Some n" and F: "F \<in> set fixed_block_v4" for n F
  proof -
    obtain c j where "v4_view F = Some (c, j)" using fixed_wf [OF F] by auto
    moreover obtain b m where "v4_view n = Some (b, m)" using rule_net_view [OF n] by blast
    ultimately show ?thesis using overlaps_iff by blast
  qed
  then show ?thesis unfolding check_fixed_eq_Inr by blast
qed

lemma check_outbound_eq_Inr:
  "check_outbound rules = Inr u \<longleftrightarrow>
     (\<forall>r \<in> set rules. check_rule r = Inr ()) \<and>
     (\<forall>P \<in> set private_v4. check_private rules P = Inr ()) \<and>
     (\<forall>r \<in> set rules. check_fixed r = Inr ())"
  by (simp add: check_outbound_def check_v4_backstop_def res_simps)

lemma check_rule_action: "check_rule r = Inr u \<Longrightarrow> action r = ''allow'' \<or> action r = ''block''"
  by (auto simp: check_rule_def split: if_splits)

text \<open>The gap the check leaves: two half ranges together open all of \<open>10.0.0.0/8\<close>.\<close>

definition half_range_rules :: "outbound_rule list" where
  "half_range_rules =
     [\<lparr>action = ''allow'', cidr = ''10.0.0.0/9''\<rparr>, \<lparr>action = ''allow'', cidr = ''10.128.0.0/9''\<rparr>,
      \<lparr>action = ''block'', cidr = ''10.0.0.0/8''\<rparr>, \<lparr>action = ''block'', cidr = ''172.16.0.0/12''\<rparr>,
      \<lparr>action = ''block'', cidr = ''192.168.0.0/16''\<rparr>]"

lemma half_range_nets:
  "rule_net ''10.0.0.0/9'' = Some (Net4 0x0A000000 9)"
  "rule_net ''10.128.0.0/9'' = Some (Net4 0x0A800000 9)"
  "rule_net ''10.0.0.0/8'' = Some (Net4 0x0A000000 8)"
  "rule_net ''172.16.0.0/12'' = Some (Net4 0xAC100000 12)"
  "rule_net ''192.168.0.0/16'' = Some (Net4 0xC0A80000 16)"
  by code_simp+

lemma half_range_accepted: "check_outbound half_range_rules = Inr ()"
proof -
  have "each check_rule half_range_rules = Inr ()" by code_simp
  moreover have "each (check_private half_range_rules) private_v4 = Inr ()"
    by (simp add: half_range_rules_def private_v4_eq check_private_def half_range_nets covers_def
        net_contains_map4 same_prefix_def cidr_mask_def mask_eq_exp_minus_1)
  moreover have "each check_fixed half_range_rules = Inr ()"
    by (simp add: half_range_rules_def fixed_block_v4_eq check_fixed_def half_range_nets overlaps_def
        net_contains_map4 same_prefix_def cidr_mask_def mask_eq_exp_minus_1)
  ultimately show ?thesis by (simp add: check_outbound_def check_v4_backstop_def)
qed

text \<open>
  C40.  The backstop accepts exactly the lists in which each private range lies inside one rule, no
  allow rule holds a whole private range, and no allow rule has an address in common with a range that
  is always dropped.
\<close>

theorem backstop_iff:
  "check_v4_backstop rules = Inr () \<longleftrightarrow>
     (\<forall>P \<in> set private_v4.
        (\<exists>r \<in> set rules. \<forall>v. net_contains P (map4 v) \<longrightarrow> rule_matches r v) \<and>
        (\<forall>r \<in> set rules. action r = ''allow'' \<longrightarrow>
           (\<exists>v. net_contains P (map4 v) \<and> \<not> rule_matches r v))) \<and>
     (\<forall>r \<in> set rules. \<forall>n F v.
        action r = ''allow'' \<longrightarrow> rule_net (cidr r) = Some n \<longrightarrow> F \<in> set fixed_block_v4 \<longrightarrow>
        net_contains F (map4 v) \<longrightarrow> \<not> net_contains n (map4 v))"
proof -
  have "(\<forall>r \<in> set rules. check_fixed r = Inr ()) \<longleftrightarrow>
     (\<forall>r \<in> set rules. \<forall>n F v.
        action r = ''allow'' \<longrightarrow> rule_net (cidr r) = Some n \<longrightarrow> F \<in> set fixed_block_v4 \<longrightarrow>
        net_contains F (map4 v) \<longrightarrow> \<not> net_contains n (map4 v))"
    unfolding check_fixed_iff by blast
  moreover have "(\<forall>P \<in> set private_v4. check_private rules P = Inr ()) \<longleftrightarrow>
     (\<forall>P \<in> set private_v4.
        (\<exists>r \<in> set rules. \<forall>v. net_contains P (map4 v) \<longrightarrow> rule_matches r v) \<and>
        (\<forall>r \<in> set rules. action r = ''allow'' \<longrightarrow>
           (\<exists>v. net_contains P (map4 v) \<and> \<not> rule_matches r v)))"
    by (rule ball_cong [OF refl]) (subst check_private_iff, assumption, blast)
  ultimately show ?thesis by (simp add: check_v4_backstop_def res_simps)
qed

text \<open>
  C5.  Under an accepted list every private address meets a rule, and the first rule it meets
  blocks it unless it is an allow rule narrower than the private range.
\<close>

theorem outbound_private_verdict:
  assumes ok: "check_outbound rules = Inr ()"
    and P: "P \<in> set private_v4" and v: "net_contains P (map4 v)"
  shows "\<exists>r. first_match rules v = Some r \<and>
    (action r = ''block'' \<or>
     action r = ''allow'' \<and> (\<exists>w. net_contains P (map4 w) \<and> \<not> rule_matches r w))"
proof -
  have c: "check_private rules P = Inr ()" using ok P by (simp add: check_outbound_eq_Inr)
  then have "\<exists>r \<in> set rules. rule_matches r v" using v unfolding check_private_iff [OF P] by blast
  then obtain r where r: "first_match rules v = Some r"
    unfolding first_match_def by (metis find_None_iff not_None_eq)
  then have "r \<in> set rules" by (auto simp: first_match_def find_Some_iff)
  then have "action r = ''allow'' \<or> action r = ''block''"
    using ok check_rule_action by (auto simp: check_outbound_eq_Inr)
  moreover have "action r = ''allow'' \<Longrightarrow> \<exists>w. net_contains P (map4 w) \<and> \<not> rule_matches r w"
    using c \<open>r \<in> set rules\<close> unfolding check_private_iff [OF P] by blast
  ultimately show ?thesis using r by blast
qed

theorem outbound_private_verdict_witness:
  "\<exists>r. first_match half_range_rules 0xAC100001 = Some r \<and>
    (action r = ''block'' \<or>
     action r = ''allow'' \<and>
       (\<exists>w. net_contains (Net4 0xAC100000 12) (map4 w) \<and> \<not> rule_matches r w))"
  by (rule outbound_private_verdict [OF half_range_accepted])
    (simp_all add: private_v4_eq net_contains_map4 same_prefix_def cidr_mask_def mask_eq_exp_minus_1)

text \<open>
  Under an accepted list no allow rule matches an address of loopback, link-local or
  \<open>0.0.0.0/8\<close>.
\<close>

theorem outbound_fixed_blocked:
  assumes ok: "check_outbound rules = Inr ()"
    and F: "F \<in> set fixed_block_v4" and v: "net_contains F (map4 v)"
  shows "\<not> (\<exists>r \<in> set rules. rule_matches r v \<and> action r \<noteq> ''block'')"
proof
  assume "\<exists>r \<in> set rules. rule_matches r v \<and> action r \<noteq> ''block''"
  then obtain r where r: "r \<in> set rules" "rule_matches r v" "action r \<noteq> ''block''" by blast
  obtain b n where n: "rule_net (cidr r) = Some (Net4 b n)" "net_contains (Net4 b n) (map4 v)"
    using r(2) by (auto simp: rule_matches_def split: option.splits ipnet.splits)
  have "check_fixed r = Inr ()" "check_rule r = Inr ()"
    using ok r(1) by (auto simp: check_outbound_eq_Inr)
  then show False
    using n F v r(3) check_rule_action [of r] unfolding check_fixed_iff by blast
qed


theorem outbound_fixed_blocked_witness:
  "\<not> (\<exists>r \<in> set half_range_rules. rule_matches r 0x7F000001 \<and> action r \<noteq> ''block'')"
  by (rule outbound_fixed_blocked [OF half_range_accepted, of "Net4 0x7F000000 8"])
    (simp_all add: fixed_block_v4_eq net_contains_map4 same_prefix_def cidr_mask_def mask_eq_exp_minus_1)

text \<open>
  Two allow rules, each narrower than \<open>10.0.0.0/8\<close>, are accepted and together open every
  address of it.
\<close>

theorem half_ranges_open:
  "check_outbound half_range_rules = Inr () \<and>
     (net_contains (Net4 0x0A000000 8) (map4 v) \<longrightarrow>
        (\<exists>r. first_match half_range_rules v = Some r \<and> action r = ''allow''))"
proof
  show "check_outbound half_range_rules = Inr ()" by (rule half_range_accepted)
  have "same_prefix 9 0x0A000000 v \<or> same_prefix 9 0x0A800000 v" if "same_prefix 8 0x0A000000 v"
  proof (cases "bit v 23")
    case True
    have "bit (0x0A800000 :: ip4) i = bit v i" if "23 \<le> i" "i < 32" for i
    proof (cases "i = 23")
      case False
      then have "bit (0x0A000000 :: ip4) i = bit v i"
        using \<open>same_prefix 8 0x0A000000 v\<close> that by (simp add: same_prefix_iff)
      moreover have "bit (0x0A800000 :: ip4) i = bit (0x0A000000 :: ip4) i" using that False
        by (auto simp: less_Suc_eq numeral_eq_Suc)
      ultimately show ?thesis by simp
    qed (use True in simp)
    then show ?thesis by (simp add: same_prefix_iff)
  next
    case F: False
    have "bit (0x0A000000 :: ip4) i = bit v i" if "23 \<le> i" "i < 32" for i
    proof (cases "i = 23")
      case False
      then show ?thesis
        using \<open>same_prefix 8 0x0A000000 v\<close> that by (simp add: same_prefix_iff)
    qed (use F in simp)
    then show ?thesis by (simp add: same_prefix_iff)
  qed
  then show "net_contains (Net4 0x0A000000 8) (map4 v) \<longrightarrow>
        (\<exists>r. first_match half_range_rules v = Some r \<and> action r = ''allow'')"
    by (auto simp: net_contains_map4 first_match_def half_range_rules_def rule_matches_def half_range_nets)
qed

section \<open>Documents\<close>

text \<open>What the file gives back for a document it was given: \<open>nil\<close> slices become empty ones.\<close>

definition norm_config :: "netgate_config \<Rightarrow> netgate_config" where
  "norm_config cfg =
     cfg\<lparr>outbound := non_nil (outbound cfg), forwards := non_nil (forwards cfg),
         band := with_services (band cfg)\<rparr>"

interpretation fwd: keyed_entries host_port "insert_entry host_port" "remove_entry host_port"
  by (rule keyed_entries_list)

interpretation ng: config_store
  "netgate_load cd os path" "netgate_save cd os path" "stored_doc cd empty_config path" "reread_doc cd"
  for cd os path
  unfolding netgate_load_def [abs_def] netgate_save_def [abs_def] by (rule config_store_doc)

lemma norm_config_simps [simp]:
  "elems (outbound (norm_config c)) = elems (outbound c)"
  "elems (forwards (norm_config c)) = elems (forwards c)"
  "total_mbps (band (norm_config c)) = total_mbps (band c)"
  "elems (services (band (norm_config c))) = elems (services (band c))"
  by (simp_all add: norm_config_def with_services_def)

text \<open>What every writer of the package keeps of the document.\<close>

definition forwards_ok :: "env \<Rightarrow> netgate_config \<Rightarrow> bool" where
  "forwards_ok env c \<longleftrightarrow>
     unique_keys host_port (elems (forwards c)) \<and>
     (\<forall>f \<in> set (elems (forwards c)). check_forward env f = Inr ())"

definition outbound_ok :: "netgate_config \<Rightarrow> bool" where
  "outbound_ok c \<longleftrightarrow> check_outbound (elems (outbound c)) = Inr ()"

definition band_ok :: "netgate_config \<Rightarrow> bool" where
  "band_ok c \<longleftrightarrow> check_bandwidth (band c) = Inr ()"

definition config_ok :: "env \<Rightarrow> netgate_config \<Rightarrow> bool" where
  "config_ok env c \<longleftrightarrow> forwards_ok env c \<and> outbound_ok c \<and> band_ok c"

lemma check_bandwidth_with_services [simp]:
  "check_bandwidth (with_services bw) = check_bandwidth bw"
  by (simp add: check_bandwidth_def with_services_def)

lemma config_ok_norm [simp]: "config_ok env (norm_config c) \<longleftrightarrow> config_ok env c"
  by (simp add: config_ok_def forwards_ok_def outbound_ok_def band_ok_def check_bandwidth_def)

lemmas config_ok_defs = config_ok_def forwards_ok_def outbound_ok_def band_ok_def

lemma put_forward_eq_Inr [res_simps]:
  "put_forward f c = Inr (c', r) \<longleftrightarrow>
     (\<exists>xs. insert_entry host_port f (elems (forwards c)) = Some xs \<and> c' = c\<lparr>forwards := Some xs\<rparr> \<and> r = f)"
  by (auto simp: put_forward_def split: option.splits)

lemma drop_forward_eq_Inr [res_simps]:
  "drop_forward p c = Inr (c', r) \<longleftrightarrow>
     (\<exists>xs. remove_entry host_port p (elems (forwards c)) = Some xs \<and> c' = c\<lparr>forwards := Some xs\<rparr>)"
  by (auto simp: drop_forward_def split: option.splits)

lemma put_forward_ok:
  "config_ok env c \<Longrightarrow> check_forward env f = Inr () \<Longrightarrow> put_forward f c = Inr (c', r) \<Longrightarrow>
     config_ok env c'"
  by (auto simp: config_ok_defs res_simps dest: fwd.add_unique) (auto simp: fwd.add_Some_iff)

lemma drop_forward_ok:
  "config_ok env c \<Longrightarrow> drop_forward p c = Inr (c', r) \<Longrightarrow> config_ok env c'"
  by (auto simp: config_ok_defs res_simps dest: fwd.del_unique) (auto simp: fwd.del_Some_iff)

lemma set_outbound_ok:
  "config_ok env c \<Longrightarrow> check_outbound (elems rules) = Inr () \<Longrightarrow> set_outbound rules c = Inr (c', r) \<Longrightarrow>
     config_ok env c'"
  by (auto simp: config_ok_defs set_outbound_def)

lemma put_bandwidth_ok:
  "config_ok env c \<Longrightarrow> check_bandwidth bw = Inr () \<Longrightarrow> put_bandwidth bw c = Inr (c', r) \<Longrightarrow>
     config_ok env c'"
  by (auto simp: config_ok_defs put_bandwidth_def)

section \<open>Histories of requests\<close>

text \<open>
  A history is a list of mutations, each under the environment it met; \<open>ng_serve\<close> is the effect of one
  on the file system, whatever it answered.
\<close>

datatype ng_request =
    ReplaceOutbound "outbound_rule slice"
  | AddForward forward
  | DeleteForward int
  | SetBandwidth bandwidth

fun ng_serve ::
    "env \<Rightarrow> 'b ng_codec \<Rightarrow> string \<Rightarrow> 'b os \<Rightarrow> ng_request \<Rightarrow> 'b fs \<Rightarrow> netgate_error option \<times> 'b fs" where
  "ng_serve env cd path os (ReplaceOutbound rules) fs =
     apfst (\<lambda>r. case r of Inl e \<Rightarrow> Some e | Inr _ \<Rightarrow> None) (replace_outbound cd os path rules fs)"
| "ng_serve env cd path os (AddForward f) fs =
     apfst (\<lambda>r. case r of Inl e \<Rightarrow> Some e | Inr _ \<Rightarrow> None) (add_forward env cd os path f fs)"
| "ng_serve env cd path os (DeleteForward p) fs =
     apfst (\<lambda>r. case r of Inl e \<Rightarrow> Some e | Inr _ \<Rightarrow> None) (delete_forward cd os path p fs)"
| "ng_serve env cd path os (SetBandwidth bw) fs =
     apfst (\<lambda>r. case r of Inl e \<Rightarrow> Some e | Inr _ \<Rightarrow> None) (set_bandwidth cd os path bw fs)"

fun ng_history ::
    "env \<Rightarrow> 'b ng_codec \<Rightarrow> string \<Rightarrow> ('b os \<times> ng_request) list \<Rightarrow> 'b fs \<Rightarrow> 'b fs" where
  "ng_history env cd path [] fs = fs"
| "ng_history env cd path ((os, req) # rest) fs =
     ng_history env cd path rest (snd (ng_serve env cd path os req fs))"

lemma ng_modify_ok:
  assumes "codec_ok cd norm_config"
    and "modify_doc (netgate_load cd os path) (netgate_save cd os path) change fs = (x, fs')"
    and "\<And>c. stored_doc cd empty_config path fs = Some c \<Longrightarrow> config_ok env c"
    and "\<And>c c' r. config_ok env c \<Longrightarrow> change c = Inr (c', r) \<Longrightarrow> config_ok env c'"
    and "stored_doc cd empty_config path fs' = Some d"
  shows "config_ok env d"
proof (rule ng.modify_invariant [OF assms(2), where I = "config_ok env"])
  fix c c' r d'
  assume "config_ok env c" "change c = Inr (c', r)" "reread_doc cd c' = Some d'"
  then show "config_ok env d'" using assms(4) reread_codec_ok [OF assms(1)] by fastforce
qed (use assms in auto)

lemma ng_serve_ok:
  assumes cd: "codec_ok cd norm_config"
    and ok: "\<And>c. stored_doc cd empty_config path fs = Some c \<Longrightarrow> config_ok env c"
    and run: "ng_serve env cd path os req fs = (r, fs')"
    and d: "stored_doc cd empty_config path fs' = Some d"
  shows "config_ok env d"
proof (cases req)
  case (ReplaceOutbound rules)
  show ?thesis
  proof (cases "check_outbound (elems rules)")
    case (Inl e)
    then show ?thesis using run ReplaceOutbound ok d by (simp add: replace_outbound_def)
  next
    case (Inr u)
    then obtain x where "modify_doc (netgate_load cd os path) (netgate_save cd os path)
        (set_outbound rules) fs = (x, fs')"
      using run ReplaceOutbound by (auto simp: replace_outbound_def apfst_def map_prod_def split: prod.splits)
    then show ?thesis
      by (rule ng_modify_ok [OF cd _ ok _ d]) (use Inr set_outbound_ok in auto)
  qed
next
  case (AddForward f)
  show ?thesis
  proof (cases "check_forward env f")
    case (Inl e)
    then show ?thesis using run AddForward ok d by (simp add: add_forward_def)
  next
    case (Inr u)
    then obtain x where "modify_doc (netgate_load cd os path) (netgate_save cd os path)
        (put_forward f) fs = (x, fs')"
      using run AddForward by (auto simp: add_forward_def apfst_def map_prod_def split: prod.splits)
    then show ?thesis
      by (rule ng_modify_ok [OF cd _ ok _ d]) (use Inr put_forward_ok in auto)
  qed
next
  case (DeleteForward p)
  then obtain x where "modify_doc (netgate_load cd os path) (netgate_save cd os path)
      (drop_forward p) fs = (x, fs')"
    using run by (auto simp: delete_forward_def apfst_def map_prod_def split: prod.splits)
  then show ?thesis
    by (rule ng_modify_ok [OF cd _ ok _ d]) (use drop_forward_ok in auto)
next
  case (SetBandwidth bw)
  show ?thesis
  proof (cases "check_bandwidth bw")
    case (Inl e)
    then show ?thesis using run SetBandwidth ok d by (simp add: set_bandwidth_def)
  next
    case (Inr u)
    then obtain x where "modify_doc (netgate_load cd os path) (netgate_save cd os path)
        (put_bandwidth bw) fs = (x, fs')"
      using run SetBandwidth by (auto simp: set_bandwidth_def apfst_def map_prod_def split: prod.splits)
    then show ?thesis
      by (rule ng_modify_ok [OF cd _ ok _ d]) (use Inr put_bandwidth_ok in auto)
  qed
qed

text \<open>
  From a well-formed document, every history of mutations, whatever calls fail in it, leaves
  a well-formed document: host ports unique, every forward accepted by the target guard, the outbound
  list accepted by the backstop, the limits valid.
\<close>

theorem ng_history_ok:
  assumes "codec_ok cd norm_config"
    and "stored_doc cd empty_config path fs = Some c" "config_ok env c"
    and "stored_doc cd empty_config path (ng_history env cd path reqs fs) = Some d"
  shows "config_ok env d"
  using assms(2-4)
proof -
  have ok: "\<And>c. stored_doc cd empty_config path fs = Some c \<Longrightarrow> config_ok env c"
    using assms(2,3) by simp
  show ?thesis using ok assms(4)
  proof (induction reqs arbitrary: fs)
    case (Cons q rest)
    obtain os req where q: "q = (os, req)" by (cases q)
    obtain r fs' where run: "ng_serve env cd path os req fs = (r, fs')" by fastforce
    show ?case
      by (rule Cons.IH [of fs'])
        (use ng_serve_ok [OF assms(1) Cons.prems(1) run] Cons.prems(2) q run in auto)
  qed simp
qed

text \<open>
  A mutation that answers an error, for a refused input or a failed system call, leaves the
  document in the live file as it was.
\<close>

theorem ng_failed_unchanged:
  assumes "ng_serve env cd path os req fs = (Some e, fs')"
  shows "stored_doc cd empty_config path fs' = stored_doc cd empty_config path fs"
  using assms
  by (cases req)
    (auto simp: replace_outbound_def add_forward_def delete_forward_def set_bandwidth_def
       apfst_def map_prod_def dest: ng.modify_failed split: sum.splits prod.splits)

section \<open>Forwards and limits\<close>

lemma check_forward_eq_Inr:
  "check_forward env f = Inr u \<longleftrightarrow>
     1 \<le> host_port f \<and> host_port f \<le> 65535 \<and> 1 \<le> target_port f \<and> target_port f \<le> 65535 \<and>
     rx_match plain_host_re (target_host f) \<and>
     validate_host env (target_host f) (itoa (target_port f)) (forward_allowed_hosts env) [] ''port forward'' = Inr ()"
  by (auto simp: check_forward_def res_simps validate_port_def validate_fwd_host_def plain_host_re_iff
      split: if_splits)

lemma itoa_ports: "itoa 2375 = ''2375''" "itoa 2376 = ''2376''"
  by code_simp+

text \<open>
  An accepted forward names an allowlisted plain host that is not router itself, with ports in
  range, and never the Docker API of \<open>dind\<close>.
\<close>

theorem forward_target_safe:
  assumes "check_forward env f = Inr ()"
  shows "to_lower (target_host f) \<in> default_allowed_hosts env \<and>
    \<not> is_self_host (to_lower (target_host f)) \<and>
    (to_lower (target_host f) = ''dind'' \<longrightarrow> target_port f \<notin> {2375, 2376}) \<and>
    (\<forall>c \<in> set (target_host f). host_char c) \<and>
    0 < host_port f \<and> host_port f < 65536 \<and> 0 < target_port f \<and> target_port f < 65536"
  using assms itoa_ports
  by (auto simp: check_forward_eq_Inr res_simps forward_allowed_hosts_def denied_targets_def plain_host_re_iff)

lemma check_services_eq_Inr:
  "check_services seen ss = Inr u \<longleftrightarrow>
     (\<forall>s \<in> set ss. rx_match plain_host_re (limit_host s) \<and> 1 \<le> limit_mbps s \<and> limit_host s \<notin> seen) \<and>
     unique_keys limit_host ss"
  by (induction ss arbitrary: seen)
    (auto simp: res_simps validate_fwd_host_def plain_host_re_iff unique_keys_def not_less split: if_splits,
      metis image_eqI)

text \<open>
  \<open>SetBandwidth\<close> accepts exactly the non-negative totals with a positive limit on each of a
  set of distinct plain hosts.
\<close>

theorem check_bandwidth_iff:
  "check_bandwidth bw = Inr () \<longleftrightarrow>
     0 \<le> total_mbps bw \<and> unique_keys limit_host (elems (services bw)) \<and>
     (\<forall>s \<in> set (elems (services bw)). rx_match plain_host_re (limit_host s) \<and> 1 \<le> limit_mbps s)"
  by (auto simp: check_bandwidth_def check_services_eq_Inr not_less split: if_splits)

text \<open>What a reader finds after each mutation of the forwards.\<close>

definition forward_at :: "netgate_config \<Rightarrow> int \<Rightarrow> forward option" where
  "forward_at c p = lookup_key host_port p (elems (forwards c))"

lemma forward_at_norm [simp]: "forward_at (norm_config c) p = forward_at c p"
  by (simp add: forward_at_def)

text \<open>
  An added forward is found under its host port, which was free, and every other entry and
  the outbound list are as before.
\<close>

theorem add_forward_lookup:
  assumes "codec_ok cd norm_config"
    and "add_forward env cd os path f fs = (Inr g, fs')"
    and "stored_doc cd empty_config path fs' = Some d"
  shows "\<exists>c. stored_doc cd empty_config path fs = Some c \<and> forward_at c (host_port f) = None \<and>
    (\<forall>p. forward_at d p = (if p = host_port f then Some f else forward_at c p)) \<and>
    elems (outbound d) = elems (outbound c)"
proof -
  have "modify_doc (netgate_load cd os path) (netgate_save cd os path) (put_forward f) fs = (Inr g, fs')"
    using assms(2) by (simp add: add_forward_def split: sum.splits)
  from ng.modify_ok [OF this] obtain c c' where c:
    "stored_doc cd empty_config path fs = Some c" "put_forward f c = Inr (c', g)"
    "stored_doc cd empty_config path fs' = reread_doc cd c'"
    by (elim exE conjE) (rule that)
  have "d = norm_config c'" using reread_codec_ok [OF assms(1)] c(3) assms(3) by simp
  then show ?thesis using c(1,2)
    by (auto simp: res_simps forward_at_def fwd.lookup_add fwd.add_Some_iff lookup_key_None_iff)
qed

text \<open>
  A deleted host port, which was taken, is free afterwards, and every other entry is as before.
\<close>

theorem delete_forward_lookup:
  assumes "codec_ok cd norm_config"
    and "delete_forward cd os path k fs = (Inr u, fs')"
    and "stored_doc cd empty_config path fs' = Some d"
  shows "\<exists>c. stored_doc cd empty_config path fs = Some c \<and> forward_at c k \<noteq> None \<and>
    (\<forall>p. forward_at d p = (if p = k then None else forward_at c p)) \<and>
    elems (outbound d) = elems (outbound c)"
proof -
  have "modify_doc (netgate_load cd os path) (netgate_save cd os path) (drop_forward k) fs = (Inr u, fs')"
    using assms(2) by (simp add: delete_forward_def)
  from ng.modify_ok [OF this] obtain c c' where c:
    "stored_doc cd empty_config path fs = Some c" "drop_forward k c = Inr (c', u)"
    "stored_doc cd empty_config path fs' = reread_doc cd c'"
    by (elim exE conjE) (rule that)
  have "d = norm_config c'" using reread_codec_ok [OF assms(1)] c(3) assms(3) by simp
  then show ?thesis using c(1,2)
    by (auto simp: res_simps forward_at_def fwd.del_Some_iff lookup_key_None_iff lookup_key_filter)
qed

section \<open>Seeding\<close>

lemma config_paths_neq [simp]:
  "live_config_path \<noteq> override_config_path" "live_config_path \<noteq> default_config_path"
  by (simp_all add: live_config_path_def override_config_path_def default_config_path_def)

text \<open>A live copy is never touched; a missing one becomes a copy of the override, or the default.\<close>

text \<open>
  \<open>EnsureSeeded\<close> never writes a file but the live one, leaves a present live copy alone, and
  otherwise makes it a copy of the override, or of the default when there is none.
\<close>

theorem ensure_seeded_spec:
  "(case ensure_seeded os fs of
      (Inr u, fs') \<Rightarrow>
        if stat_ok os fs live_config_path then fs' = fs
        else \<exists>src f. (src = override_config_path \<and> stat_ok os fs src \<or>
                     src = default_config_path \<and> \<not> stat_ok os fs override_config_path) \<and>
          fs src = Some f \<and> map_option contents (fs' live_config_path) = Some (contents f) \<and>
          (\<forall>p. p \<noteq> live_config_path \<longrightarrow> fs' p = fs p)
    | (Inl e, fs') \<Rightarrow> \<not> stat_ok os fs live_config_path \<and> (\<forall>p. p \<noteq> live_config_path \<longrightarrow> fs' p = fs p))"
  by (auto simp: ensure_seeded_def Let_def read_file_def mkdir_all_def write_file_def
      split: sum.splits prod.splits if_splits option.splits)

text \<open>
  A copy cut short is not repaired: the torn live file is then taken for a seeded one, on this and
  every later start.
\<close>

text \<open>
  A seed copy cut short by a failing write is kept: the next start answers success and leaves
  the torn file.
\<close>

theorem torn_seed_kept:
  assumes "fails os = (\<lambda>c. c = WriteFile live_config_path)" "torn os d = Some t"
    and "fs live_config_path = None" "fs override_config_path = None"
    and "fs default_config_path = Some \<lparr>contents = d, perm = m\<rparr>"
    and "ensure_seeded os fs = (r, fs')"
  shows "is_err r \<and> map_option contents (fs' live_config_path) = Some t \<and>
    ensure_seeded quiet_os fs' = (Inr (), fs')"
  using assms
  by (auto simp: ensure_seeded_def stat_ok_def read_file_def mkdir_all_def write_file_def)

section \<open>The properties on concrete documents\<close>

definition no_env :: env where
  "no_env = (\<lambda>_. [])"

definition sample_forward :: forward where
  "sample_forward = \<lparr>host_port = 8080, target_host = ''code-docker'', target_port = 3000\<rparr>"

definition sample_config :: netgate_config where
  "sample_config =
     \<lparr>outbound = Some half_range_rules, forwards = None,
      band = \<lparr>total_mbps = 100, services = Some [\<lparr>limit_host = ''dind'', limit_mbps = 20\<rparr>]\<rparr>\<rparr>"

definition config_fs :: "netgate_config \<Rightarrow> netgate_config fs" where
  "config_fs c = [live_config_path \<mapsto> \<lparr>contents = c, perm = 0x1A4\<rparr>]"

abbreviation sample_codec :: "netgate_config ng_codec" where
  "sample_codec \<equiv> plain_codec norm_config"

lemma sample_forward_ok: "check_forward no_env sample_forward = Inr ()"
  by code_simp

lemma stored_config_fs:
  "stored_doc sample_codec empty_config live_config_path (config_fs c) = Some (norm_config c)"
  by (simp add: stored_doc_def config_fs_def plain_codec_def)

lemma load_config_fs:
  "netgate_load sample_codec quiet_os live_config_path (config_fs c) = Inr (norm_config c)"
  by (simp add: netgate_load_def load_doc_quiet stored_config_fs)

lemma save_config_fs:
  "netgate_save sample_codec quiet_os live_config_path d (config_fs c) = (Inr (), config_fs d)"
  by (simp add: netgate_save_def save_doc_def plain_codec_def atomic_write_quiet config_fs_def fun_eq_iff
      tmp_path_def)

lemma sample_config_ok: "config_ok no_env (norm_config sample_config)"
proof -
  have b: "check_bandwidth (band (norm_config sample_config)) = Inr ()" by code_simp
  show ?thesis
    unfolding config_ok_def band_ok_def b
    by (simp add: config_ok_defs half_range_accepted unique_keys_def) (simp add: sample_config_def half_range_accepted)
qed

lemma sample_add:
  "add_forward no_env sample_codec quiet_os live_config_path sample_forward (config_fs sample_config) =
     (Inr sample_forward,
      config_fs (norm_config sample_config\<lparr>forwards := Some [sample_forward]\<rparr>))"
  by (simp add: add_forward_def sample_forward_ok modify_doc_def load_config_fs save_config_fs
      put_forward_def insert_entry_def sample_config_def)

lemma sample_delete:
  "delete_forward sample_codec quiet_os live_config_path 8080
     (config_fs (norm_config sample_config\<lparr>forwards := Some [sample_forward]\<rparr>)) =
     (Inr (), config_fs (norm_config sample_config))"
  by (simp add: delete_forward_def modify_doc_def load_config_fs save_config_fs drop_forward_def
      remove_entry_def sample_forward_def) (simp add: norm_config_def sample_config_def with_services_def)

theorem ng_history_ok_witness:
  "config_ok no_env (norm_config (norm_config sample_config\<lparr>forwards := Some [sample_forward]\<rparr>))"
  by (rule ng_history_ok [OF codec_ok_plain stored_config_fs sample_config_ok,
        where reqs = "[(quiet_os, AddForward sample_forward)]"])
    (simp only: ng_history.simps ng_serve.simps sample_add apfst_conv snd_conv stored_config_fs)

theorem ng_failed_unchanged_witness:
  "\<exists>fs'. ng_serve no_env sample_codec live_config_path
      (quiet_os\<lparr>fails := \<lambda>c. c = Rename (tmp_path live_config_path) live_config_path\<rparr>)
      (AddForward sample_forward) (config_fs sample_config) =
      (Some (StoreError (StoreIO (IOError (Rename (tmp_path live_config_path) live_config_path)))), fs') \<and>
    fs' \<noteq> config_fs sample_config \<and>
    stored_doc sample_codec empty_config live_config_path fs' = Some (norm_config sample_config)"
proof -
  let ?os = "quiet_os\<lparr>fails := \<lambda>c. c = Rename (tmp_path live_config_path) live_config_path\<rparr>"
  obtain r fs' where run: "ng_serve no_env sample_codec live_config_path ?os
      (AddForward sample_forward) (config_fs sample_config) = (r, fs')" by fastforce
  then have "r = Some (StoreError (StoreIO (IOError (Rename (tmp_path live_config_path) live_config_path)))) \<and>
    fs' (tmp_path live_config_path) \<noteq> None"
    by (auto simp: add_forward_def sample_forward_ok modify_doc_def netgate_load_def load_doc_def
        read_file_def config_fs_def plain_codec_def put_forward_def insert_entry_def netgate_save_def
        save_doc_def atomic_write_def atomic_write_acts_def syscall_defs sample_config_def)
  moreover from this have "fs' \<noteq> config_fs sample_config" by (auto simp: config_fs_def)
  ultimately show ?thesis
    using ng_failed_unchanged [of no_env sample_codec live_config_path ?os "AddForward sample_forward"]
      run stored_config_fs by fastforce
qed

theorem forward_target_safe_witness:
  "''code-docker'' \<in> default_allowed_hosts no_env \<and> \<not> is_self_host ''code-docker''"
proof -
  have "to_lower (target_host sample_forward) = ''code-docker''" by code_simp
  then show ?thesis using forward_target_safe [OF sample_forward_ok] by simp
qed

theorem check_bandwidth_iff_witness:
  "is_err (check_bandwidth \<lparr>total_mbps = 0, services = Some
     [\<lparr>limit_host = ''dind'', limit_mbps = 5\<rparr>, \<lparr>limit_host = ''dind'', limit_mbps = 7\<rparr>]\<rparr>)"
    (is "is_err (check_bandwidth ?bw)")
proof -
  have "check_bandwidth ?bw \<noteq> Inr ()"
    by (subst check_bandwidth_iff) (simp add: unique_keys_def)
  then show ?thesis by (cases "check_bandwidth ?bw") auto
qed

theorem add_forward_lookup_witness:
  "forward_at (norm_config (norm_config sample_config\<lparr>forwards := Some [sample_forward]\<rparr>)) 8080 =
     Some sample_forward \<and>
   forward_at (norm_config sample_config) 8080 = None"
proof -
  have "host_port sample_forward = 8080" by (simp add: sample_forward_def)
  then show ?thesis
    using add_forward_lookup [OF codec_ok_plain sample_add stored_config_fs]
    by (auto simp: stored_config_fs)
qed

theorem delete_forward_lookup_witness:
  "forward_at (norm_config (norm_config sample_config)) 8080 = None"
  using delete_forward_lookup [OF codec_ok_plain sample_delete stored_config_fs] by auto

theorem ensure_seeded_spec_witness:
  "\<exists>fs'. ensure_seeded quiet_os [default_config_path \<mapsto> \<lparr>contents = ''o'', perm = 0x1A4\<rparr>] = (Inr (), fs') \<and>
     map_option contents (fs' live_config_path) = Some ''o''"
proof -
  let ?fs = "[default_config_path \<mapsto> \<lparr>contents = ''o'', perm = 0x1A4\<rparr>]"
  have "override_config_path \<noteq> default_config_path"
    by (simp add: override_config_path_def default_config_path_def)
  moreover obtain r fs' where "ensure_seeded quiet_os ?fs = (r, fs')" by fastforce
  moreover from this have "r = Inr ()"
    by (auto simp: ensure_seeded_def stat_ok_def read_file_def syscall_defs
        override_config_path_def default_config_path_def live_config_path_def)
  ultimately show ?thesis
    using ensure_seeded_spec [of quiet_os ?fs] by (auto simp: stat_ok_def split: if_splits)
qed

theorem torn_seed_kept_witness:
  "\<exists>fs'. map_option contents (fs' live_config_path) = Some ''ou'' \<and> ensure_seeded quiet_os fs' = (Inr (), fs')"
proof -
  let ?os = "\<lparr>fails = \<lambda>c. c = WriteFile live_config_path, torn = \<lambda>_. Some ''ou'', create_perm = \<lambda>m. m\<rparr>"
  let ?fs = "[default_config_path \<mapsto> \<lparr>contents = ''outbound'', perm = 0x1A4\<rparr>]"
  obtain r fs' where "ensure_seeded ?os ?fs = (r, fs')" by fastforce
  from torn_seed_kept [OF _ _ _ _ _ this, of "''outbound''" "''ou''" "0x1A4"] show ?thesis
    by (auto simp: override_config_path_def default_config_path_def live_config_path_def)
qed

theorem half_ranges_open_witness:
  "\<exists>r. first_match half_range_rules 0x0A010203 = Some r \<and> action r = ''allow''"
  using half_ranges_open [of "0x0A010203"]
  by (simp add: net_contains_map4 same_prefix_def cidr_mask_def mask_eq_exp_minus_1)

theorem backstop_iff_witness:
  "\<exists>r \<in> set half_range_rules. rule_matches r 0xC0A80001"
proof -
  have "check_v4_backstop half_range_rules = Inr ()"
    using half_range_accepted by (simp add: check_outbound_def res_simps)
  moreover have "net_contains (Net4 0xC0A80000 16) (map4 0xC0A80001)"
    by (simp add: net_contains_map4 same_prefix_def cidr_mask_def mask_eq_exp_minus_1)
  ultimately show ?thesis unfolding backstop_iff by (auto simp: private_v4_eq)
qed

end
