(* ===== verification/Supervisor_Client.thy ===== *)
theory Supervisor_Client
  imports Config_Store Go_Strconv
begin

text \<open>
  \<open>internal/supervisor\<close>: the XML-RPC client of supervisord, and the restart of a program that
  \<open>handlers_tailscale.go\<close> builds on it.  The socket (one request body in, one response body out, on the
  daemon's state \<open>'s\<close>) and \<open>encoding/xml\<close>'s decoder are parameters, the record \<open>wire\<close>.
\<close>

section \<open>Values\<close>

datatype rpc_value = RpcValue
  (rv_string: "string option")
  (rv_int: "string option")
  (rv_i4: "string option")
  (rv_boolean: "string option")
  (rv_array: "rpc_value list option")
  (rv_struct: "(string \<times> rpc_value) list option")
  (rv_chardata: string)

definition zero_value :: rpc_value where
  "zero_value = RpcValue None None None None None None []"

definition as_string :: "rpc_value \<Rightarrow> string" where
  "as_string v = (case rv_string v of Some s \<Rightarrow> s | None \<Rightarrow> trim_space (rv_chardata v))"

text \<open>
  \<open>asInt\<close> with its error dropped, as every caller does: \<open>ParseInt\<close> answers 0 for a syntax error and the
  nearest bound for a number out of range.
\<close>

definition clamp_int64 :: "int \<Rightarrow> int" where
  "clamp_int64 i = max (- (2 ^ 63)) (min (2 ^ 63 - 1) i)"

definition as_int :: "rpc_value \<Rightarrow> int" where
  "as_int v =
     (let s = (case rv_int v of
                 Some s \<Rightarrow> s
               | None \<Rightarrow> (case rv_i4 v of Some s \<Rightarrow> s | None \<Rightarrow> trim_space (rv_chardata v)))
      in case parse_signed (trim_space s) of None \<Rightarrow> 0 | Some i \<Rightarrow> clamp_int64 i)"

text \<open>The later of two members with one name wins; a missing one reads as the zero value.\<close>

definition as_struct :: "rpc_value \<Rightarrow> string \<Rightarrow> rpc_value" where
  "as_struct v n =
     (case rv_struct v of
        None \<Rightarrow> zero_value
      | Some ms \<Rightarrow> (case map_of (rev ms) n of None \<Rightarrow> zero_value | Some x \<Rightarrow> x))"

definition as_array :: "rpc_value \<Rightarrow> rpc_value list" where
  "as_array v = (case rv_array v of None \<Rightarrow> [] | Some vs \<Rightarrow> vs)"

section \<open>Requests and responses\<close>

text \<open>\<open>xml.EscapeText\<close>; bytes from 128 on are taken to be valid UTF-8.\<close>

definition escape_char :: "char \<Rightarrow> string" where
  "escape_char c =
     (if code c = 0x22 then ''&#34;'' else if code c = 0x27 then ''&#39;''
      else if c = CHR ''&'' then ''&amp;'' else if c = CHR ''<'' then ''&lt;''
      else if c = CHR ''>'' then ''&gt;'' else if code c = 9 then ''&#x9;''
      else if code c = 10 then ''&#xA;'' else if code c = 13 then ''&#xD;''
      else if code c < 0x20 then [CHR 0xEF, CHR 0xBF, CHR 0xBD]
      else [c])"

definition escape_text :: "string \<Rightarrow> string" where
  "escape_text s = concat (map escape_char s)"

definition string_param :: "string \<Rightarrow> string" where
  "string_param s = ''<param><value><string>'' @ escape_text s @ ''</string></value></param>''"

definition int_param :: "int \<Rightarrow> string" where
  "int_param i = ''<param><value><int>'' @ itoa i @ ''</int></value></param>''"

definition call_body :: "string \<Rightarrow> string list \<Rightarrow> string" where
  "call_body method params =
     ''<?xml version='' @ [CHR 0x22] @ ''1.0'' @ [CHR 0x22] @ ''?><methodCall><methodName>'' @ method @
     ''</methodName><params>'' @ concat params @ ''</params></methodCall>''"

definition esc :: char where
  "esc = CHR 0x1B"

text \<open>\<open>\x1b\[[0-9;]*[a-zA-Z]\<close> at the start of a text: what follows it.\<close>

definition ansi_rest :: "string \<Rightarrow> string option" where
  "ansi_rest s =
     (case s of
        e # b # r \<Rightarrow>
          (if e = esc \<and> b = CHR ''['' then
             (case dropWhile (\<lambda>c. is_digit c \<or> c = CHR '';'') r of
                l # r' \<Rightarrow> if is_upper l \<or> is_lower l then Some r' else None
              | [] \<Rightarrow> None)
           else None)
      | _ \<Rightarrow> None)"

lemma ansi_rest_shorter: "ansi_rest s = Some r \<Longrightarrow> length r < length s"
proof -
  assume "ansi_rest s = Some r"
  then obtain x y t l where s: "s = x # y # t" and "dropWhile (\<lambda>c. is_digit c \<or> c = CHR '';'') t = l # r"
    by (auto simp: ansi_rest_def split: list.splits if_splits)
  then show ?thesis
    using length_dropWhile_le [of "\<lambda>c. is_digit c \<or> c = CHR '';''" t] by simp
qed

function strip_ansi :: "string \<Rightarrow> string" where
  "strip_ansi s =
     (case ansi_rest s of
        Some r \<Rightarrow> strip_ansi r
      | None \<Rightarrow> (case s of [] \<Rightarrow> [] | c # cs \<Rightarrow> c # strip_ansi cs))"
  by pat_completeness auto
termination
  by (relation "measure length") (auto dest: ansi_rest_shorter)

declare strip_ansi.simps [simp del]

text \<open>\<open>[\x00-\x08\x0b\x0c\x0e-\x1f]\<close>\<close>

definition xml_forbidden :: "char \<Rightarrow> bool" where
  "xml_forbidden c \<longleftrightarrow>
     code c \<le> 8 \<or> code c = 0xB \<or> code c = 0xC \<or> 0xE \<le> code c \<and> code c \<le> 0x1F"

definition sanitize_xml :: "string \<Rightarrow> string" where
  "sanitize_xml data = filter (\<lambda>c. \<not> xml_forbidden c) (strip_ansi data)"

record method_response =
  mr_params :: "rpc_value list option"
  mr_fault :: "rpc_value option"

record 's wire =
  round_trip :: "string \<Rightarrow> 's \<Rightarrow> string option \<times> 's"
  decode_xml :: "string \<Rightarrow> method_response option"

datatype rpc_error =
    RpcTransport string
  | RpcDecode string
  | Fault int string

definition call :: "'s wire \<Rightarrow> string \<Rightarrow> string list \<Rightarrow> 's \<Rightarrow> (rpc_error + rpc_value) \<times> 's" where
  "call w method params s =
     (case round_trip w (call_body method params) s of
        (None, s') \<Rightarrow> (Inl (RpcTransport method), s')
      | (Some data, s') \<Rightarrow>
          ((case decode_xml w (sanitize_xml data) of
              None \<Rightarrow> Inl (RpcDecode method)
            | Some mr \<Rightarrow>
                (case mr_fault mr of
                   Some f \<Rightarrow> Inl (Fault (as_int (as_struct f ''faultCode'')) (as_string (as_struct f ''faultString'')))
                 | None \<Rightarrow>
                     (case mr_params mr of
                        None \<Rightarrow> Inr zero_value
                      | Some ps \<Rightarrow> (case ps of [] \<Rightarrow> Inr zero_value | p # _ \<Rightarrow> Inr p)))), s'))"

record process_info =
  pi_name :: string
  pi_group :: string
  pi_statename :: string
  pi_description :: string
  pi_pid :: int
  pi_start :: int
  pi_now :: int

definition get_all_process_info :: "'s wire \<Rightarrow> 's \<Rightarrow> (rpc_error + process_info list) \<times> 's" where
  "get_all_process_info w s =
     (case call w ''supervisor.getAllProcessInfo'' [] s of
        (Inl e, s') \<Rightarrow> (Inl e, s')
      | (Inr v, s') \<Rightarrow>
          (Inr (map (\<lambda>item. let m = as_struct item in
              \<lparr>pi_name = as_string (m ''name''), pi_group = as_string (m ''group''),
               pi_statename = as_string (m ''statename''), pi_description = as_string (m ''description''),
               pi_pid = as_int (m ''pid''), pi_start = as_int (m ''start''), pi_now = as_int (m ''now'')\<rparr>)
             (as_array v)), s'))"

definition void :: "'e + 'a \<Rightarrow> 'e option" where
  "void r = (case r of Inl e \<Rightarrow> Some e | Inr _ \<Rightarrow> None)"

definition start_process :: "'s wire \<Rightarrow> string \<Rightarrow> 's \<Rightarrow> rpc_error option \<times> 's" where
  "start_process w name s = apfst void (call w ''supervisor.startProcess'' [string_param name] s)"

definition stop_process :: "'s wire \<Rightarrow> string \<Rightarrow> 's \<Rightarrow> rpc_error option \<times> 's" where
  "stop_process w name s = apfst void (call w ''supervisor.stopProcess'' [string_param name] s)"

definition read_log ::
    "'s wire \<Rightarrow> string \<Rightarrow> string \<Rightarrow> int \<Rightarrow> int \<Rightarrow> 's \<Rightarrow> (rpc_error + string) \<times> 's" where
  "read_log w method name offset len s =
     (case call w method [string_param name, int_param offset, int_param len] s of
        (Inl e, s') \<Rightarrow> (Inl e, s')
      | (Inr v, s') \<Rightarrow> (Inr (as_string v), s'))"

definition read_process_stdout_log :: "'s wire \<Rightarrow> string \<Rightarrow> int \<Rightarrow> int \<Rightarrow> 's \<Rightarrow> (rpc_error + string) \<times> 's" where
  "read_process_stdout_log w = read_log w ''supervisor.readProcessStdoutLog''"

definition read_process_stderr_log :: "'s wire \<Rightarrow> string \<Rightarrow> int \<Rightarrow> int \<Rightarrow> 's \<Rightarrow> (rpc_error + string) \<times> 's" where
  "read_process_stderr_log w = read_log w ''supervisor.readProcessStderrLog''"

section \<open>Restarting a program\<close>

text \<open>Blank lines and a repeat of the line before are dropped, then the last \<open>n\<close> lines are joined.\<close>

fun keep_lines :: "string list \<Rightarrow> string list \<Rightarrow> string list" where
  "keep_lines kept [] = kept"
| "keep_lines kept (l # ls) =
     (let t = trim_space l
      in if t = [] \<or> (kept \<noteq> [] \<and> last kept = t) then keep_lines kept ls
         else keep_lines (kept @ [t]) ls)"

definition tail_lines :: "string \<Rightarrow> nat \<Rightarrow> string list" where
  "tail_lines s n =
     (let ls = keep_lines [] (split_on NL s) in if n < length ls then drop (length ls - n) ls else ls)"

definition last_log_lines :: "string \<Rightarrow> nat \<Rightarrow> string" where
  "last_log_lines s n = join '' | '' (tail_lines s n)"

datatype restart_error =
    StopFailed rpc_error
  | StartFailed rpc_error "string list"

definition log_tail_bytes :: int where
  "log_tail_bytes = 2000"

definition log_tail :: "(rpc_error + string) \<Rightarrow> string list" where
  "log_tail r =
     (case r of
        Inl _ \<Rightarrow> []
      | Inr out \<Rightarrow> let tail = last_log_lines out 3 in if tail \<noteq> [] then [tail] else [])"

definition with_program_log_tail :: "'s wire \<Rightarrow> string \<Rightarrow> rpc_error \<Rightarrow> 's \<Rightarrow> restart_error \<times> 's" where
  "with_program_log_tail w name e s =
     (case read_process_stderr_log w name (- log_tail_bytes) 0 s of
        (r1, s1) \<Rightarrow>
          (case read_process_stdout_log w name (- log_tail_bytes) 0 s1 of
             (r2, s2) \<Rightarrow> (StartFailed e (log_tail r1 @ log_tail r2), s2)))"

definition not_running :: "rpc_error \<Rightarrow> bool" where
  "not_running e \<longleftrightarrow> (case e of Fault c _ \<Rightarrow> c = 70 | _ \<Rightarrow> False)"

definition restart_program :: "'s wire \<Rightarrow> string \<Rightarrow> 's \<Rightarrow> restart_error option \<times> 's" where
  "restart_program w name s =
     (case stop_process w name s of
        (stopped, s1) \<Rightarrow>
          (case stopped of
             Some e \<Rightarrow>
               if \<not> not_running e then (Some (StopFailed e), s1)
               else
                 (case start_process w name s1 of
                    (Some e', s2) \<Rightarrow> apfst Some (with_program_log_tail w name e' s2)
                  | (None, s2) \<Rightarrow> (None, s2))
           | None \<Rightarrow>
               (case start_process w name s1 of
                  (Some e', s2) \<Rightarrow> apfst Some (with_program_log_tail w name e' s2)
                | (None, s2) \<Rightarrow> (None, s2))))"

section \<open>Program metadata\<close>

record program_metadata =
  pm_label :: string
  pm_note :: string
  pm_disable_start :: bool
  pm_disable_stop :: bool
  pm_disable_restart :: bool
  pm_disable_logs :: bool

type_synonym metadata_map = "(string \<times> program_metadata) list option"

definition load_metadata ::
    "(metadata_map, 'b) codec \<Rightarrow> 'b os \<Rightarrow> string \<Rightarrow> string \<Rightarrow> 'b fs \<Rightarrow> store_error + metadata_map" where
  "load_metadata cd os default_path override_path fs =
     (let path = (if stat_ok os fs override_path then override_path else default_path)
      in case read_file os fs path of
           NoSuchFile \<Rightarrow> Inr (Some [])
         | ReadFailed e \<Rightarrow> Inl (StoreIO e)
         | ReadOK b \<Rightarrow>
             (case unmarshal cd b of
                None \<Rightarrow> Inl Corrupt
              | Some ps \<Rightarrow> Inr (case ps of None \<Rightarrow> Some [] | Some xs \<Rightarrow> Some xs)))"

section \<open>Facts\<close>

lemma escape_text_plain: "CHR ''<'' \<notin> set (escape_text s)" "CHR ''>'' \<notin> set (escape_text s)"
  by (auto simp: escape_text_def escape_char_def)

lemma strip_ansi_no_esc: "esc \<notin> set s \<Longrightarrow> strip_ansi s = s"
proof (induction s)
  case (Cons c cs)
  then have "ansi_rest (c # cs) = None" by (auto simp: ansi_rest_def split: list.splits)
  with Cons show ?case by (subst strip_ansi.simps) simp
qed (simp add: strip_ansi.simps ansi_rest_def)

lemma strip_ansi_prefix: "esc \<notin> set a \<Longrightarrow> strip_ansi (a @ s) = a @ strip_ansi s"
proof (induction a)
  case (Cons c cs)
  then have "ansi_rest (c # cs @ s) = None" by (auto simp: ansi_rest_def split: list.splits)
  with Cons show ?case by (subst strip_ansi.simps) simp
qed simp

lemma sanitize_xml_clean: "c \<in> set (sanitize_xml s) \<Longrightarrow> \<not> xml_forbidden c"
  by (simp add: sanitize_xml_def)

lemma sanitize_xml_id: "(\<And>c. c \<in> set s \<Longrightarrow> \<not> xml_forbidden c) \<Longrightarrow> sanitize_xml s = s"
proof -
  assume clean: "\<And>c. c \<in> set s \<Longrightarrow> \<not> xml_forbidden c"
  have "xml_forbidden esc" by (simp add: xml_forbidden_def esc_def code_def)
  then have "strip_ansi s = s" using clean by (intro strip_ansi_no_esc) blast
  then show ?thesis using clean by (simp add: sanitize_xml_def)
qed

lemma sanitize_xml_idem: "sanitize_xml (sanitize_xml s) = sanitize_xml s"
  by (rule sanitize_xml_id) (rule sanitize_xml_clean)

text \<open>A colour sequence disappears whole, the text around it stays.\<close>

lemma strip_ansi_sequence:
  assumes "esc \<notin> set a" "\<forall>c \<in> set p. is_digit c \<or> c = CHR '';''" "is_upper l \<or> is_lower l"
  shows "strip_ansi (a @ esc # CHR ''['' # p @ l # s) = a @ strip_ansi s"
proof -
  have "\<not> (is_digit l \<or> l = CHR '';'')"
    using assms(3) by (auto simp: char_class_defs code_def)
  then have "dropWhile (\<lambda>c. is_digit c \<or> c = CHR '';'') (p @ l # s) = l # s"
    using assms(2) by (simp add: dropWhile_append2)
  then have "ansi_rest (esc # CHR ''['' # p @ l # s) = Some s"
    using assms(3) by (simp add: ansi_rest_def)
  then have "strip_ansi (esc # CHR ''['' # p @ l # s) = strip_ansi s" by (subst strip_ansi.simps) simp
  then show ?thesis by (simp add: strip_ansi_prefix [OF assms(1)])
qed

definition kept_ok :: "string set \<Rightarrow> string list \<Rightarrow> bool" where
  "kept_ok L kept \<longleftrightarrow> distinct_adj kept \<and> (\<forall>t \<in> set kept. t \<noteq> [] \<and> (\<exists>l \<in> L. t = trim_space l))"

lemma keep_lines_inv: "kept_ok L kept \<Longrightarrow> set ls \<subseteq> L \<Longrightarrow> kept_ok L (keep_lines kept ls)"
proof (induction ls arbitrary: kept)
  case (Cons l ls)
  let ?t = "trim_space l"
  have "kept_ok L (kept @ [?t])" if "\<not> (?t = [] \<or> (kept \<noteq> [] \<and> last kept = ?t))"
    using that Cons.prems by (auto simp: kept_ok_def distinct_adj_append_iff)
  moreover have "set ls \<subseteq> L" using Cons.prems(2) by simp
  ultimately show ?case
    using Cons.IH [of kept] Cons.IH [of "kept @ [?t]"] Cons.prems(1) by (simp only: keep_lines.simps Let_def split: if_split) blast
qed simp

lemma distinct_adj_drop: "distinct_adj xs \<Longrightarrow> distinct_adj (drop n xs)"
  using distinct_adj_append_iff [of "take n xs" "drop n xs"] by simp

text \<open>
  Of a program's log an error quotes at most \<open>n\<close> lines, each the trimmed text of a line of the log, none
  blank and none twice in a row.
\<close>

lemma tail_lines_spec:
  "length (tail_lines s n) \<le> n \<and> distinct_adj (tail_lines s n) \<and>
   (\<forall>t \<in> set (tail_lines s n). t \<noteq> [] \<and> (\<exists>l \<in> set (split_on NL s). t = trim_space l))"
proof -
  let ?ls = "keep_lines [] (split_on NL s)"
  have "kept_ok (set (split_on NL s)) ?ls" by (rule keep_lines_inv) (simp_all add: kept_ok_def)
  then show ?thesis by (auto simp: tail_lines_def Let_def kept_ok_def distinct_adj_drop dest: in_set_dropD)
qed

text \<open>The three outcomes of a restart.\<close>

lemma restart_program_cases:
  assumes "restart_program w name s = (r, s')"
  obtains (stop) e where "stop_process w name s = (Some e, s')" "\<not> not_running e" "r = Some (StopFailed e)"
  | (start) s1 e s2 tails where "snd (stop_process w name s) = s1" "start_process w name s1 = (Some e, s2)"
      "r = Some (StartFailed e tails)"
  | (ok) s1 where "snd (stop_process w name s) = s1" "start_process w name s1 = (None, s')" "r = None"
  using assms
  by (auto simp: restart_program_def with_program_log_tail_def apfst_def map_prod_def
      split: prod.splits option.splits if_splits)

lemma restart_program_ok:
  "restart_program w name s = (None, s') \<Longrightarrow> \<exists>s1. start_process w name s1 = (None, s')"
  by (erule restart_program_cases) auto

end
