(* ===== verification/Http_Reply.thy ===== *)
theory Http_Reply
  imports Supervisor_Client
begin

text \<open>
  What a handler answers: the status code and a body, where the text of an error message is kept as
  the error value it is made from.  \<open>NotRestarted\<close> is \<open>writeSupervisorErr\<close>'s body, the one that says
  \<open>saved: true\<close>.
\<close>

datatype ('e, 'v) body =
    ErrorBody 'e
  | NotRestarted restart_error
  | Body 'v
  | NoBody

type_synonym ('e, 'v) reply = "int \<times> ('e, 'v) body"

definition write_supervisor_err :: "restart_error \<Rightarrow> ('e, 'v) reply" where
  "write_supervisor_err e = (500, NotRestarted e)"

definition success :: "('e, 'v) reply \<Rightarrow> bool" where
  "success r \<longleftrightarrow> 200 \<le> fst r \<and> fst r < 300"

lemma success_simps [simp]: "success (c, b) \<longleftrightarrow> 200 \<le> c \<and> c < 300"
  "\<not> success (write_supervisor_err e)"
  by (simp_all add: success_def write_supervisor_err_def)

text \<open>An error answer that does not say the change was saved.\<close>

definition refusal :: "('e, 'v) reply \<Rightarrow> bool" where
  "refusal r \<longleftrightarrow> 400 \<le> fst r \<and> (\<forall>e. snd r \<noteq> NotRestarted e)"

lemma refusal_simps [simp]:
  "refusal (c, ErrorBody e) \<longleftrightarrow> 400 \<le> c" "\<not> refusal (write_supervisor_err f)" "success r \<Longrightarrow> \<not> refusal r"
  by (auto simp: refusal_def write_supervisor_err_def success_def)

text \<open>
  The end of every handler that changes a program's configuration: once the change is on disk the program
  is restarted, seeing the files as they are now, and the answer says whether that worked.
\<close>

definition restart_and_reply ::
    "('f \<Rightarrow> 's wire) \<Rightarrow> string \<Rightarrow> ('e, 'v) reply \<Rightarrow> 'f \<times> 's \<Rightarrow> ('e, 'v) reply \<times> 'f \<times> 's" where
  "restart_and_reply w name done_reply =
     (\<lambda>(fs, s).
       case restart_program (w fs) name s of
         (Some e, s') \<Rightarrow> (write_supervisor_err e, fs, s')
       | (None, s') \<Rightarrow> (done_reply, fs, s'))"

text \<open>\<open>restarted w name fs s\<close>: \<open>s\<close> is what a successful start of the program, reading \<open>fs\<close>, left.\<close>

definition restarted :: "('f \<Rightarrow> 's wire) \<Rightarrow> string \<Rightarrow> 'f \<Rightarrow> 's \<Rightarrow> bool" where
  "restarted w name fs s \<longleftrightarrow> (\<exists>s0. start_process (w fs) name s0 = (None, s))"

lemma restart_and_reply_cases:
  assumes "restart_and_reply w name d (fs, s) = (r, fs', s')"
  obtains (ok) "r = d" "fs' = fs" "restarted w name fs s'"
  | (failed) e where "r = write_supervisor_err e" "fs' = fs"
  using assms restart_program_ok [of "w fs" name s]
  by (auto simp: restart_and_reply_def restarted_def split: prod.splits option.splits)

text \<open>A handler that runs an operation on the configuration, then restarts the program that reads it.\<close>

definition change_and_restart ::
    "('f \<Rightarrow> 's wire) \<Rightarrow> string \<Rightarrow> ('x \<Rightarrow> ('e, 'v) reply) \<Rightarrow> ('r \<Rightarrow> ('e, 'v) reply) \<Rightarrow>
       ('f \<Rightarrow> ('x + 'r) \<times> 'f) \<Rightarrow> 'f \<times> 's \<Rightarrow> ('e, 'v) reply \<times> 'f \<times> 's" where
  "change_and_restart w name refuse accept op =
     (\<lambda>(fs, s).
       case op fs of
         (Inl e, fs') \<Rightarrow> (refuse e, fs', s)
       | (Inr v, fs') \<Rightarrow> restart_and_reply w name (accept v) (fs', s))"

lemma change_and_restart_cases:
  assumes "change_and_restart w name refuse accept op (fs, s) = (r, fs', s')"
  obtains (refused) e where "op fs = (Inl e, fs')" "r = refuse e" "s' = s"
  | (accepted) v where "op fs = (Inr v, fs')" "r = accept v" "restarted w name fs' s'"
  | (saved) v e where "op fs = (Inr v, fs')" "r = write_supervisor_err e"
  using assms
  by (auto simp: change_and_restart_def split: prod.splits sum.splits elim!: restart_and_reply_cases)

text \<open>A wire whose daemon answers every call with an empty response: for concrete runs.\<close>

definition calm_wire :: "unit wire" where
  "calm_wire = \<lparr>round_trip = (\<lambda>_ s. (Some [], s)),
     decode_xml = (\<lambda>_. Some \<lparr>mr_params = None, mr_fault = None\<rparr>)\<rparr>"

lemma calm_call [simp]: "call calm_wire m ps s = (Inr zero_value, s)"
  by (simp add: call_def calm_wire_def)

lemma calm_restart [simp]: "restart_program calm_wire name s = (None, s)"
  by (simp add: restart_program_def stop_process_def start_process_def void_def)

end
