(* ===== verification/Netgate_Api.thy ===== *)
theory Netgate_Api
  imports Netgate Http_Reply
begin

text \<open>
  \<open>handlers_netgate.go\<close>: the HTTP layer over the live configuration.  A decoded request body is \<open>None\<close> when
  its JSON does not decode.
\<close>

datatype ng_message = NgBody | NotANumber | NgFailed netgate_error

datatype ng_value =
    NgRules "outbound_rule slice"
  | NgForwards "forward slice"
  | NgForward forward
  | NgBandwidth bandwidth

type_synonym ng_reply = "(ng_message, ng_value) reply"

text \<open>The body of an answer to an error, and the answer to a result.\<close>

definition ng_fail :: "int \<Rightarrow> netgate_error \<Rightarrow> ng_reply" where
  "ng_fail c e = (c, ErrorBody (NgFailed e))"

definition ng_answer :: "(netgate_error \<Rightarrow> int) \<Rightarrow> ('a \<Rightarrow> ng_reply) \<Rightarrow> 'a checked \<Rightarrow> ng_reply" where
  "ng_answer status ok res = (case res of Inl e \<Rightarrow> ng_fail (status e) e | Inr v \<Rightarrow> ok v)"

definition handle_list_netgate_outbound :: "'b ng_codec \<Rightarrow> 'b os \<Rightarrow> 'b fs \<Rightarrow> ng_reply" where
  "handle_list_netgate_outbound cd os fs =
     ng_answer (\<lambda>_. 500) (\<lambda>rules. (200, Body (NgRules rules))) (list_outbound cd os live_config_path fs)"

definition handle_replace_netgate_outbound ::
    "'b ng_codec \<Rightarrow> 'b os \<Rightarrow> outbound_rule slice option \<Rightarrow> 'b fs \<Rightarrow> ng_reply \<times> 'b fs" where
  "handle_replace_netgate_outbound cd os body fs =
     (case body of
        None \<Rightarrow> ((400, ErrorBody NgBody), fs)
      | Some rules \<Rightarrow>
          apfst (ng_answer (\<lambda>e. case e of ErrInvalidAction \<Rightarrow> 400 | ErrValidation _ \<Rightarrow> 400 | _ \<Rightarrow> 500)
              (\<lambda>v. (200, Body (NgRules v))))
            (replace_outbound cd os live_config_path rules fs))"

definition handle_list_netgate_forwards :: "'b ng_codec \<Rightarrow> 'b os \<Rightarrow> 'b fs \<Rightarrow> ng_reply" where
  "handle_list_netgate_forwards cd os fs =
     ng_answer (\<lambda>_. 500) (\<lambda>fwds. (200, Body (NgForwards fwds))) (list_forwards cd os live_config_path fs)"

definition handle_add_netgate_forward ::
    "env \<Rightarrow> 'b ng_codec \<Rightarrow> 'b os \<Rightarrow> forward option \<Rightarrow> 'b fs \<Rightarrow> ng_reply \<times> 'b fs" where
  "handle_add_netgate_forward env cd os body fs =
     (case body of
        None \<Rightarrow> ((400, ErrorBody NgBody), fs)
      | Some f \<Rightarrow>
          apfst (ng_answer (\<lambda>e. case e of ErrForwardExists \<Rightarrow> 409 | ErrValidation _ \<Rightarrow> 400 | _ \<Rightarrow> 500)
              (\<lambda>v. (201, Body (NgForward v))))
            (add_forward env cd os live_config_path f fs))"

definition handle_get_netgate_bandwidth :: "'b ng_codec \<Rightarrow> 'b os \<Rightarrow> 'b fs \<Rightarrow> ng_reply" where
  "handle_get_netgate_bandwidth cd os fs =
     ng_answer (\<lambda>_. 500) (\<lambda>bw. (200, Body (NgBandwidth bw))) (get_bandwidth cd os live_config_path fs)"

definition handle_set_netgate_bandwidth ::
    "'b ng_codec \<Rightarrow> 'b os \<Rightarrow> bandwidth option \<Rightarrow> 'b fs \<Rightarrow> ng_reply \<times> 'b fs" where
  "handle_set_netgate_bandwidth cd os body fs =
     (case body of
        None \<Rightarrow> ((400, ErrorBody NgBody), fs)
      | Some bw \<Rightarrow>
          apfst (ng_answer (\<lambda>e. case e of ErrValidation _ \<Rightarrow> 400 | _ \<Rightarrow> 500) (\<lambda>v. (200, Body (NgBandwidth v))))
            (set_bandwidth cd os live_config_path bw fs))"

definition handle_delete_netgate_forward ::
    "'b ng_codec \<Rightarrow> 'b os \<Rightarrow> string \<Rightarrow> 'b fs \<Rightarrow> ng_reply \<times> 'b fs" where
  "handle_delete_netgate_forward cd os host_port_text fs =
     (case parse_int host_port_text of
        None \<Rightarrow> ((400, ErrorBody NotANumber), fs)
      | Some p \<Rightarrow>
          apfst (ng_answer (\<lambda>e. case e of ErrForwardNotFound \<Rightarrow> 404 | _ \<Rightarrow> 500) (\<lambda>_. (204, NoBody)))
            (delete_forward cd os live_config_path p fs))"

section \<open>The answers and the document\<close>

datatype ng_call =
    PutOutbound "outbound_rule slice option"
  | PostForward "forward option"
  | PutBandwidth "bandwidth option"
  | RemoveForward string

fun ng_api :: "env \<Rightarrow> 'b ng_codec \<Rightarrow> 'b os \<Rightarrow> ng_call \<Rightarrow> 'b fs \<Rightarrow> ng_reply \<times> 'b fs" where
  "ng_api env cd os (PutOutbound b) fs = handle_replace_netgate_outbound cd os b fs"
| "ng_api env cd os (PostForward b) fs = handle_add_netgate_forward env cd os b fs"
| "ng_api env cd os (PutBandwidth b) fs = handle_set_netgate_bandwidth cd os b fs"
| "ng_api env cd os (RemoveForward p) fs = handle_delete_netgate_forward cd os p fs"

text \<open>What the abstract document becomes when a req is accepted, and the document it is accepted on.\<close>

fun ng_effect :: "env \<Rightarrow> ng_call \<Rightarrow> netgate_config \<Rightarrow> netgate_config option" where
  "ng_effect env (PutOutbound (Some rs)) c =
     (if check_outbound (elems rs) = Inr () then Some (c\<lparr>outbound := rs\<rparr>) else None)"
| "ng_effect env (PostForward (Some f)) c =
     (if check_forward env f = Inr () then map_option (\<lambda>fs. c\<lparr>forwards := Some fs\<rparr>) (insert_entry host_port f (elems (forwards c)))
      else None)"
| "ng_effect env (PutBandwidth (Some bw)) c = (if check_bandwidth bw = Inr () then Some (c\<lparr>band := bw\<rparr>) else None)"
| "ng_effect env (RemoveForward t) c =
     (case parse_int t of
        None \<Rightarrow> None
      | Some p \<Rightarrow> map_option (\<lambda>fs. c\<lparr>forwards := Some fs\<rparr>) (remove_entry host_port p (elems (forwards c))))"
| "ng_effect env _ c = None"

definition ng_stored :: "'b ng_codec \<Rightarrow> 'b fs \<Rightarrow> netgate_config option" where
  "ng_stored cd fs = stored_doc cd empty_config live_config_path fs"

definition ng_kept :: "env \<Rightarrow> 'b ng_codec \<Rightarrow> ng_call \<Rightarrow> 'b fs \<Rightarrow> ng_reply \<times> 'b fs \<Rightarrow> bool" where
  "ng_kept env cd req fs res =
     (case res of (r, fs') \<Rightarrow>
        if success r
        then (\<exists>c c'. ng_stored cd fs = Some c \<and> ng_effect env req c = Some c' \<and> ng_stored cd fs' = reread_doc cd c')
        else ng_stored cd fs' = ng_stored cd fs \<and>
          (if fst r = 500 then \<exists>e. snd r = ErrorBody (NgFailed (StoreError e))
           else 400 \<le> fst r \<and> (\<forall>c. ng_stored cd fs = Some c \<longrightarrow> ng_effect env req c = None)))"

lemma ng_kept_refused:
  assumes "400 \<le> c" "c \<noteq> 500" "\<And>c. ng_effect env req c = None"
  shows "ng_kept env cd req fs ((c, ErrorBody m), fs)"
  using assms by (simp add: ng_kept_def)

lemma ng_kept_answer:
  assumes m: "modify_doc (netgate_load cd os live_config_path) (netgate_save cd os live_config_path) change fs = (res, fs')"
    and c: "\<And>c c' v. change c = Inr (c', v) \<Longrightarrow> ng_effect env req c = Some c'"
    and e: "\<And>c e. change c = Inl e \<Longrightarrow> ng_effect env req c = None \<and> 400 \<le> status e \<and> status e \<noteq> 500"
    and st: "\<And>e. status (StoreError e) = 500" and ok: "\<And>v. success (ok v)"
  shows "ng_kept env cd req fs (ng_answer status ok res, fs')"
proof (cases res)
  case (Inl err)
  have keep: "ng_stored cd fs' = ng_stored cd fs"
    using ng.modify_failed [of cd os live_config_path change fs err fs'] m Inl by (simp add: ng_stored_def)
  consider (store) x where "err = StoreError x"
    | (change) c where "ng_stored cd fs = Some c" "change c = Inl err"
    using m [unfolded Inl] ng.load_stored [of cd os live_config_path fs]
    by (elim modify_doc_err_cases)
      (auto simp: netgate_load_def netgate_save_def res_simps ng_stored_def apfst_def map_prod_def split: prod.splits)
  then show ?thesis
  proof cases
    case store
    then show ?thesis using keep st by (simp add: Inl ng_kept_def ng_answer_def ng_fail_def)
  next
    case change
    then show ?thesis using keep e [OF change(2)] by (simp add: Inl ng_kept_def ng_answer_def ng_fail_def)
  qed
next
  case (Inr v)
  then show ?thesis
    using ng.modify_ok [of cd os live_config_path change fs v fs'] m ok [of v] c
    by (fastforce simp: ng_kept_def ng_answer_def ng_stored_def)
qed

lemma ng_kept_modify:
  assumes "\<And>c c' v. change c = Inr (c', v) \<Longrightarrow> ng_effect env req c = Some c'"
    and "\<And>c e. change c = Inl e \<Longrightarrow> ng_effect env req c = None \<and> 400 \<le> status e \<and> status e \<noteq> 500"
    and "\<And>e. status (StoreError e) = 500" and "\<And>v. success (ok v)"
  shows "ng_kept env cd req fs (apfst (ng_answer status ok)
    (modify_doc (netgate_load cd os live_config_path) (netgate_save cd os live_config_path) change fs))"
proof -
  obtain res fs' where m: "modify_doc (netgate_load cd os live_config_path) (netgate_save cd os live_config_path) change fs =
      (res, fs')" by (meson surj_pair)
  show ?thesis unfolding m apfst_conv by (rule ng_kept_answer [OF m]) (fact assms)+
qed

lemma ng_kept_input:
  assumes "400 \<le> status e" "status e \<noteq> 500" "\<And>c. ng_effect env req c = None"
  shows "ng_kept env cd req fs (apfst (ng_answer status ok) (Inl e, fs))"
  using assms by (simp add: ng_answer_def ng_fail_def ng_kept_refused)

text \<open>What the validation answers.\<close>

definition input_error :: "netgate_error \<Rightarrow> bool" where
  "input_error e \<longleftrightarrow> e = ErrInvalidAction \<or> (\<exists>x. e = ErrValidation x)"

lemma check_rule_error: "check_rule r = Inl e \<Longrightarrow> input_error e"
  by (auto simp: check_rule_def input_error_def validate_cidr_def split: if_splits option.splits prod.splits)

lemma scan_private_error: "scan_private priv b rules = Inl e \<Longrightarrow> input_error e"
  by (induction priv b rules rule: scan_private.induct)
    (auto simp: input_error_def split: if_splits option.splits)

lemma backstop_error:
  "check_private rules priv = Inl e \<Longrightarrow> input_error e" "check_fixed r = Inl e \<Longrightarrow> input_error e"
  by (auto simp: check_private_def check_fixed_def res_simps input_error_def [of "ErrValidation x" for x]
      dest!: scan_private_error each_eq_InlD split: option.splits if_splits)

lemma check_outbound_error: "check_outbound rules = Inl e \<Longrightarrow> input_error e"
  by (auto simp: check_outbound_def check_v4_backstop_def res_simps
      dest!: each_eq_InlD dest: check_rule_error backstop_error)

lemma outbound_status:
  "check_outbound rules = Inl e \<Longrightarrow> (case e of ErrInvalidAction \<Rightarrow> 400 | ErrValidation _ \<Rightarrow> 400 | _ \<Rightarrow> 500) = (400 :: int)"
  by (auto simp: input_error_def dest!: check_outbound_error)

lemma check_fwd_host_error: "validate_fwd_host fld h = Inl e \<Longrightarrow> \<exists>x. e = ErrValidation x"
  by (auto simp: validate_fwd_host_def split: if_splits)

lemma check_forward_error: "check_forward env f = Inl e \<Longrightarrow> \<exists>x. e = ErrValidation x"
  by (auto simp: check_forward_def validate_port_def res_simps dest: check_fwd_host_error split: if_splits)

lemma check_services_error: "check_services seen ss = Inl e \<Longrightarrow> \<exists>x. e = ErrValidation x"
  by (induction seen ss rule: check_services.induct)
    (auto simp: res_simps dest: check_fwd_host_error split: if_splits)

lemma check_bandwidth_error: "check_bandwidth bw = Inl e \<Longrightarrow> \<exists>x. e = ErrValidation x"
  by (auto simp: check_bandwidth_def dest: check_services_error split: if_splits)

lemma outbound_kept: "ng_kept env cd (PutOutbound b) fs (ng_api env cd os (PutOutbound b) fs)"
proof (cases "\<exists>rs. b = Some rs \<and> check_outbound (elems rs) = Inr ()")
  case True
  then show ?thesis
    by (auto simp: handle_replace_netgate_outbound_def replace_outbound_def set_outbound_def
        intro!: ng_kept_modify)
next
  case False
  show ?thesis
    by (cases b; cases "check_outbound (elems (the b))"; use False in
      \<open>auto simp: handle_replace_netgate_outbound_def replace_outbound_def outbound_status
        simp del: apfst_conv intro!: ng_kept_input ng_kept_refused\<close>)
qed

lemma forward_kept: "ng_kept env cd (PostForward b) fs (ng_api env cd os (PostForward b) fs)"
proof (cases "\<exists>f. b = Some f \<and> check_forward env f = Inr ()")
  case True
  then show ?thesis
    by (auto simp: handle_add_netgate_forward_def add_forward_def put_forward_def
        intro!: ng_kept_modify split: option.splits)
next
  case False
  show ?thesis
    by (cases b; cases "check_forward env (the b)"; use False in
      \<open>auto simp: handle_add_netgate_forward_def add_forward_def
        simp del: apfst_conv intro!: ng_kept_input ng_kept_refused dest: check_forward_error\<close>)
qed

lemma bandwidth_kept: "ng_kept env cd (PutBandwidth b) fs (ng_api env cd os (PutBandwidth b) fs)"
proof (cases "\<exists>bw. b = Some bw \<and> check_bandwidth bw = Inr ()")
  case True
  then show ?thesis
    by (auto simp: handle_set_netgate_bandwidth_def set_bandwidth_def put_bandwidth_def
        intro!: ng_kept_modify)
next
  case False
  show ?thesis
    by (cases b; cases "check_bandwidth (the b)"; use False in
      \<open>auto simp: handle_set_netgate_bandwidth_def set_bandwidth_def
        simp del: apfst_conv intro!: ng_kept_input ng_kept_refused dest: check_bandwidth_error\<close>)
qed

lemma removal_kept: "ng_kept env cd (RemoveForward t) fs (ng_api env cd os (RemoveForward t) fs)"
  by (cases "parse_int t")
    (auto simp: handle_delete_netgate_forward_def delete_forward_def drop_forward_def
      intro!: ng_kept_refused ng_kept_modify split: option.splits)

lemmas call_kept = outbound_kept forward_kept bandwidth_kept removal_kept

text \<open>
  C12.  The HTTP layer of netgate implements the abstract document: an answer 2xx means the document is the one the
  call makes of the stored one, as the codec reads it back; any other answer leaves it.  A 500 is an error of
  the store, and every other refusal is of a call the stored document does not admit.
\<close>

theorem netgate_api_refines:
  assumes "ng_api env cd os req fs = (r, fs')"
  shows "if success r
    then (\<exists>c c'. ng_stored cd fs = Some c \<and> ng_effect env req c = Some c' \<and> ng_stored cd fs' = reread_doc cd c')
    else ng_stored cd fs' = ng_stored cd fs \<and>
      (if fst r = 500 then \<exists>e. snd r = ErrorBody (NgFailed (StoreError e))
       else 400 \<le> fst r \<and> (\<forall>c. ng_stored cd fs = Some c \<longrightarrow> ng_effect env req c = None))"
proof -
  have "ng_kept env cd req fs (ng_api env cd os req fs)" by (cases req) (simp_all only: call_kept)
  then show ?thesis using assms by (simp add: ng_kept_def)
qed

theorem netgate_api_refines_witness:
  "\<exists>r fs'. ng_api no_env sample_codec quiet_os (PostForward (Some sample_forward)) (config_fs sample_config) = (r, fs') \<and>
    fst r = 201 \<and> (\<exists>c'. ng_effect no_env (PostForward (Some sample_forward)) (norm_config sample_config) = Some c' \<and>
      ng_stored sample_codec fs' = Some (norm_config c'))"
proof -
  let ?r = "(201, Body (NgForward sample_forward)) :: ng_reply"
  let ?fs' = "config_fs (norm_config sample_config\<lparr>forwards := Some [sample_forward]\<rparr>)"
  have run: "ng_api no_env sample_codec quiet_os (PostForward (Some sample_forward)) (config_fs sample_config) = (?r, ?fs')"
    by (simp add: handle_add_netgate_forward_def sample_add ng_answer_def)
  from netgate_api_refines [OF run] show ?thesis
    using run by (auto simp: ng_stored_def stored_config_fs)
qed

end
