(* ===== verification/Key_Lock.thy ===== *)
theory Key_Lock
  imports Go_Prelude
begin

text \<open>
  \<open>Gate.lockKey\<close> in \<open>internal/authgate/gate.go\<close>: one mutex per key with an attempt in flight, created on
  demand and dropped by the last user.  Request goroutines are numbered; a step of one of them is one
  critical section of the code: \<open>enter\<close> and \<open>leave\<close> run under \<open>keyLocksMu\<close>, \<open>acquire\<close> and \<open>release\<close> are
  \<open>l.mu.Lock()\<close> and \<open>l.mu.Unlock()\<close>.  Lock objects have identities, so an entry dropped and created
  again is another lock.
\<close>

datatype phase = Idle | Waits string nat | Holds string nat | Releases string nat

record key_locks =
  table :: "string \<Rightarrow> nat option"
  refs :: "nat \<Rightarrow> nat"
  next_lock :: nat
  phase_of :: "nat \<Rightarrow> phase"

definition no_locks :: key_locks where
  "no_locks = \<lparr>table = (\<lambda>_. None), refs = (\<lambda>_. 0), next_lock = 0, phase_of = (\<lambda>_. Idle)\<rparr>"

text \<open>The first critical section: find or create the entry and count one more user.\<close>

definition enter_key :: "nat \<Rightarrow> string \<Rightarrow> key_locks \<Rightarrow> key_locks" where
  "enter_key t k s =
     (case table s k of
        Some l \<Rightarrow>
          s\<lparr>refs := (refs s)(l := refs s l + 1), phase_of := (phase_of s)(t := Waits k l)\<rparr>
      | None \<Rightarrow>
          s\<lparr>table := (table s)(k \<mapsto> next_lock s), refs := (refs s)(next_lock s := 1),
            next_lock := next_lock s + 1, phase_of := (phase_of s)(t := Waits k (next_lock s))\<rparr>)"

definition held :: "key_locks \<Rightarrow> nat \<Rightarrow> bool" where
  "held s l \<longleftrightarrow> (\<exists>t k. phase_of s t = Holds k l)"

definition set_phase :: "nat \<Rightarrow> phase \<Rightarrow> key_locks \<Rightarrow> key_locks" where
  "set_phase t p s = s\<lparr>phase_of := (phase_of s)(t := p)\<rparr>"

text \<open>The last critical section: one user fewer, and the entry of the key goes with the last.\<close>

definition leave_key :: "nat \<Rightarrow> string \<Rightarrow> nat \<Rightarrow> key_locks \<Rightarrow> key_locks" where
  "leave_key t k l s =
     s\<lparr>refs := (refs s)(l := refs s l - 1),
       table := (if refs s l - 1 = 0 then (table s)(k := None) else table s),
       phase_of := (phase_of s)(t := Idle)\<rparr>"

inductive lock_step :: "key_locks \<Rightarrow> key_locks \<Rightarrow> bool" where
  enter: "phase_of s t = Idle \<Longrightarrow> lock_step s (enter_key t k s)"
| acquire: "phase_of s t = Waits k l \<Longrightarrow> \<not> held s l \<Longrightarrow> lock_step s (set_phase t (Holds k l) s)"
| release: "phase_of s t = Holds k l \<Longrightarrow> lock_step s (set_phase t (Releases k l) s)"
| leave: "phase_of s t = Releases k l \<Longrightarrow> lock_step s (leave_key t k l s)"

inductive lock_reach :: "key_locks \<Rightarrow> bool" where
  start: "lock_reach no_locks"
| step: "lock_reach s \<Longrightarrow> lock_step s s' \<Longrightarrow> lock_reach s'"

section \<open>The invariant\<close>

text \<open>The lock a goroutine counts for.\<close>

fun lock_of :: "phase \<Rightarrow> (string \<times> nat) option" where
  "lock_of Idle = None"
| "lock_of (Waits k l) = Some (k, l)"
| "lock_of (Holds k l) = Some (k, l)"
| "lock_of (Releases k l) = Some (k, l)"

definition users :: "key_locks \<Rightarrow> string \<Rightarrow> nat \<Rightarrow> nat set" where
  "users s k l = {t. lock_of (phase_of s t) = Some (k, l)}"

definition locks_inv :: "key_locks \<Rightarrow> bool" where
  "locks_inv s \<longleftrightarrow>
     finite {t. phase_of s t \<noteq> Idle} \<and>
     (\<forall>t k l. lock_of (phase_of s t) = Some (k, l) \<longrightarrow> table s k = Some l) \<and>
     (\<forall>k l. table s k = Some l \<longrightarrow> l < next_lock s \<and> refs s l = card (users s k l) \<and> users s k l \<noteq> {}) \<and>
     (\<forall>k k' l. table s k = Some l \<longrightarrow> table s k' = Some l \<longrightarrow> k = k') \<and>
     (\<forall>t u k l. phase_of s t = Holds k l \<longrightarrow> phase_of s u = Holds k l \<longrightarrow> t = u)"

lemma locks_invD:
  assumes "locks_inv s"
  shows "finite {t. phase_of s t \<noteq> Idle}"
    and "lock_of (phase_of s t) = Some (k, l) \<Longrightarrow> table s k = Some l"
    and "table s k = Some l \<Longrightarrow> l < next_lock s"
    and "table s k = Some l \<Longrightarrow> refs s l = card (users s k l)"
    and "table s k = Some l \<Longrightarrow> users s k l \<noteq> {}"
    and "table s k = Some l \<Longrightarrow> table s k' = Some l \<Longrightarrow> k = k'"
    and "phase_of s t = Holds k l \<Longrightarrow> phase_of s u = Holds k l \<Longrightarrow> t = u"
  using assms unfolding locks_inv_def by blast+

lemma users_finite: "locks_inv s \<Longrightarrow> finite (users s k l)"
  by (rule finite_subset [OF _ locks_invD(1)]) (auto simp: users_def)

lemma users_rephase:
  "lock_of p = lock_of (phase_of s t) \<Longrightarrow> users (set_phase t p s) k l = users s k l"
  by (auto simp: users_def set_phase_def)

lemma inv_rephase:
  assumes inv: "locks_inv s" and p: "lock_of p = lock_of (phase_of s t)" "lock_of p = Some (k, l)"
    and h: "p = Holds k l \<Longrightarrow> \<not> held s l"
  shows "locks_inv (set_phase t p s)"
proof -
  have u: "users (set_phase t p s) k' l' = users s k' l'" for k' l' by (rule users_rephase [OF p(1)])
  have st: "table (set_phase t p s) = table s" "refs (set_phase t p s) = refs s"
    "next_lock (set_phase t p s) = next_lock s"
    "\<And>u. phase_of (set_phase t p s) u = (if u = t then p else phase_of s u)"
    by (simp_all add: set_phase_def)
  have "{u. phase_of (set_phase t p s) u \<noteq> Idle} \<subseteq> insert t {u. phase_of s u \<noteq> Idle}"
    by (auto simp: st split: if_splits)
  then have "finite {u. phase_of (set_phase t p s) u \<noteq> Idle}"
    by (rule finite_subset) (simp add: locks_invD(1) [OF inv])
  moreover have "table s k' = Some l'" if "lock_of (if u = t then p else phase_of s u) = Some (k', l')" for u k' l'
    using that p(1) locks_invD(2) [OF inv] by (auto split: if_splits)
  moreover have "u = v" if "(if u = t then p else phase_of s u) = Holds k' l'"
    "(if v = t then p else phase_of s v) = Holds k' l'" for u v k' l'
    using that p(2) h locks_invD(7) [OF inv] by (auto simp: held_def split: if_splits)
  ultimately show ?thesis
    unfolding locks_inv_def st u using locks_invD(3-6) [OF inv] by blast
qed

lemma inv_enter_known:
  assumes inv: "locks_inv s" and t: "phase_of s t = Idle" and Some: "table s k = Some l"
  shows "locks_inv (enter_key t k s)"
proof -
  have nt: "t \<notin> users s k' l'" for k' l' using t by (simp add: users_def)
  have s': "table (enter_key t k s) = table s" "refs (enter_key t k s) = (refs s)(l := refs s l + 1)"
    "next_lock (enter_key t k s) = next_lock s"
    "\<And>u. phase_of (enter_key t k s) u = (if u = t then Waits k l else phase_of s u)"
    by (simp_all add: enter_key_def Some)
  have u: "users (enter_key t k s) k' l' =
      (if (k', l') = (k, l) then insert t (users s k' l') else users s k' l')" for k' l'
    using t by (auto simp: users_def s')
  have "{v. phase_of (enter_key t k s) v \<noteq> Idle} \<subseteq> insert t {v. phase_of s v \<noteq> Idle}"
    by (auto simp: s' split: if_splits)
  then have "finite {v. phase_of (enter_key t k s) v \<noteq> Idle}"
    by (rule finite_subset) (simp add: locks_invD(1) [OF inv])
  moreover have "card (insert t (users s k l)) = refs s l + 1"
    using nt users_finite [OF inv] locks_invD(4) [OF inv Some] by simp
  moreover have kk: "k' = k" if "table s k' = Some l" for k'
    using that Some by (rule locks_invD(6) [OF inv])
  ultimately show ?thesis
    unfolding locks_inv_def
  proof (intro conjI allI impI)
    fix v k' l' assume "lock_of (phase_of (enter_key t k s) v) = Some (k', l')"
    then show "table (enter_key t k s) k' = Some l'"
      unfolding s' using Some locks_invD(2) [OF inv, of v k' l'] by (cases "v = t") simp_all
  next
    fix k' l' assume "table (enter_key t k s) k' = Some l'"
    then have b: "table s k' = Some l'" by (simp add: s')
    show "l' < next_lock (enter_key t k s)" using locks_invD(3) [OF inv b] by (simp add: s')
    have kl: "l' = l \<longleftrightarrow> k' = k"
    proof
      assume "l' = l"
      with b show "k' = k" by (intro kk) simp
    next
      assume "k' = k"
      with b Some show "l' = l" by simp
    qed
    show "refs (enter_key t k s) l' = card (users (enter_key t k s) k' l')"
      using kl \<open>card (insert t (users s k l)) = refs s l + 1\<close> locks_invD(4) [OF inv b]
      by (cases "k' = k") (simp_all add: s' u)
    show "users (enter_key t k s) k' l' \<noteq> {}" using locks_invD(5) [OF inv b] by (simp add: u)
  next
    fix k1 k2 l' assume "table (enter_key t k s) k1 = Some l'" "table (enter_key t k s) k2 = Some l'"
    then show "k1 = k2" using locks_invD(6) [OF inv] by (simp add: s')
  next
    fix v w k' l' assume "phase_of (enter_key t k s) v = Holds k' l'" "phase_of (enter_key t k s) w = Holds k' l'"
    then show "v = w" using locks_invD(7) [OF inv] by (simp add: s' split: if_splits)
  qed
qed

lemma inv_enter_fresh:
  assumes inv: "locks_inv s" and t: "phase_of s t = Idle" and None: "table s k = None"
  shows "locks_inv (enter_key t k s)"
proof -
  have s': "table (enter_key t k s) = (table s)(k \<mapsto> next_lock s)"
    "refs (enter_key t k s) = (refs s)(next_lock s := 1)"
    "next_lock (enter_key t k s) = next_lock s + 1"
    "\<And>u. phase_of (enter_key t k s) u = (if u = t then Waits k (next_lock s) else phase_of s u)"
    by (simp_all add: enter_key_def None)
  have e: "users s k l' = {}" for l' using locks_invD(2) [OF inv] None by (fastforce simp: users_def)
  have u: "users (enter_key t k s) k' l' =
      (if (k', l') = (k, next_lock s) then {t} else users s k' l')" for k' l'
    using t e by (auto simp: users_def s' split: if_splits)
  have "{v. phase_of (enter_key t k s) v \<noteq> Idle} \<subseteq> insert t {v. phase_of s v \<noteq> Idle}"
    by (auto simp: s' split: if_splits)
  then have "finite {v. phase_of (enter_key t k s) v \<noteq> Idle}"
    by (rule finite_subset) (simp add: locks_invD(1) [OF inv])
  moreover have "table s k' \<noteq> Some (next_lock s)" for k'
    using locks_invD(3) [OF inv, of k' "next_lock s"] by auto
  moreover have "l < next_lock s + 1" if "table s k' = Some l" for k' l
    using locks_invD(3) [OF inv that] by simp
  ultimately show ?thesis
    unfolding locks_inv_def s' u using None locks_invD(2-7) [OF inv]
    by (auto split: if_splits)
qed

lemma inv_enter: "locks_inv s \<Longrightarrow> phase_of s t = Idle \<Longrightarrow> locks_inv (enter_key t k s)"
  by (cases "table s k") (simp_all add: inv_enter_known inv_enter_fresh)

lemma inv_leave:
  assumes inv: "locks_inv s" and t: "phase_of s t = Releases k l"
  shows "locks_inv (leave_key t k l s)"
proof -
  have tab: "table s k = Some l" by (rule locks_invD(2) [OF inv, of t]) (simp add: t)
  have tu: "t \<in> users s k l" using t by (simp add: users_def)
  have s': "table (leave_key t k l s) = (if refs s l - 1 = 0 then (table s)(k := None) else table s)"
    "refs (leave_key t k l s) = (refs s)(l := refs s l - 1)"
    "next_lock (leave_key t k l s) = next_lock s"
    "\<And>u. phase_of (leave_key t k l s) u = (if u = t then Idle else phase_of s u)"
    by (simp_all add: leave_key_def)
  have u: "users (leave_key t k l s) k' l' =
      (if (k', l') = (k, l) then users s k l - {t} else users s k' l')" for k' l'
    using t by (auto simp: users_def s')
  have c: "refs s l - 1 = card (users s k l - {t})"
    using tu users_finite [OF inv] locks_invD(4) [OF inv tab] by simp
  have z: "refs s l - 1 = 0 \<longleftrightarrow> users s k l - {t} = {}"
    unfolding c using users_finite [OF inv] by simp
  have fin: "finite {v. phase_of (leave_key t k l s) v \<noteq> Idle}"
    by (rule finite_subset [OF _ locks_invD(1) [OF inv]]) (auto simp: s' split: if_splits)
  have keep: "table (leave_key t k l s) k' = Some l'"
    if "lock_of (if v = t then Idle else phase_of s v) = Some (k', l')" for v k' l'
  proof -
    from that have v: "v \<noteq> t" "lock_of (phase_of s v) = Some (k', l')" by (auto split: if_splits)
    then have "table s k' = Some l'" using locks_invD(2) [OF inv] by blast
    moreover have "k' = k \<Longrightarrow> refs s l - 1 \<noteq> 0"
      using v z tab calculation by (auto simp: users_def)
    ultimately show ?thesis by (auto simp: s')
  qed
  have tabD: "table s k' = Some l' \<and> (k' = k \<longrightarrow> refs s l - 1 \<noteq> 0)"
    if "table (leave_key t k l s) k' = Some l'" for k' l'
    using that by (auto simp: s' split: if_splits)
  show ?thesis
    unfolding locks_inv_def
  proof (intro conjI allI impI)
    fix k' l' assume a: "table (leave_key t k l s) k' = Some l'"
    note b = tabD [OF a]
    show "l' < next_lock (leave_key t k l s)" using locks_invD(3) [OF inv conjunct1 [OF b]] by (simp add: s')
    have kl: "l' = l \<longleftrightarrow> k' = k" using b tab locks_invD(6) [OF inv] by auto
    show "refs (leave_key t k l s) l' = card (users (leave_key t k l s) k' l')"
      using b kl c locks_invD(4) [OF inv] by (auto simp: s' u)
    show "users (leave_key t k l s) k' l' \<noteq> {}"
      using b kl z locks_invD(5) [OF inv] by (auto simp: u)
  next
    fix v k' l' assume "lock_of (phase_of (leave_key t k l s) v) = Some (k', l')"
    then show "table (leave_key t k l s) k' = Some l'" using keep [of v] by (simp add: s'(4))
  next
    fix k1 k2 l' assume "table (leave_key t k l s) k1 = Some l'" "table (leave_key t k l s) k2 = Some l'"
    then show "k1 = k2" using tabD locks_invD(6) [OF inv] by blast
  next
    fix v w k' l' assume "phase_of (leave_key t k l s) v = Holds k' l'" "phase_of (leave_key t k l s) w = Holds k' l'"
    then show "v = w" using locks_invD(7) [OF inv] by (auto simp: s' split: if_splits)
  qed (rule fin)
qed

lemma inv_no_locks: "locks_inv no_locks"
  by (simp add: locks_inv_def no_locks_def)

lemma inv_step: "lock_step s s' \<Longrightarrow> locks_inv s \<Longrightarrow> locks_inv s'"
proof (induction rule: lock_step.induct)
  case (acquire s t k l)
  then show ?case by (intro inv_rephase) auto
next
  case (release s t k l)
  then show ?case by (intro inv_rephase) auto
qed (simp_all add: inv_enter inv_leave)

lemma lock_reach_inv: "lock_reach s \<Longrightarrow> locks_inv s"
  by (induction rule: lock_reach.induct) (simp_all add: inv_no_locks inv_step)


section \<open>Exclusion and progress\<close>

text \<open>
  C14.  In every interleaving of the requests at most one of them is inside the section that checks the
  lockout, verifies and records, for one key.
\<close>

theorem key_lock_exclusive:
  assumes "lock_reach s"
  shows "finite {t. \<exists>l. phase_of s t = Holds k l} \<and> card {t. \<exists>l. phase_of s t = Holds k l} \<le> 1"
proof -
  note inv = lock_reach_inv [OF assms]
  have one: "t = u" if t: "phase_of s t = Holds k l" and u: "phase_of s u = Holds k m" for t u l m
  proof -
    have "table s k = Some l" "table s k = Some m"
      using t u by (auto intro: locks_invD(2) [OF inv, of t] locks_invD(2) [OF inv, of u])
    then have "l = m" by simp
    with t u show ?thesis by (auto intro: locks_invD(7) [OF inv])
  qed
  show ?thesis
  proof (cases "\<exists>t l. phase_of s t = Holds k l")
    case True
    then obtain t l where "phase_of s t = Holds k l" by blast
    then have "{t. \<exists>l. phase_of s t = Holds k l} = {t}" using one by auto
    then show ?thesis by simp
  qed simp
qed

definition two_requests :: key_locks where
  "two_requests =
     set_phase 1 (Holds ''a'' 0) (enter_key 2 ''b'' (enter_key 1 ''a'' no_locks))"

lemma two_requests_reach: "lock_reach two_requests"
proof -
  have "lock_step no_locks (enter_key 1 ''a'' no_locks)"
    by (rule lock_step.enter) (simp add: no_locks_def)
  moreover have "lock_step (enter_key 1 ''a'' no_locks) (enter_key 2 ''b'' (enter_key 1 ''a'' no_locks))"
    by (rule lock_step.enter) (simp add: no_locks_def enter_key_def)
  moreover have "lock_step (enter_key 2 ''b'' (enter_key 1 ''a'' no_locks)) two_requests"
    unfolding two_requests_def
    by (rule lock_step.acquire) (auto simp: no_locks_def enter_key_def held_def)
  ultimately show ?thesis by (meson lock_reach.intros)
qed

theorem key_lock_exclusive_witness:
  "phase_of two_requests 1 = Holds ''a'' 0 \<and>
   card {t. \<exists>l. phase_of two_requests t = Holds ''a'' l} \<le> 1"
  using key_lock_exclusive [OF two_requests_reach, of "''a''"]
  by (simp add: two_requests_def set_phase_def)

text \<open>
  C39.  No lock is leaked and none is lost: the table has an entry for a key exactly while a request for
  it is in flight, and while any request is in flight one of them can take its next step.
\<close>

theorem key_lock_live:
  assumes "lock_reach s"
  shows "(table s k \<noteq> None \<longleftrightarrow> (\<exists>t l. lock_of (phase_of s t) = Some (k, l))) \<and>
    (phase_of s t \<noteq> Idle \<longrightarrow>
       (\<exists>u s'. phase_of s u \<noteq> Idle \<and> phase_of s' u \<noteq> phase_of s u \<and> lock_step s s'))"
proof
  note inv = lock_reach_inv [OF assms]
  show "table s k \<noteq> None \<longleftrightarrow> (\<exists>t l. lock_of (phase_of s t) = Some (k, l))"
    using locks_invD(2) [OF inv] locks_invD(5) [OF inv] by (fastforce simp: users_def)
  have hold: "\<exists>u s'. phase_of s u \<noteq> Idle \<and> phase_of s' u \<noteq> phase_of s u \<and> lock_step s s'"
    if "phase_of s v = Holds j m" for v j m
    using lock_step.release [OF that] that
    by (intro exI [of _ v] exI [of _ "set_phase v (Releases j m) s"]) (simp add: set_phase_def)
  show "phase_of s t \<noteq> Idle \<longrightarrow>
     (\<exists>u s'. phase_of s u \<noteq> Idle \<and> phase_of s' u \<noteq> phase_of s u \<and> lock_step s s')"
  proof
    assume "phase_of s t \<noteq> Idle"
    then show "\<exists>u s'. phase_of s u \<noteq> Idle \<and> phase_of s' u \<noteq> phase_of s u \<and> lock_step s s'"
    proof (cases "phase_of s t")
      case (Waits j m)
      show ?thesis
      proof (cases "held s m")
        case True
        then show ?thesis using hold by (auto simp: held_def)
      next
        case False
        then show ?thesis using lock_step.acquire [OF Waits False] Waits
          by (intro exI [of _ t] exI [of _ "set_phase t (Holds j m) s"]) (simp add: set_phase_def)
      qed
    next
      case (Holds j m)
      then show ?thesis by (rule hold)
    next
      case (Releases j m)
      then show ?thesis using lock_step.leave [OF Releases]
        by (intro exI [of _ t] exI [of _ "leave_key t j m s"]) (simp add: leave_key_def)
    qed simp
  qed
qed

theorem key_lock_live_witness:
  "table two_requests ''a'' \<noteq> None \<and>
   (\<exists>u s'. phase_of two_requests u \<noteq> Idle \<and> phase_of s' u \<noteq> phase_of two_requests u \<and>
      lock_step two_requests s')"
proof -
  have h: "phase_of two_requests 1 = Holds ''a'' 0" by (simp add: two_requests_def set_phase_def)
  then have "lock_of (phase_of two_requests 1) = Some (''a'', 0)" by simp
  then have "\<exists>t l. lock_of (phase_of two_requests t) = Some (''a'', l)" by blast
  with key_lock_live [OF two_requests_reach, of "''a''" 1] h show ?thesis by simp
qed

end
