(* ===== verification/Go_Filepath.thy ===== *)
theory Go_Filepath
  imports Atomic_File
begin

text \<open>Package \<open>path/filepath\<close> on absolute paths, and what \<open>os.ReadDir\<close> returns.\<close>

text \<open>\<open>filepath.Clean\<close> on an absolute path, and \<open>filepath.Join\<close> with a nonempty second element.\<close>

fun clean_parts :: "string list \<Rightarrow> string list \<Rightarrow> string list" where
  "clean_parts acc [] = rev acc"
| "clean_parts acc (p # ps) =
     (if p = [] \<or> p = ''.'' then clean_parts acc ps
      else if p = ''..'' then clean_parts (tl acc) ps
      else clean_parts (p # acc) ps)"

definition clean_abs :: "string \<Rightarrow> string" where
  "clean_abs p = CHR ''/'' # join ''/'' (clean_parts [] (split_on CHR ''/'' p))"

definition path_join :: "string \<Rightarrow> string \<Rightarrow> string" where
  "path_join dir name = clean_abs (dir @ CHR ''/'' # name)"

text \<open>A directory written in its cleaned form.\<close>

definition clean_dir :: "string \<Rightarrow> bool" where
  "clean_dir dir \<longleftrightarrow>
     (\<exists>ps. ps \<noteq> [] \<and> dir = CHR ''/'' # join ''/'' ps \<and>
        (\<forall>p \<in> set ps. p \<noteq> [] \<and> p \<noteq> ''.'' \<and> p \<noteq> ''..'' \<and> CHR ''/'' \<notin> set p))"

lemma clean_parts_plain:
  "(\<And>p. p \<in> set ps \<Longrightarrow> p \<noteq> [] \<and> p \<noteq> ''.'' \<and> p \<noteq> ''..'') \<Longrightarrow> clean_parts acc ps = rev acc @ ps"
  by (induction ps arbitrary: acc) auto

lemma join_snoc: "ps \<noteq> [] \<Longrightarrow> join sep (ps @ [p]) = join sep ps @ sep @ p"
  by (induction sep ps rule: join.induct) auto

lemma path_join_plain:
  assumes "clean_dir dir" "CHR ''/'' \<notin> set n" "n \<noteq> []" "n \<noteq> ''.''" "n \<noteq> ''..''"
  shows "path_join dir n = dir @ CHR ''/'' # n"
proof -
  obtain ps where ps: "ps \<noteq> []" "dir = CHR ''/'' # join ''/'' ps"
    "\<And>p. p \<in> set ps \<Longrightarrow> p \<noteq> [] \<and> p \<noteq> ''.'' \<and> p \<noteq> ''..'' \<and> CHR ''/'' \<notin> set p"
    using assms(1) unfolding clean_dir_def by blast
  have j: "join ''/'' (ps @ [n]) = join ''/'' ps @ CHR ''/'' # n" using ps(1) by (simp add: join_snoc)
  have "split_on CHR ''/'' (join ''/'' (ps @ [n])) = ps @ [n]"
    by (rule split_on_join) (use assms(2) ps(3) in auto)
  then have "split_on CHR ''/'' (dir @ CHR ''/'' # n) = [] # ps @ [n]" by (simp add: ps(2) j)
  moreover have "clean_parts [] (ps @ [n]) = ps @ [n]"
    by (subst clean_parts_plain) (use assms(3-5) ps(3) in auto)
  ultimately show ?thesis by (simp add: path_join_def clean_abs_def ps(2) j)
qed

text \<open>What \<open>os.ReadDir\<close> returned: names in order, with whether each is a directory.\<close>

datatype listing = DirMissing | DirFailed io_error | Entries "(string \<times> bool) list"

end
