(* ===== verification/Caddy_Fragments.thy ===== *)
theory Caddy_Fragments
  imports Go_Filepath Go_Regexp "HOL-Library.Char_ord" "HOL-Library.List_Lexorder"
begin

text \<open>
  What \<open>internal/devproxy\<close> and \<open>internal/approutes\<close> do with their fragment directories, which is the
  same code twice: write a fragment and have Caddy check the tree, roll back when it refuses, reload,
  list the fragments and repair the old ones.  The two packages differ in the template (its \<open>Render\<close> and
  \<open>parseStructured\<close>), which is the argument of these definitions; the locale \<open>fragment_template\<close> states
  what they rely on.

  A \<open>site\<close> is the file system together with the configuration the running Caddy serves: the tree it
  loaded last.  The \<open>caddy\<close> commands are the parameter \<open>caddy\<close> (\<open>Some msg\<close> is a failure).  The packages take no lock:
  each operation, and each pass of the repair over a directory, is one transition that runs alone.
\<close>

section \<open>Paths\<close>

definition fragment_path :: "string \<Rightarrow> string \<Rightarrow> string" where
  "fragment_path dir name = path_join dir (name @ ''.caddy'')"

lemma fragment_path_plain:
  "clean_dir dir \<Longrightarrow> CHR ''/'' \<notin> set n \<Longrightarrow> fragment_path dir n = dir @ CHR ''/'' # n @ ''.caddy''"
  unfolding fragment_path_def by (rule path_join_plain) (auto simp: append_eq_Cons_conv)

lemma fragment_path_inj:
  "clean_dir dir \<Longrightarrow> CHR ''/'' \<notin> set n \<Longrightarrow> CHR ''/'' \<notin> set m \<Longrightarrow>
     fragment_path dir n = fragment_path dir m \<longleftrightarrow> n = m"
  by (simp add: fragment_path_plain)

section \<open>Writing\<close>

record site =
  files :: "string fs"
  live :: "string fs"

record caddy =
  adapt :: "string fs \<Rightarrow> string option"
  load_config :: "string fs \<Rightarrow> string option"

datatype 'v fragment_error =
    Invalid 'v
  | EntryExists
  | EntryNotFound
  | FragmentIO io_error
  | InvalidCaddyfile string
  | InvalidAfterDelete string
  | ReloadFailed string

definition write_and_validate ::
    "caddy \<Rightarrow> string os \<Rightarrow> string \<Rightarrow> string \<Rightarrow> string \<Rightarrow> string fs \<Rightarrow> ('v fragment_error + unit) \<times> string fs" where
  "write_and_validate cad os dir name content fs =
     (let p = fragment_path dir name;
          previous = (case read_file os fs p of ReadOK d \<Rightarrow> Some d | _ \<Rightarrow> None)
      in case run_acts [mkdir_all os dir, write_file os p content 0x1A4] fs of
           (Inl e, fs1) \<Rightarrow> (Inl (FragmentIO e), fs1)
         | (Inr _, fs1) \<Rightarrow>
             (case adapt cad fs1 of
                None \<Rightarrow> (Inr (), fs1)
              | Some msg \<Rightarrow>
                  (Inl (InvalidCaddyfile msg),
                   (case previous of
                      Some d \<Rightarrow> snd (write_file os p d 0x1A4 fs1)
                    | None \<Rightarrow> snd (remove os p fs1)))))"

text \<open>\<open>Reload\<close> and \<open>reloadAfterWrite\<close>: the running instance takes over the tree, or keeps its own.\<close>

definition reload_caddy :: "caddy \<Rightarrow> site \<Rightarrow> string option \<times> site" where
  "reload_caddy cad s =
     (case load_config cad (files s) of
        Some msg \<Rightarrow> (Some msg, s)
      | None \<Rightarrow> (None, s\<lparr>live := files s\<rparr>))"

definition reload_after_write :: "caddy \<Rightarrow> site \<Rightarrow> ('v fragment_error + unit) \<times> site" where
  "reload_after_write cad s =
     (case reload_caddy cad s of (Some msg, s') \<Rightarrow> (Inl (ReloadFailed msg), s') | (None, s') \<Rightarrow> (Inr (), s'))"

definition write_then_reload ::
    "caddy \<Rightarrow> string os \<Rightarrow> string \<Rightarrow> string \<Rightarrow> string \<Rightarrow> site \<Rightarrow> ('v fragment_error + unit) \<times> site" where
  "write_then_reload cad os dir name content s =
     (case write_and_validate cad os dir name content (files s) of
        (Inl e, fs') \<Rightarrow> (Inl e, s\<lparr>files := fs'\<rparr>)
      | (Inr _, fs') \<Rightarrow> reload_after_write cad (s\<lparr>files := fs'\<rparr>))"

definition create_fragment ::
    "caddy \<Rightarrow> string os \<Rightarrow> string \<Rightarrow> string \<Rightarrow> string \<Rightarrow> site \<Rightarrow> ('v fragment_error + unit) \<times> site" where
  "create_fragment cad os dir name content s =
     (if stat_ok os (files s) (fragment_path dir name) then (Inl EntryExists, s)
      else write_then_reload cad os dir name content s)"

definition update_fragment ::
    "caddy \<Rightarrow> string os \<Rightarrow> string \<Rightarrow> string \<Rightarrow> string \<Rightarrow> string \<Rightarrow> site \<Rightarrow>
       ('v fragment_error + unit) \<times> site" where
  "update_fragment cad os dir old name content s =
     (if \<not> stat_ok os (files s) (fragment_path dir old) then (Inl EntryNotFound, s)
      else if name \<noteq> old \<and> stat_ok os (files s) (fragment_path dir name) then (Inl EntryExists, s)
      else case write_and_validate cad os dir name content (files s) of
        (Inl e, fs1) \<Rightarrow> (Inl e, s\<lparr>files := fs1\<rparr>)
      | (Inr _, fs1) \<Rightarrow>
          if name \<noteq> old then
            (case remove os (fragment_path dir old) fs1 of
               (Inl e, fs2) \<Rightarrow> (Inl (FragmentIO e), s\<lparr>files := fs2\<rparr>)
             | (Inr _, fs2) \<Rightarrow> reload_after_write cad (s\<lparr>files := fs2\<rparr>))
          else reload_after_write cad (s\<lparr>files := fs1\<rparr>))"

definition update_raw_fragment ::
    "caddy \<Rightarrow> string os \<Rightarrow> string \<Rightarrow> string \<Rightarrow> string \<Rightarrow> site \<Rightarrow> ('v fragment_error + unit) \<times> site" where
  "update_raw_fragment cad os dir name raw s =
     (if \<not> stat_ok os (files s) (fragment_path dir name) then (Inl EntryNotFound, s)
      else write_then_reload cad os dir name raw s)"

definition delete_fragment ::
    "caddy \<Rightarrow> string os \<Rightarrow> string \<Rightarrow> string \<Rightarrow> site \<Rightarrow> ('v fragment_error + unit) \<times> site" where
  "delete_fragment cad os dir name s =
     (let p = fragment_path dir name
      in if \<not> stat_ok os (files s) p then (Inl EntryNotFound, s)
         else case remove os p (files s) of
           (Inl e, fs1) \<Rightarrow> (Inl (FragmentIO e), s\<lparr>files := fs1\<rparr>)
         | (Inr _, fs1) \<Rightarrow>
             (case adapt cad fs1 of
                Some msg \<Rightarrow> (Inl (InvalidAfterDelete msg), s\<lparr>files := fs1\<rparr>)
              | None \<Rightarrow> reload_after_write cad (s\<lparr>files := fs1\<rparr>)))"

section \<open>Listing and repairing\<close>

record 'a fragment_info =
  info_name :: string
  raw :: string
  structured :: "'a option"

fun list_entries ::
    "(string \<Rightarrow> string \<Rightarrow> 'a option) \<Rightarrow> string os \<Rightarrow> string \<Rightarrow> string fs \<Rightarrow> (string \<times> bool) list \<Rightarrow>
       'a fragment_info list" where
  "list_entries parse os dir fs [] = []"
| "list_entries parse os dir fs ((n, isdir) # es) =
     (if isdir \<or> \<not> has_suffix n ''.caddy'' then list_entries parse os dir fs es
      else case read_file os fs (path_join dir n) of
        ReadOK d \<Rightarrow>
          let name = trim_suffix n ''.caddy''
          in \<lparr>info_name = name, raw = d, structured = parse name d\<rparr> # list_entries parse os dir fs es
      | _ \<Rightarrow> list_entries parse os dir fs es)"

definition list_fragments ::
    "(string \<Rightarrow> string \<Rightarrow> 'a option) \<Rightarrow> string os \<Rightarrow> string \<Rightarrow> listing \<Rightarrow> string fs \<Rightarrow>
       io_error + 'a fragment_info list" where
  "list_fragments parse os dir ls fs =
     (case ls of
        DirMissing \<Rightarrow> Inr []
      | DirFailed e \<Rightarrow> Inl e
      | Entries es \<Rightarrow> Inr (sort_key info_name (list_entries parse os dir fs es)))"

text \<open>The body of the loop of \<open>Normalize\<close> for one fragment file: whether it was rewritten.\<close>

definition repair_entry ::
    "(string \<Rightarrow> string \<Rightarrow> 'a option) \<Rightarrow> ('a \<Rightarrow> string) \<Rightarrow> string os \<Rightarrow> string \<Rightarrow> string \<Rightarrow> string fs \<Rightarrow>
       (io_error + bool) \<times> string fs" where
  "repair_entry parse render os dir n fs =
     (let p = path_join dir n
      in case read_file os fs p of
           ReadOK d \<Rightarrow>
             (case parse (trim_suffix n ''.caddy'') d of
                None \<Rightarrow> (Inr False, fs)
              | Some a \<Rightarrow>
                  if render a = d then (Inr False, fs)
                  else (case write_file os p (render a) 0x1A4 fs of
                      (Inl e, fs1) \<Rightarrow> (Inl e, fs1)
                    | (Inr _, fs1) \<Rightarrow> (Inr True, fs1)))
         | _ \<Rightarrow> (Inr False, fs))"

fun normalize_entries ::
    "(string \<Rightarrow> string \<Rightarrow> 'a option) \<Rightarrow> ('a \<Rightarrow> string) \<Rightarrow> string os \<Rightarrow> string \<Rightarrow> (string \<times> bool) list \<Rightarrow>
       string fs \<Rightarrow> (string list \<times> io_error option) \<times> string fs" where
  "normalize_entries parse render os dir [] fs = (([], None), fs)"
| "normalize_entries parse render os dir ((n, isdir) # es) fs =
     (if isdir \<or> \<not> has_suffix n ''.caddy'' then normalize_entries parse render os dir es fs
      else case repair_entry parse render os dir n fs of
          (Inl e, fs1) \<Rightarrow> (([], Some e), fs1)
        | (Inr changed, fs1) \<Rightarrow>
            (case normalize_entries parse render os dir es fs1 of
               ((ch, e), fs2) \<Rightarrow> ((if changed then trim_suffix n ''.caddy'' # ch else ch, e), fs2)))"

definition normalize_fragments ::
    "(string \<Rightarrow> string \<Rightarrow> 'a option) \<Rightarrow> ('a \<Rightarrow> string) \<Rightarrow> string os \<Rightarrow> string \<Rightarrow> listing \<Rightarrow> string fs \<Rightarrow>
       (string list \<times> io_error option) \<times> string fs" where
  "normalize_fragments parse render os dir ls fs =
     (case ls of
        DirMissing \<Rightarrow> (([], None), fs)
      | DirFailed e \<Rightarrow> (([], Some e), fs)
      | Entries es \<Rightarrow> normalize_entries parse render os dir es fs)"

section \<open>The effect of a write\<close>

lemma write_acts_cases:
  assumes "run_acts [mkdir_all os d, write_file os p c m] fs = (r, fs1)"
  obtains "r = Inr ()" "fs1 = fs(p \<mapsto> \<lparr>contents = c, perm = file_mode os fs p m\<rparr>)"
  | e where "r = Inl e" "\<And>q. q \<noteq> p \<Longrightarrow> fs1 q = fs q"
proof (cases r)
  case (Inl e)
  have "fs1 q = fs q" if "q \<noteq> p" for q
    using assms that unfolding Inl run_acts_err_iff run_acts_Nil_iff
    by (auto dest!: mkdir_all_cases dest: write_file_frame)
  with Inl show thesis using that(2) by blast
next
  case (Inr u)
  have "fs1 = fs(p \<mapsto> \<lparr>contents = c, perm = file_mode os fs p m\<rparr>)"
    using assms unfolding Inr run_acts_ok_iff run_acts_Nil_iff
    by (auto dest!: mkdir_all_cases write_file_ok)
  with Inr show thesis using that(1) by simp
qed

lemma write_and_validate_frame:
  assumes "write_and_validate cad os dir n c fs = (r, fs')" "q \<noteq> fragment_path dir n"
  shows "fs' q = fs q"
  using assms
  by (auto simp: write_and_validate_def Let_def run_acts_iffs mkdir_all_def write_file_def remove_def
      split: prod.splits sum.splits option.splits if_splits)

lemma write_and_validate_ok:
  assumes "write_and_validate cad os dir n c fs = (Inr u, fs')"
  shows "fs' = fs(fragment_path dir n \<mapsto>
      \<lparr>contents = c, perm = file_mode os fs (fragment_path dir n) 0x1A4\<rparr>) \<and> adapt cad fs' = None"
proof -
  obtain fs1 where r: "run_acts [mkdir_all os dir, write_file os (fragment_path dir n) c 0x1A4] fs = (Inr (), fs1)"
    and "adapt cad fs1 = None" "fs' = fs1"
    using assms by (auto simp: write_and_validate_def Let_def split: prod.splits sum.splits option.splits)
  with write_acts_cases [OF r] show ?thesis by auto
qed

text \<open>A fragment Caddy refuses is rolled back, when the roll-back's own calls succeed.\<close>

lemma write_and_validate_rollback:
  assumes "write_and_validate cad os dir n c fs = (Inl (InvalidCaddyfile msg), fs')"
    and "\<not> fails os (ReadFile (fragment_path dir n))" "\<not> fails os (WriteFile (fragment_path dir n))"
    and "\<not> fails os (Remove (fragment_path dir n))"
  shows "fs' = fs"
proof -
  let ?p = "fragment_path dir n"
  obtain fs1 where r: "run_acts [mkdir_all os dir, write_file os ?p c 0x1A4] fs = (Inr (), fs1)"
    and fs': "fs' = (case read_file os fs ?p of
      ReadOK d \<Rightarrow> snd (write_file os ?p d 0x1A4 fs1) | _ \<Rightarrow> snd (remove os ?p fs1))"
    using assms(1)
    by (auto simp: write_and_validate_def Let_def split: prod.splits sum.splits option.splits read_result.splits)
  have fs1: "fs1 = fs(?p \<mapsto> \<lparr>contents = c, perm = file_mode os fs ?p 0x1A4\<rparr>)"
    using write_acts_cases [OF r] by auto
  show ?thesis
  proof (cases "fs ?p")
    case None
    then have "fs' = fs1(?p := None)" using fs' fs1 assms(4) by (simp add: read_file_def remove_def)
    then show ?thesis using fs1 None by (auto simp: fun_eq_iff)
  next
    case (Some f)
    then have "fs' = fs1(?p \<mapsto> \<lparr>contents = contents f, perm = perm f\<rparr>)"
      using fs' fs1 assms(2,3) by (simp add: read_file_def write_file_def file_mode_def)
    then show ?thesis using fs1 Some by (auto simp: fun_eq_iff)
  qed
qed

lemma reload_cases:
  "reload_after_write cad s = (r, s') \<Longrightarrow>
     (r = Inr () \<and> s' = s\<lparr>live := files s\<rparr>) \<or> (\<exists>msg. r = Inl (ReloadFailed msg) \<and> s' = s)"
  by (auto simp: reload_after_write_def reload_caddy_def split: option.splits)

section \<open>The effect of an operation\<close>

lemma write_then_reload_live:
  "write_then_reload cad os dir n c s = (r, s') \<Longrightarrow>
     live s' = (case r of Inr _ \<Rightarrow> files s' | Inl _ \<Rightarrow> live s)"
  by (auto simp: write_then_reload_def dest!: reload_cases split: prod.splits sum.splits)

lemma create_fragment_ok:
  assumes "create_fragment cad os dir n c s = (Inr () :: 'v fragment_error + unit, s')"
  shows "\<not> stat_ok os (files s) (fragment_path dir n) \<and> live s' = files s' \<and> adapt cad (files s') = None \<and>
    (\<exists>m. files s' = (files s)(fragment_path dir n \<mapsto> \<lparr>contents = c, perm = m\<rparr>))"
proof -
  obtain fs1 where ns: "\<not> stat_ok os (files s) (fragment_path dir n)"
    and w: "write_and_validate cad os dir n c (files s) = (Inr () :: 'v fragment_error + unit, fs1)"
    and r: "reload_after_write cad (s\<lparr>files := fs1\<rparr>) = (Inr () :: 'v fragment_error + unit, s')"
    using assms by (auto simp: create_fragment_def write_then_reload_def split: if_splits prod.splits sum.splits)
  have "s' = s\<lparr>files := fs1, live := fs1\<rparr>" using reload_cases [OF r] by auto
  with ns write_and_validate_ok [OF w] show ?thesis by auto
qed

lemma invalid_rolls_back:
  assumes quiet: "\<not> fails os (ReadFile (fragment_path dir n))" "\<not> fails os (WriteFile (fragment_path dir n))"
    "\<not> fails os (Remove (fragment_path dir n))"
    and op: "create_fragment cad os dir n c s = (Inl (InvalidCaddyfile msg) :: 'v fragment_error + unit, s') \<or>
      update_fragment cad os dir old n c s = (Inl (InvalidCaddyfile msg) :: 'v fragment_error + unit, s') \<or>
      update_raw_fragment cad os dir n c s = (Inl (InvalidCaddyfile msg) :: 'v fragment_error + unit, s')"
  shows "s' = s"
proof -
  obtain x fs1 where w: "write_and_validate cad os dir n c (files s) = (x :: 'v fragment_error + unit, fs1)"
    by fastforce
  then have "x = Inl (InvalidCaddyfile msg) \<Longrightarrow> fs1 = files s"
    using write_and_validate_rollback [OF _ quiet] by blast
  then show ?thesis
    using op w
    by (auto simp: create_fragment_def update_fragment_def update_raw_fragment_def write_then_reload_def
        dest!: reload_cases split: if_splits prod.splits sum.splits)
qed

lemma write_keeps_existing:
  assumes "write_and_validate cad os dir n c fs = (r, fs')" "\<not> fails os (ReadFile (fragment_path dir n))"
    and "fs (fragment_path dir n) \<noteq> None"
  shows "fs' (fragment_path dir n) \<noteq> None"
proof -
  let ?p = "fragment_path dir n"
  obtain d where d: "read_file os fs ?p = ReadOK d" using assms(2,3) by (auto simp: read_file_def)
  obtain x fs1 where r1: "run_acts [mkdir_all os dir, write_file os ?p c 0x1A4] fs = (x, fs1)" by fastforce
  have "fs1 ?p \<noteq> None"
    using r1 assms(3)
    by (auto simp: mkdir_all_def write_file_def split: if_splits option.splits)
  moreover have "fs' = fs1 \<or> fs' = snd (write_file os ?p d 0x1A4 fs1)"
    using assms(1) r1 d by (auto simp: write_and_validate_def Let_def split: sum.splits option.splits)
  ultimately show ?thesis by (auto simp: write_file_def split: option.splits)
qed

lemma update_never_missing:
  assumes "update_fragment cad os dir old n c s = (r :: 'v fragment_error + unit, s')"
    and "old = n \<Longrightarrow> \<not> fails os (ReadFile (fragment_path dir old))"
    and "files s (fragment_path dir old) \<noteq> None" and "fragment_path dir old = fragment_path dir n \<longleftrightarrow> old = n"
  shows "files s' (fragment_path dir old) \<noteq> None \<or> files s' (fragment_path dir n) \<noteq> None"
proof (cases "stat_ok os (files s) (fragment_path dir old) \<and>
    \<not> (n \<noteq> old \<and> stat_ok os (files s) (fragment_path dir n))")
  case False
  then have "s' = s" using assms(1) by (auto simp: update_fragment_def split: if_splits)
  then show ?thesis using assms(3) by simp
next
  case True
  obtain x fs1 where w: "write_and_validate cad os dir n c (files s) = (x :: 'v fragment_error + unit, fs1)"
    by fastforce
  have keep: "fs1 (fragment_path dir old) \<noteq> None"
  proof (cases "old = n")
    case True
    then show ?thesis using write_keeps_existing [OF w] assms(2,3) by simp
  next
    case False
    then have "fragment_path dir old \<noteq> fragment_path dir n" using assms(4) by simp
    then show ?thesis using write_and_validate_frame [OF w] assms(3) by simp
  qed
  show ?thesis
  proof (cases x)
    case (Inl e)
    then have "files s' = fs1" using assms(1) True w by (auto simp: update_fragment_def)
    then show ?thesis using keep by simp
  next
    case (Inr u)
    with w have "write_and_validate cad os dir n c (files s) = (Inr u :: 'v fragment_error + unit, fs1)" by simp
    from write_and_validate_ok [OF this] have new: "fs1 (fragment_path dir n) \<noteq> None" by auto
    have "files s' = fs1 \<or> (n \<noteq> old \<and> files s' = snd (remove os (fragment_path dir old) fs1))"
      using assms(1) True w Inr
      by (auto simp: update_fragment_def dest!: reload_cases split: if_splits prod.splits sum.splits)
    then show ?thesis using new assms(4) by (auto simp: remove_def)
  qed
qed

text \<open>
  The results after which an operation has taken place on the files (success, and a failed reload), and
  what the operations do whatever calls fail, other than the \<open>os.Stat\<close> that tells whether a fragment is there.
\<close>

definition settled :: "'v fragment_error + 'a \<Rightarrow> bool" where
  "settled r = (case r of Inr _ \<Rightarrow> True | Inl (ReloadFailed _) \<Rightarrow> True | _ \<Rightarrow> False)"

lemma settled_simps [simp]:
  "settled (Inr u)" "settled (Inl (ReloadFailed m))" "\<not> settled (Inl (Invalid v))"
  "\<not> settled (Inl EntryExists)" "\<not> settled (Inl EntryNotFound)" "\<not> settled (Inl (FragmentIO e))"
  "\<not> settled (Inl (InvalidCaddyfile m))" "\<not> settled (Inl (InvalidAfterDelete m))"
  by (simp_all add: settled_def)

lemma reload_files: "reload_after_write cad s = (r, s') \<Longrightarrow> settled r \<and> files s' = files s"
  by (auto dest: reload_cases)

lemma write_and_validate_quiet:
  "write_and_validate cad quiet_os dir n c fs =
     (let fs1 = fs(fragment_path dir n \<mapsto> \<lparr>contents = c, perm = file_mode quiet_os fs (fragment_path dir n) 0x1A4\<rparr>)
      in case adapt cad fs1 of None \<Rightarrow> (Inr (), fs1) | Some msg \<Rightarrow> (Inl (InvalidCaddyfile msg), fs))"
proof (cases "fs (fragment_path dir n)")
  case None
  then have "fs(fragment_path dir n := None) = fs" by (simp add: fun_eq_iff)
  with None show ?thesis
    by (simp add: write_and_validate_def syscall_defs read_file_def Let_def split: option.splits)
next
  case (Some f)
  then have "fs(fragment_path dir n \<mapsto> \<lparr>contents = contents f, perm = perm f\<rparr>) = fs"
    by (simp add: fun_eq_iff)
  with Some show ?thesis
    by (simp add: write_and_validate_def syscall_defs read_file_def Let_def split: option.splits)
qed

lemma write_and_validate_settled:
  "write_and_validate cad os dir n c fs = (r, fs') \<Longrightarrow> settled r \<longleftrightarrow> r = Inr ()"
  "write_and_validate cad os dir n c fs = (r, fs') \<Longrightarrow> r \<noteq> Inl EntryNotFound"
  by (auto simp: write_and_validate_def Let_def split: prod.splits sum.splits option.splits)

lemma write_and_validate_done:
  assumes "write_and_validate cad os dir n c fs = (r :: 'v fragment_error + unit, fs')" "settled r"
  shows "r = Inr () \<and> (\<exists>m. fs' = fs(fragment_path dir n \<mapsto> \<lparr>contents = c, perm = m\<rparr>))"
proof -
  have r: "r = Inr ()" using write_and_validate_settled(1) [OF assms(1)] assms(2) by simp
  show ?thesis using write_and_validate_ok [OF assms(1) [unfolded r]] r by blast
qed

lemma create_fragment_cases:
  assumes "create_fragment cad os dir n c s = (r :: 'v fragment_error + unit, s')"
    and "\<not> fails os (Stat (fragment_path dir n))"
  shows "(settled r \<and> files s (fragment_path dir n) = None \<and>
      (\<exists>m. files s' = (files s)(fragment_path dir n \<mapsto> \<lparr>contents = c, perm = m\<rparr>))) \<or>
    (\<not> settled r \<and> (s' = s \<or>
       files s (fragment_path dir n) = None \<and> (\<forall>q. q \<noteq> fragment_path dir n \<longrightarrow> files s' q = files s q)))"
proof (cases "files s (fragment_path dir n)")
  case (Some f)
  then show ?thesis using assms by (auto simp: create_fragment_def stat_ok_def)
next
  case None
  obtain x fs1 where w: "write_and_validate cad os dir n c (files s) = (x :: 'v fragment_error + unit, fs1)" by fastforce
  have run: "(case x of Inl e \<Rightarrow> (Inl e, s\<lparr>files := fs1\<rparr>) | Inr _ \<Rightarrow> reload_after_write cad (s\<lparr>files := fs1\<rparr>)) = (r, s')"
    using assms(1) None w by (simp add: create_fragment_def stat_ok_def write_then_reload_def split: sum.splits)
  show ?thesis
  proof (cases "settled x")
    case True
    then have "x = Inr ()" using write_and_validate_done [OF w] by simp
    then have "reload_after_write cad (s\<lparr>files := fs1\<rparr>) = (r, s')" using run by simp
    from reload_files [OF this] have "settled r" "files s' = fs1" by simp_all
    then show ?thesis using None write_and_validate_done [OF w True] by simp
  next
    case False
    then obtain e where "x = Inl e" by (cases x) auto
    then have "r = x" "files s' = fs1" using run by auto
    then show ?thesis using False None write_and_validate_frame [OF w] by simp
  qed
qed

lemma update_fragment_cases:
  assumes "update_fragment cad os dir old n c s = (r :: 'v fragment_error + unit, s')"
    and "\<not> fails os (Stat (fragment_path dir old))" "\<not> fails os (Stat (fragment_path dir n))"
  shows "(settled r \<and> files s (fragment_path dir old) \<noteq> None \<and> (n = old \<or> files s (fragment_path dir n) = None) \<and>
      (\<exists>m. files s' = (files s)(fragment_path dir old := None,
         fragment_path dir n \<mapsto> \<lparr>contents = c, perm = m\<rparr>))) \<or>
    (\<not> settled r \<and> s' = s \<and> (r = Inl EntryNotFound \<longrightarrow> files s (fragment_path dir old) = None)) \<or>
    (\<not> settled r \<and> r \<noteq> Inl EntryNotFound \<and> (n = old \<or> files s (fragment_path dir n) = None) \<and>
       (\<forall>q. q \<noteq> fragment_path dir old \<and> q \<noteq> fragment_path dir n \<longrightarrow> files s' q = files s q))"
proof (cases "files s (fragment_path dir old) \<noteq> None \<and> (n = old \<or> files s (fragment_path dir n) = None)")
  case False
  then show ?thesis using assms by (auto simp: update_fragment_def stat_ok_def split: if_splits)
next
  case there: True
  obtain x fs1 where w: "write_and_validate cad os dir n c (files s) = (x :: 'v fragment_error + unit, fs1)" by fastforce
  have run: "(case x of Inl e \<Rightarrow> (Inl e, s\<lparr>files := fs1\<rparr>)
      | Inr _ \<Rightarrow>
          if n \<noteq> old then
            (case remove os (fragment_path dir old) fs1 of
               (Inl e, fs2) \<Rightarrow> (Inl (FragmentIO e), s\<lparr>files := fs2\<rparr>)
             | (Inr _, fs2) \<Rightarrow> reload_after_write cad (s\<lparr>files := fs2\<rparr>))
          else reload_after_write cad (s\<lparr>files := fs1\<rparr>)) = (r, s')"
    using assms there w by (cases x; cases "n = old") (auto simp: update_fragment_def stat_ok_def)
  show ?thesis
  proof (cases "settled x")
    case False
    then obtain e where "x = Inl e" by (cases x) auto
    then have "r = x" "files s' = fs1" using run by auto
    then show ?thesis
      using False there write_and_validate_frame [OF w] write_and_validate_settled(2) [OF w] by simp
  next
    case True
    from write_and_validate_done [OF w this] obtain m where x: "x = Inr ()"
      and fs1: "fs1 = (files s)(fragment_path dir n \<mapsto> \<lparr>contents = c, perm = m\<rparr>)" by blast
    show ?thesis
    proof (cases "n = old")
      case True
      then have "reload_after_write cad (s\<lparr>files := fs1\<rparr>) = (r, s')" using run x by simp
      from reload_files [OF this] have "settled r" "files s' = fs1" by simp_all
      then show ?thesis using there fs1 True by (intro disjI1 conjI exI [of _ m]) simp_all
    next
      case ne: False
      then have pn: "fragment_path dir old \<noteq> fragment_path dir n" using there by metis
      obtain y fs2 where rm: "remove os (fragment_path dir old) fs1 = (y, fs2)" by fastforce
      show ?thesis
      proof (cases y)
        case (Inl e)
        then have "r = Inl (FragmentIO e)" "files s' = fs2" using run x ne rm by auto
        moreover have "fs2 = fs1" using rm Inl by (auto simp: remove_def split: if_splits option.splits)
        ultimately show ?thesis using there fs1 ne by (intro disjI2 conjI) simp_all
      next
        case (Inr u)
        then have "reload_after_write cad (s\<lparr>files := fs2\<rparr>) = (r, s')" using run x ne rm by simp
        from reload_files [OF this] have "settled r" "files s' = fs2" by simp_all
        moreover have "fs2 = (files s)(fragment_path dir old := None, fragment_path dir n \<mapsto> \<lparr>contents = c, perm = m\<rparr>)"
          using rm Inr pn fs1 by (auto simp: remove_def fun_upd_twist split: if_splits option.splits)
        ultimately show ?thesis using there by - (rule disjI1, intro conjI exI [of _ m], simp_all)
      qed
    qed
  qed
qed

lemma delete_fragment_cases:
  assumes "delete_fragment cad os dir n s = (r, s')" "\<not> fails os (Stat (fragment_path dir n))"
  shows "(r \<noteq> Inl EntryNotFound \<and> files s' = (files s)(fragment_path dir n := None)) \<or>
    (\<not> settled r \<and> s' = s \<and> (r = Inl EntryNotFound \<longrightarrow> files s (fragment_path dir n) = None))"
  using assms
  by (auto simp: delete_fragment_def stat_ok_def Let_def remove_def
      dest!: reload_cases split: if_splits option.splits)

section \<open>Templates\<close>

text \<open>
  What a template promises: a well-formed entry is read back from its rendering, and an entry read back
  from any text is well-formed and carries the name it was read under.
\<close>

locale fragment_template =
  fixes render :: "'a \<Rightarrow> string"
    and parse :: "string \<Rightarrow> string \<Rightarrow> 'a option"
    and entry_name :: "'a \<Rightarrow> string"
    and wf :: "'a \<Rightarrow> bool"
  assumes parse_render: "wf a \<Longrightarrow> parse (entry_name a) (render a) = Some a"
    and parse_wf: "parse n c = Some a \<Longrightarrow> wf a \<and> entry_name a = n"
begin

lemma reparse: "parse n c = Some a \<Longrightarrow> parse n (render a) = Some a"
  using parse_wf parse_render by blast

lemma render_inj: "wf a \<Longrightarrow> wf b \<Longrightarrow> entry_name a = entry_name b \<Longrightarrow> render a = render b \<Longrightarrow> a = b"
  by (metis parse_render option.inject)

end

text \<open>The fragment files of a listing, and what repairing one of them leaves.\<close>

definition is_fragment :: "string \<times> bool \<Rightarrow> bool" where
  "is_fragment e \<longleftrightarrow> \<not> snd e \<and> has_suffix (fst e) ''.caddy''"

definition entry_paths :: "string \<Rightarrow> (string \<times> bool) list \<Rightarrow> string list" where
  "entry_paths dir es = map (\<lambda>e. path_join dir (fst e)) es"

definition repaired :: "(string \<Rightarrow> string \<Rightarrow> 'a option) \<Rightarrow> ('a \<Rightarrow> string) \<Rightarrow> string \<Rightarrow> string inode \<Rightarrow> string inode" where
  "repaired parse render n f =
     (case parse (trim_suffix n ''.caddy'') (contents f) of
        None \<Rightarrow> f | Some a \<Rightarrow> f\<lparr>contents := render a\<rparr>)"

lemma repair_frame:
  "repair_entry parse render os dir n fs = (r, fs') \<Longrightarrow> q \<noteq> path_join dir n \<Longrightarrow> fs' q = fs q"
  by (auto simp: repair_entry_def Let_def write_file_def
      split: if_splits read_result.splits option.splits)

lemma repair_effect:
  assumes "repair_entry parse render os dir n fs = (Inr b, fs')" "\<not> fails os (ReadFile (path_join dir n))"
  shows "fs' (path_join dir n) = map_option (repaired parse render n) (fs (path_join dir n))"
  using assms
  by (auto simp: repair_entry_def Let_def read_file_def repaired_def write_file_def file_mode_def
      split: if_splits option.splits prod.splits sum.splits)

lemma normalize_Cons:
  assumes "normalize_entries parse render os dir ((n, d) # es) fs = ((ch, None), fs')"
  obtains (skip) "\<not> is_fragment (n, d)" "normalize_entries parse render os dir es fs = ((ch, None), fs')"
  | (visit) b fs1 ch1 where "is_fragment (n, d)" "repair_entry parse render os dir n fs = (Inr b, fs1)"
      "normalize_entries parse render os dir es fs1 = ((ch1, None), fs')"
  using assms by (auto simp: is_fragment_def split: if_splits prod.splits sum.splits)

lemma normalize_frame:
  "normalize_entries parse render os dir es fs = (r, fs') \<Longrightarrow> q \<notin> set (entry_paths dir es) \<Longrightarrow> fs' q = fs q"
proof (induction es arbitrary: fs r)
  case (Cons e es)
  obtain n d where e: "e = (n, d)" by (cases e)
  have q: "q \<noteq> path_join dir n" "q \<notin> set (entry_paths dir es)"
    using Cons.prems(2) by (auto simp: entry_paths_def e)
  show ?case
  proof (cases "is_fragment e")
    case False
    with Cons.prems(1) have "normalize_entries parse render os dir es fs = (r, fs')"
      by (auto simp: is_fragment_def e)
    then show ?thesis using q(2) by (rule Cons.IH)
  next
    case True
    obtain x fs1 where x: "repair_entry parse render os dir n fs = (x, fs1)" by fastforce
    have f1: "fs1 q = fs q" by (rule repair_frame [OF x q(1)])
    show ?thesis
    proof (cases x)
      case (Inl err)
      with Cons.prems(1) True x have "fs' = fs1" by (auto simp: is_fragment_def e)
      then show ?thesis using f1 by simp
    next
      case (Inr b)
      with Cons.prems(1) True x obtain r1 where "normalize_entries parse render os dir es fs1 = (r1, fs')"
        by (auto simp: is_fragment_def e split: prod.splits)
      from Cons.IH [OF this q(2)] f1 show ?thesis by simp
    qed
  qed
qed simp

lemma normalize_effect:
  assumes "normalize_entries parse render os dir es fs = ((ch, None), fs')"
    and "\<And>p. \<not> fails os (ReadFile p)" and "distinct (entry_paths dir es)"
    and "e \<in> set es" "is_fragment e"
  shows "fs' (path_join dir (fst e)) = map_option (repaired parse render (fst e)) (fs (path_join dir (fst e)))"
  using assms(1,3-5)
proof (induction es arbitrary: fs ch)
  case (Cons x es)
  obtain n d where x: "x = (n, d)" by (cases x)
  have dist: "path_join dir n \<notin> set (entry_paths dir es)" "distinct (entry_paths dir es)"
    using Cons.prems(2) by (auto simp: entry_paths_def x)
  have ne: "path_join dir (fst e) \<noteq> path_join dir n" if "e \<in> set es"
  proof -
    have "path_join dir (fst e) \<in> set (entry_paths dir es)" using that by (auto simp: entry_paths_def)
    with dist(1) show ?thesis by metis
  qed
  from Cons.prems(1) show ?case unfolding x
  proof (cases rule: normalize_Cons)
    case skip
    with Cons.prems x have "e \<in> set es" by auto
    then show ?thesis by (rule Cons.IH [OF skip(2) dist(2) _ Cons.prems(4)])
  next
    case (visit b fs1 ch1)
    show ?thesis
    proof (cases "e \<in> set es")
      case True
      have "fs1 (path_join dir (fst e)) = fs (path_join dir (fst e))"
        by (rule repair_frame [OF visit(2) ne [OF True]])
      with Cons.IH [OF visit(3) dist(2) True Cons.prems(4)] show ?thesis by simp
    next
      case False
      then have "e = (n, d)" using Cons.prems(3) x by simp
      moreover have "fs' (path_join dir n) = fs1 (path_join dir n)"
        by (rule normalize_frame [OF visit(3) dist(1)])
      ultimately show ?thesis using repair_effect [OF visit(2) assms(2)] by simp
    qed
  qed
qed simp

lemma repair_nothing:
  assumes "\<And>f a. fs (path_join dir n) = Some f \<Longrightarrow>
     parse (trim_suffix n ''.caddy'') (contents f) = Some a \<Longrightarrow> render a = contents f"
  shows "repair_entry parse render os dir n fs = (Inr False, fs)"
  using assms by (auto simp: repair_entry_def Let_def read_file_def split: option.splits)

lemma normalize_nothing:
  assumes "\<And>e f a. e \<in> set es \<Longrightarrow> is_fragment e \<Longrightarrow> fs (path_join dir (fst e)) = Some f \<Longrightarrow>
     parse (trim_suffix (fst e) ''.caddy'') (contents f) = Some a \<Longrightarrow> render a = contents f"
  shows "normalize_entries parse render os dir es fs = (([], None), fs)"
  using assms
proof (induction es)
  case (Cons x es)
  obtain n d where x: "x = (n, d)" by (cases x)
  have IH: "normalize_entries parse render os dir es fs = (([], None), fs)"
    by (rule Cons.IH) (use Cons.prems in auto)
  have "is_fragment x \<Longrightarrow> repair_entry parse render os dir n fs = (Inr False, fs)"
    by (rule repair_nothing) (use Cons.prems [of x] in \<open>simp add: x\<close>)
  then show ?case using IH by (auto simp: x is_fragment_def)
qed simp

context fragment_template
begin

text \<open>A second repair finds nothing to do.\<close>

lemma normalize_idem:
  assumes "normalize_entries parse render os dir es fs = ((ch, None), fs')"
    and "\<And>p. \<not> fails os (ReadFile p)" and "distinct (entry_paths dir es)"
  shows "normalize_entries parse render os2 dir es fs' = (([], None), fs')"
proof (rule normalize_nothing)
  fix e f a
  assume e: "e \<in> set es" "is_fragment e" and f: "fs' (path_join dir (fst e)) = Some f"
    and a: "parse (trim_suffix (fst e) ''.caddy'') (contents f) = Some a"
  from normalize_effect [OF assms e] f obtain g where "f = repaired parse render (fst e) g"
    by (cases "fs (path_join dir (fst e))") auto
  then show "render a = contents f" using a reparse by (auto simp: repaired_def split: option.splits)
qed

end

end
