(* ===== verification/Forward_Auth.thy ===== *)
theory Forward_Auth
  imports Go_Prelude
begin

text \<open>
  \<open>internal/devproxy/forwardauth.go\<close>: the lines of the tinyauth block, its recognition at the head of
  the remaining lines of a fragment (\<open>body[i:]\<close>), and the block older fragments carry.
\<close>

definition tinyauth_target :: string where "tinyauth_target = ''127.0.0.1:3000''"
definition tinyauth_verify_uri :: string where "tinyauth_verify_uri = ''/api/auth/caddy''"
definition tinyauth_location_header :: string where "tinyauth_location_header = ''X-Tinyauth-Location''"

definition legacy_forward_auth_block :: "string \<Rightarrow> string list" where
  "legacy_forward_auth_block indent =
     [indent @ ''forward_auth '' @ tinyauth_target @ '' {'',
      indent @ TAB # ''uri '' @ tinyauth_verify_uri,
      indent @ ''}'']"

definition forward_auth_block :: "string \<Rightarrow> string list" where
  "forward_auth_block indent =
     [indent @ ''forward_auth '' @ tinyauth_target @ '' {'',
      indent @ TAB # ''uri '' @ tinyauth_verify_uri,
      indent @ TAB # ''header_up X-Forwarded-Uri {http.request.orig_uri}'',
      indent @ TAB # ''header_up X-Forwarded-Host {http.request.host}'',
      indent @ TAB # ''header_up X-Forwarded-Proto {http.request.header.X-Forwarded-Proto}'',
      indent @ TAB # ''@tinyauth_login {'',
      indent @ TAB # TAB # ''status 4xx'',
      indent @ TAB # TAB # ''header '' @ tinyauth_location_header @ '' *'',
      indent @ TAB # ''}'',
      indent @ TAB # ''handle_response @tinyauth_login {'',
      indent @ TAB # TAB # ''redir * {rp.header.'' @ tinyauth_location_header @ ''}'',
      indent @ TAB # ''}'',
      indent @ ''}'']"

definition render_forward_auth :: "string \<Rightarrow> string" where
  "render_forward_auth indent = join [NL] (forward_auth_block indent) @ [NL]"

fun match_lines :: "string list \<Rightarrow> string list \<Rightarrow> bool" where
  "match_lines body [] = True"
| "match_lines [] (w # ws) = False"
| "match_lines (b # bs) (w # ws) = (b = w \<and> match_lines bs ws)"

text \<open>The lines past the block, when the lines start with one.\<close>

definition match_forward_auth :: "string list \<Rightarrow> string \<Rightarrow> string list option" where
  "match_forward_auth body indent =
     (if match_lines body (forward_auth_block indent)
        then Some (drop (length (forward_auth_block indent)) body)
      else if match_lines body (legacy_forward_auth_block indent)
        then Some (drop (length (legacy_forward_auth_block indent)) body)
      else None)"

definition strip_tinyauth_cookies :: string where
  \<open>strip_tinyauth_cookies = ''header_up Cookie "tinyauth-[^=;]*=[^;]*(; )?" ""''\<close>

lemma match_lines_iff: "match_lines body ws \<longleftrightarrow> (\<exists>r. body = ws @ r)"
  by (induction body ws rule: match_lines.induct) auto

lemma render_forward_auth_eq: "render_forward_auth indent = text_of (forward_auth_block indent)"
  unfolding render_forward_auth_def by (rule join_text_of) (simp add: forward_auth_block_def)

lemma match_forward_auth_block: "match_forward_auth (forward_auth_block indent @ r) indent = Some r"
  by (simp add: match_forward_auth_def match_lines_iff)

lemma match_forward_auth_other:
  assumes "\<not> has_prefix l (indent @ ''forward_auth '')"
  shows "match_forward_auth (l # ls) indent = None"
  using assms
  by (auto simp: match_forward_auth_def forward_auth_block_def legacy_forward_auth_block_def has_prefix_iff)

lemma match_forward_auth_length:
  "match_forward_auth body indent = Some r \<Longrightarrow> length r \<le> length body"
  by (auto simp: match_forward_auth_def split: if_splits)

lemma match_forward_auth_set:
  "match_forward_auth body indent = Some r \<Longrightarrow> set r \<subseteq> set body"
  by (auto simp: match_forward_auth_def dest: in_set_dropD split: if_splits)

lemmas forward_auth_text =
  tinyauth_target_def tinyauth_verify_uri_def tinyauth_location_header_def

lemma forward_auth_no_NL:
  "NL \<notin> set indent \<Longrightarrow> l \<in> set (forward_auth_block indent) \<Longrightarrow> NL \<notin> set l"
  by (auto simp: forward_auth_block_def forward_auth_text)

lemma strip_cookies_no_NL [simp]: "NL \<notin> set strip_tinyauth_cookies"
  by (simp add: strip_tinyauth_cookies_def)

end
