(* ===== verification/Dev_Proxy.thy ===== *)
theory Dev_Proxy
  imports Caddy_Fragments Forward_Auth Target_Guard
begin

text \<open>
  \<open>internal/devproxy\<close>: exposes, their fragment template (\<open>Render\<close>, \<open>parseStructured\<close>), validation, and
  the operations of the package on its managed directory.
\<close>

definition managed_dir :: string where
  "managed_dir = ''/var/lib/code-docker-router/caddy-adapter/managed''"

record route =
  rt_path :: string
  rt_target :: string
  rt_strip_prefix :: string
  rt_rewrite_prefix :: string
  rt_mode :: string
  rt_require_auth :: bool

record expose =
  ex_name :: string
  ex_host :: string
  ex_routes :: "route list"

section \<open>Validation\<close>

datatype expose_invalid =
    BadName
  | BadHost
  | BadPathLike string
  | BadTarget guard_error
  | BadMode

definition validate_name :: "string \<Rightarrow> expose_invalid + unit" where
  "validate_name name = (if \<not> rx_match label_re name then Inl BadName else Inr ())"

text \<open>\<open>^(\*\.)?[a-zA-Z0-9-]+(\.[a-zA-Z0-9-]+)*$\<close>\<close>

definition dns_char :: "char \<Rightarrow> bool" where
  "dns_char c \<longleftrightarrow> is_alnum c \<or> c = CHR ''-''"

definition expose_host_re :: rx where
  "expose_host_re =
     RSeq (ROpt (RSeq (RChr CHR ''*'') (RChr CHR ''.'')))
       (RSeq (RPlus (RCls dns_char)) (RStar (RSeq (RChr CHR ''.'') (RPlus (RCls dns_char)))))"

definition validate_expose_host :: "string \<Rightarrow> expose_invalid + unit" where
  "validate_expose_host host =
     (if host = [] \<or> \<not> rx_match expose_host_re host then Inl BadHost else Inr ())"

definition allowed_target_hosts :: "env \<Rightarrow> string set" where
  "allowed_target_hosts env = default_allowed_hosts env"

definition validate_route_target :: "env \<Rightarrow> string \<Rightarrow> guard_error + unit" where
  "validate_route_target env target =
     validate_target env target (allowed_target_hosts env) ''DEVPROXY_ALLOW_EXTERNAL_TARGETS'' ''Dev Proxy''"

text \<open>\<open>^[a-zA-Z0-9_.\-/*]*$\<close>\<close>

definition path_char :: "char \<Rightarrow> bool" where
  "path_char c \<longleftrightarrow>
     is_alnum c \<or> c = CHR ''_'' \<or> c = CHR ''.'' \<or> c = CHR ''-'' \<or> c = CHR ''/'' \<or> c = CHR ''*''"

definition validate_path_like :: "string \<Rightarrow> string \<Rightarrow> expose_invalid + unit" where
  "validate_path_like field value =
     (if \<not> rx_match (RStar (RCls path_char)) value then Inl (BadPathLike field) else Inr ())"

definition validate_route :: "env \<Rightarrow> route \<Rightarrow> expose_invalid + unit" where
  "validate_route env rt =
     res_bind (validate_path_like ''path'' (rt_path rt)) (\<lambda>_.
     res_bind (map_error BadTarget (validate_route_target env (rt_target rt))) (\<lambda>_.
     res_bind (validate_path_like ''stripPrefix'' (rt_strip_prefix rt)) (\<lambda>_.
     res_bind (validate_path_like ''rewritePrefix'' (rt_rewrite_prefix rt)) (\<lambda>_.
     if rt_mode rt \<noteq> ''route'' \<and> rt_mode rt \<noteq> ''handle'' then Inl BadMode else Inr ()))))"

definition validate_expose :: "env \<Rightarrow> expose \<Rightarrow> expose_invalid + unit" where
  "validate_expose env e =
     res_bind (validate_name (ex_name e)) (\<lambda>_.
     res_bind (validate_expose_host (ex_host e)) (\<lambda>_.
     each (validate_route env) (ex_routes e)))"

section \<open>The template\<close>

definition route_lines :: "route \<Rightarrow> string list" where
  "route_lines rt =
     (let directive = (if rt_mode rt = ''route'' then ''route'' else ''handle'')
      in [if rt_path rt \<noteq> [] then TAB # directive @ '' '' @ rt_path rt @ '' {'' else TAB # directive @ '' {''] @
         (if rt_require_auth rt then forward_auth_block [TAB, TAB] else []) @
         (if rt_strip_prefix rt \<noteq> [] then [TAB # TAB # ''uri strip_prefix '' @ rt_strip_prefix rt] else []) @
         (if rt_rewrite_prefix rt \<noteq> []
            then [TAB # TAB # ''rewrite * '' @ rt_rewrite_prefix rt @ ''{uri}''] else []) @
         [TAB # TAB # ''reverse_proxy '' @ rt_target rt @ '' {'',
          TAB # TAB # TAB # strip_tinyauth_cookies,
          TAB # TAB # ''}'',
          TAB # ''}''])"

definition expose_body :: "expose \<Rightarrow> string list" where
  "expose_body e =
     (if ex_routes e = [] then [TAB # ''respond 404''] else concat (map route_lines (ex_routes e)))"

definition render_expose :: "expose \<Rightarrow> string" where
  "render_expose e =
     text_of ([CHR ''@'' # ex_name e @ '' host '' @ ex_host e, ''handle @'' @ ex_name e @ '' {''] @
              expose_body e @ [''}''])"

text \<open>\<open>^\t(route|handle)(?: (.+))? \{$\<close> on one line, with its two submatches.\<close>

definition header_path :: "string \<Rightarrow> string option" where
  "header_path r =
     (if 4 \<le> length r \<and> has_prefix r '' '' \<and> has_suffix r '' {'' then Some (take (length r - 3) (drop 1 r))
      else if r = '' {'' then Some []
      else None)"

definition route_header :: "string \<Rightarrow> (string \<times> string) option" where
  "route_header l =
     (if has_prefix l (TAB # ''route'') then map_option (Pair ''route'') (header_path (drop 6 l))
      else if has_prefix l (TAB # ''handle'') then map_option (Pair ''handle'') (header_path (drop 7 l))
      else None)"

text \<open>The optional lines of a route, then its \<open>reverse_proxy\<close>, each read off the remaining lines.\<close>

definition take_strip :: "string list \<Rightarrow> string \<times> string list" where
  "take_strip ls =
     (case ls of
        [] \<Rightarrow> ([], [])
      | l # r \<Rightarrow>
          if has_prefix l (TAB # TAB # ''uri strip_prefix '')
          then (trim_prefix l (TAB # TAB # ''uri strip_prefix ''), r) else ([], ls))"

definition take_rewrite :: "string list \<Rightarrow> string \<times> string list" where
  "take_rewrite ls =
     (case ls of
        [] \<Rightarrow> ([], [])
      | l # r \<Rightarrow>
          if has_prefix l (TAB # TAB # ''rewrite * '') \<and> has_suffix l ''{uri}''
          then (trim_suffix (trim_prefix l (TAB # TAB # ''rewrite * '')) ''{uri}'', r) else ([], ls))"

definition take_proxy :: "string list \<Rightarrow> (string \<times> string list) option" where
  "take_proxy ls =
     (case ls of
        [] \<Rightarrow> None
      | l # r \<Rightarrow>
          if \<not> has_prefix l (TAB # TAB # ''reverse_proxy '') then None
          else let value = trim_prefix l (TAB # TAB # ''reverse_proxy '')
            in case cut_suffix value '' {'' of
                 Some target \<Rightarrow>
                   (case r of
                      a # b # r' \<Rightarrow>
                        if a \<noteq> TAB # TAB # TAB # strip_tinyauth_cookies \<or> b \<noteq> TAB # TAB # ''}''
                        then None else Some (target, r')
                    | _ \<Rightarrow> None)
               | None \<Rightarrow> Some (value, r))"

definition parse_route :: "string list \<Rightarrow> (route \<times> string list) option" where
  "parse_route body =
     (case body of
        [] \<Rightarrow> None
      | l # r0 \<Rightarrow>
          (case route_header l of
             None \<Rightarrow> None
           | Some (mode, p) \<Rightarrow>
               (case (case match_forward_auth r0 [TAB, TAB] of
                        Some r1 \<Rightarrow> Some (True, r1)
                      | None \<Rightarrow>
                          if r0 \<noteq> [] \<and> has_prefix (hd r0) (TAB # TAB # ''forward_auth '') then None
                          else Some (False, r0)) of
                  None \<Rightarrow> None
                | Some (auth, r1) \<Rightarrow>
                    let (strip, r2) = take_strip r1; (rewrite, r3) = take_rewrite r2
                    in case take_proxy r3 of
                         Some (target, e # r4) \<Rightarrow>
                           if e \<noteq> TAB # ''}'' then None
                           else Some (\<lparr>rt_path = p, rt_target = target, rt_strip_prefix = strip,
                                       rt_rewrite_prefix = rewrite, rt_mode = mode,
                                       rt_require_auth = auth\<rparr>, r4)
                       | _ \<Rightarrow> None)))"

lemma take_proxy_length: "take_proxy ls = Some (t, r) \<Longrightarrow> length r < length ls"
  by (auto simp: take_proxy_def Let_def split: list.splits if_splits option.splits)

lemma take_strip_length: "take_strip ls = (s, r) \<Longrightarrow> length r \<le> length ls"
  by (auto simp: take_strip_def split: list.splits if_splits)

lemma take_rewrite_length: "take_rewrite ls = (s, r) \<Longrightarrow> length r \<le> length ls"
  by (auto simp: take_rewrite_def split: list.splits if_splits)

lemma parse_route_length: "parse_route body = Some (rt, r) \<Longrightarrow> length r < length body"
  by (auto simp: parse_route_def Let_def
      dest!: take_proxy_length take_strip_length take_rewrite_length match_forward_auth_length
      split: list.splits option.splits prod.splits if_splits)

function parse_routes :: "string list \<Rightarrow> route list option" where
  "parse_routes body =
     (if body = [] then Some []
      else case parse_route body of
             None \<Rightarrow> None
           | Some (rt, r) \<Rightarrow> map_option ((#) rt) (parse_routes r))"
  by pat_completeness auto
termination
  by (relation "measure length") (auto dest: parse_route_length)

declare parse_routes.simps [simp del]

definition parse_expose :: "string \<Rightarrow> string \<Rightarrow> expose option" where
  "parse_expose name content =
     (let lines = drop_blank_tail (split_on NL content)
      in if length lines < 3 then None
         else if \<not> has_prefix (lines ! 0) (CHR ''@'' # name @ '' host '') then None
         else let host = trim_prefix (lines ! 0) (CHR ''@'' # name @ '' host '')
           in if lines ! 1 \<noteq> ''handle @'' @ name @ '' {'' then None
              else if last lines \<noteq> ''}'' then None
              else let body = butlast (drop 2 lines)
                in if body = [TAB # ''respond 404'']
                   then Some \<lparr>ex_name = name, ex_host = host, ex_routes = []\<rparr>
                   else map_option (\<lambda>rts. \<lparr>ex_name = name, ex_host = host, ex_routes = rts\<rparr>)
                          (parse_routes body))"

section \<open>Operations\<close>

type_synonym 'a expose_result = "(expose_invalid fragment_error + 'a) \<times> site"

definition create_expose :: "env \<Rightarrow> caddy \<Rightarrow> string os \<Rightarrow> expose \<Rightarrow> site \<Rightarrow> unit expose_result" where
  "create_expose env cad os e s =
     (case validate_expose env e of
        Inl err \<Rightarrow> (Inl (Invalid err), s)
      | Inr _ \<Rightarrow> create_fragment cad os managed_dir (ex_name e) (render_expose e) s)"

definition update_expose ::
    "env \<Rightarrow> caddy \<Rightarrow> string os \<Rightarrow> string \<Rightarrow> expose \<Rightarrow> site \<Rightarrow> unit expose_result" where
  "update_expose env cad os old e s =
     (case validate_expose env e of
        Inl err \<Rightarrow> (Inl (Invalid err), s)
      | Inr _ \<Rightarrow> update_fragment cad os managed_dir old (ex_name e) (render_expose e) s)"

definition update_expose_raw ::
    "caddy \<Rightarrow> string os \<Rightarrow> string \<Rightarrow> string \<Rightarrow> site \<Rightarrow> unit expose_result" where
  "update_expose_raw cad os name text s =
     (case validate_name name of
        Inl err \<Rightarrow> (Inl (Invalid err), s)
      | Inr _ \<Rightarrow> update_raw_fragment cad os managed_dir name text s)"

definition delete_expose :: "caddy \<Rightarrow> string os \<Rightarrow> string \<Rightarrow> site \<Rightarrow> unit expose_result" where
  "delete_expose cad os name s =
     (case validate_name name of
        Inl err \<Rightarrow> (Inl (Invalid err), s)
      | Inr _ \<Rightarrow> delete_fragment cad os managed_dir name s)"

definition list_exposes :: "string os \<Rightarrow> listing \<Rightarrow> string fs \<Rightarrow> io_error + expose fragment_info list" where
  "list_exposes os ls fs = list_fragments parse_expose os managed_dir ls fs"

definition normalize_exposes ::
    "string os \<Rightarrow> listing \<Rightarrow> string fs \<Rightarrow> (string list \<times> io_error option) \<times> string fs" where
  "normalize_exposes os ls fs = normalize_fragments parse_expose render_expose os managed_dir ls fs"

section \<open>Reading a rendering back\<close>

definition wf_route :: "route \<Rightarrow> bool" where
  "wf_route rt \<longleftrightarrow>
     NL \<notin> set (rt_path rt) \<and> NL \<notin> set (rt_target rt) \<and> NL \<notin> set (rt_strip_prefix rt) \<and>
     NL \<notin> set (rt_rewrite_prefix rt) \<and> (rt_mode rt = ''route'' \<or> rt_mode rt = ''handle'')"

definition wf_expose :: "expose \<Rightarrow> bool" where
  "wf_expose e \<longleftrightarrow>
     NL \<notin> set (ex_name e) \<and> NL \<notin> set (ex_host e) \<and> (\<forall>rt \<in> set (ex_routes e). wf_route rt)"

lemma header_path_some: "p \<noteq> [] \<Longrightarrow> header_path ('' '' @ p @ '' {'') = Some p"
proof -
  assume p: "p \<noteq> []"
  have "has_suffix ('' '' @ p @ '' {'') '' {''" using has_suffix_append [of "'' '' @ p" "'' {''"] by simp
  moreover have "4 \<le> length ('' '' @ p @ '' {'')" using p by (cases p) auto
  ultimately show ?thesis by (simp add: header_path_def)
qed

lemma header_path_none: "header_path '' {'' = Some []"
  by (simp add: header_path_def)

lemma route_header_line:
  "route_header (TAB # ''route'' @ r) = map_option (Pair ''route'') (header_path r)"
  "route_header (TAB # ''handle'' @ r) = map_option (Pair ''handle'') (header_path r)"
  by (simp_all add: route_header_def)

lemma take_strip_none: "\<not> has_prefix l (TAB # TAB # ''uri strip_prefix '') \<Longrightarrow> take_strip (l # r) = ([], l # r)"
  by (simp add: take_strip_def)

lemma take_strip_some: "take_strip ((TAB # TAB # ''uri strip_prefix '' @ p) # r) = (p, r)"
proof -
  have "has_prefix ((TAB # TAB # ''uri strip_prefix '') @ p) (TAB # TAB # ''uri strip_prefix '')"
    "trim_prefix ((TAB # TAB # ''uri strip_prefix '') @ p) (TAB # TAB # ''uri strip_prefix '') = p"
    by (simp_all only: has_prefix_append trim_prefix_append)
  then show ?thesis by (simp add: take_strip_def)
qed

lemma take_rewrite_none: "\<not> has_prefix l (TAB # TAB # ''rewrite * '') \<Longrightarrow> take_rewrite (l # r) = ([], l # r)"
  by (simp add: take_rewrite_def)

lemma take_rewrite_some: "take_rewrite ((TAB # TAB # ''rewrite * '' @ p @ ''{uri}'') # r) = (p, r)"
proof -
  let ?pre = "TAB # TAB # ''rewrite * ''"
  have "has_prefix (?pre @ p @ ''{uri}'') ?pre" "trim_prefix (?pre @ p @ ''{uri}'') ?pre = p @ ''{uri}''"
    by (simp_all only: has_prefix_append trim_prefix_append)
  moreover have "has_suffix ((?pre @ p) @ ''{uri}'') ''{uri}''" by (rule has_suffix_append)
  ultimately show ?thesis by (simp add: take_rewrite_def)
qed

lemma take_proxy_block:
  "take_proxy ((TAB # TAB # ''reverse_proxy '' @ t @ '' {'') # (TAB # TAB # TAB # strip_tinyauth_cookies) #
     (TAB # TAB # ''}'') # r) = Some (t, r)"
proof -
  let ?pre = "TAB # TAB # ''reverse_proxy ''"
  have "has_prefix (?pre @ t @ '' {'') ?pre" "trim_prefix (?pre @ t @ '' {'') ?pre = t @ '' {''"
    by (simp_all only: has_prefix_append trim_prefix_append)
  then show ?thesis by (simp add: take_proxy_def)
qed

text \<open>The part of a route after its header and its \<open>forward_auth\<close> block.\<close>

definition route_tail :: "route \<Rightarrow> string list \<Rightarrow> string list" where
  "route_tail rt r =
     (if rt_strip_prefix rt \<noteq> [] then [TAB # TAB # ''uri strip_prefix '' @ rt_strip_prefix rt] else []) @
     (if rt_rewrite_prefix rt \<noteq> [] then [TAB # TAB # ''rewrite * '' @ rt_rewrite_prefix rt @ ''{uri}''] else []) @
     (TAB # TAB # ''reverse_proxy '' @ rt_target rt @ '' {'') # (TAB # TAB # TAB # strip_tinyauth_cookies) #
     (TAB # TAB # ''}'') # (TAB # ''}'') # r"

lemma route_tail_hd: "\<exists>l ls. route_tail rt r = l # ls \<and> \<not> has_prefix l (TAB # TAB # ''forward_auth '')"
  by (auto simp: route_tail_def)

lemma parse_tail:
  "take_strip (route_tail rt r) =
     (rt_strip_prefix rt, route_tail (rt\<lparr>rt_strip_prefix := []\<rparr>) r)"
  "take_rewrite (route_tail (rt\<lparr>rt_strip_prefix := []\<rparr>) r) =
     (rt_rewrite_prefix rt, route_tail (rt\<lparr>rt_strip_prefix := [], rt_rewrite_prefix := []\<rparr>) r)"
  "take_proxy (route_tail (rt\<lparr>rt_strip_prefix := [], rt_rewrite_prefix := []\<rparr>) r) =
     Some (rt_target rt, (TAB # ''}'') # r)"
  unfolding route_tail_def
  using take_strip_some [of "rt_strip_prefix rt"] take_rewrite_some [of "rt_rewrite_prefix rt"]
    take_proxy_block [of "rt_target rt"]
  by (auto simp: take_strip_none take_rewrite_none)

lemma parse_route_lines:
  assumes "wf_route rt"
  shows "parse_route (route_lines rt @ r) = Some (rt, r)"
proof -
  define hd_line where "hd_line =
    (if rt_path rt \<noteq> [] then TAB # rt_mode rt @ '' '' @ rt_path rt @ '' {'' else TAB # rt_mode rt @ '' {'')"
  have lines: "route_lines rt @ r =
      hd_line # (if rt_require_auth rt then forward_auth_block [TAB, TAB] else []) @ route_tail rt r"
    using assms by (auto simp: route_lines_def route_tail_def hd_line_def wf_route_def Let_def)
  have h: "route_header hd_line = Some (rt_mode rt, rt_path rt)"
    using assms header_path_some [of "rt_path rt"] header_path_none
      route_header_line(1) [of "'' '' @ rt_path rt @ '' {''"] route_header_line(2) [of "'' '' @ rt_path rt @ '' {''"]
      route_header_line(1) [of "'' {''"] route_header_line(2) [of "'' {''"]
    by (cases "rt_path rt = []") (auto simp: wf_route_def hd_line_def)
  obtain l ls where t: "route_tail rt r = l # ls" "\<not> has_prefix l (TAB # TAB # ''forward_auth '')"
    using route_tail_hd by blast
  have m: "match_forward_auth (l # ls) [TAB, TAB] = None"
    by (rule match_forward_auth_other) (use t(2) in simp)
  have tail: "take_strip (l # ls) = (rt_strip_prefix rt, route_tail (rt\<lparr>rt_strip_prefix := []\<rparr>) r)"
    using parse_tail(1) [of rt r] t(1) by simp
  have rt_eq: "\<lparr>rt_path = rt_path rt, rt_target = rt_target rt, rt_strip_prefix = rt_strip_prefix rt,
      rt_rewrite_prefix = rt_rewrite_prefix rt, rt_mode = rt_mode rt, rt_require_auth = b\<rparr> = rt"
    if "rt_require_auth rt = b" for b using that by simp
  show ?thesis
  proof (cases "rt_require_auth rt")
    case True
    then show ?thesis
      unfolding lines using rt_eq [of True]
      by (simp add: parse_route_def h match_forward_auth_block parse_tail)
  next
    case False
    then show ?thesis
      unfolding lines using rt_eq [of False] t
      by (simp add: parse_route_def h m tail parse_tail)
  qed
qed

lemma route_lines_Cons: "\<exists>l ls. route_lines rt = l # ls"
  unfolding route_lines_def Let_def append_Cons by blast

lemma parse_routes_step:
  "parse_route body = Some (rt, r) \<Longrightarrow> body \<noteq> [] \<Longrightarrow> parse_routes body = map_option ((#) rt) (parse_routes r)"
  by (subst parse_routes.simps) simp

lemma parse_routes_lines:
  "(\<And>rt. rt \<in> set rts \<Longrightarrow> wf_route rt) \<Longrightarrow> parse_routes (concat (map route_lines rts)) = Some rts"
proof (induction rts)
  case Nil
  then show ?case by (simp add: parse_routes.simps [of "[]"])
next
  case (Cons rt rts)
  have ne: "route_lines rt @ concat (map route_lines rts) \<noteq> []"
    using route_lines_Cons [of rt] by auto
  have "parse_route (route_lines rt @ concat (map route_lines rts)) = Some (rt, concat (map route_lines rts))"
    by (rule parse_route_lines) (simp add: Cons.prems)
  from parse_routes_step [OF this ne] show ?case using Cons by simp
qed

lemma route_lines_no_NL:
  assumes "wf_route rt" "l \<in> set (route_lines rt)"
  shows "NL \<notin> set l"
proof -
  have fa: "m \<in> set (forward_auth_block [TAB, TAB]) \<Longrightarrow> NL \<notin> set m" for m
    using forward_auth_no_NL [of "[TAB, TAB]" m] by simp
  show ?thesis
    using assms fa [of l] by (auto simp: route_lines_def wf_route_def Let_def split: if_splits)
qed

lemma route_lines_not_404: "concat (map route_lines (rt # rts)) \<noteq> [TAB # ''respond 404'']"
  by (auto simp: route_lines_def Let_def)

lemma render_expose_lines:
  fixes e :: expose
  defines "lines \<equiv> [CHR ''@'' # ex_name e @ '' host '' @ ex_host e, ''handle @'' @ ex_name e @ '' {''] @ expose_body e"
  shows "render_expose e = text_of (lines @ [''}''])" "wf_expose e \<Longrightarrow> l \<in> set lines \<Longrightarrow> NL \<notin> set l"
proof -
  show "render_expose e = text_of (lines @ [''}''])"
    by (simp only: lines_def render_expose_def append_assoc append_Cons append_Nil)
  show "wf_expose e \<Longrightarrow> l \<in> set lines \<Longrightarrow> NL \<notin> set l"
    using route_lines_no_NL by (auto simp: lines_def wf_expose_def expose_body_def split: if_splits)
qed

lemma split_render_expose:
  assumes "wf_expose e"
  shows "split_on NL (render_expose e) =
    [CHR ''@'' # ex_name e @ '' host '' @ ex_host e, ''handle @'' @ ex_name e @ '' {''] @ expose_body e @ [''}'', []]"
proof -
  have "NL \<notin> set l" if "l \<in> set (([CHR ''@'' # ex_name e @ '' host '' @ ex_host e, ''handle @'' @ ex_name e @ '' {''] @
      expose_body e) @ [''}''])" for l
    using that render_expose_lines(2) [OF assms, of l] by auto
  from split_text_of [OF this] show ?thesis
    by (simp only: render_expose_lines(1) append_assoc append_Cons append_Nil)
qed

lemma parse_render_expose:
  assumes "wf_expose e"
  shows "parse_expose (ex_name e) (render_expose e) = Some e"
proof -
  let ?h = "CHR ''@'' # ex_name e @ '' host ''"
  let ?l0 = "?h @ ex_host e" and ?l1 = "''handle @'' @ ex_name e @ '' {''"
  have nl: "NL \<notin> set l" if "l \<in> set ([?l0, ?l1] @ expose_body e)" for l
    using that render_expose_lines(2) [OF assms, of l] by simp
  have "render_expose e = text_of (([?l0, ?l1] @ expose_body e) @ [''}''])"
    using render_expose_lines(1) [of e] by simp
  moreover have "trim_space ''}'' \<noteq> []" by code_simp
  ultimately have lines: "drop_blank_tail (split_on NL (render_expose e)) = ([?l0, ?l1] @ expose_body e) @ [''}'']"
    using lines_of_text [of "[?l0, ?l1] @ expose_body e" "''}''"] nl by simp
  have pre: "has_prefix ?l0 ?h" "trim_prefix ?l0 ?h = ex_host e"
    by (simp_all only: has_prefix_append trim_prefix_append)
  have b: "butlast (expose_body e @ [''}'']) = expose_body e" by simp
  show ?thesis
  proof (cases "ex_routes e")
    case Nil
    then have "expose_body e = [TAB # ''respond 404'']" by (simp add: expose_body_def)
    then show ?thesis
      using lines pre Nil by (simp add: parse_expose_def Let_def)
  next
    case (Cons rt rts)
    then have body: "expose_body e = concat (map route_lines (ex_routes e))" by (simp add: expose_body_def)
    then have "expose_body e \<noteq> [TAB # ''respond 404'']" using route_lines_not_404 Cons by metis
    moreover have "parse_routes (expose_body e) = Some (ex_routes e)"
      unfolding body by (rule parse_routes_lines) (use assms in \<open>simp add: wf_expose_def\<close>)
    ultimately show ?thesis
      using lines pre by (simp add: parse_expose_def Let_def)
  qed
qed

text \<open>Whatever text an entry was read from, none of its fields holds a line break.\<close>

lemma header_path_set: "header_path r = Some p \<Longrightarrow> set p \<subseteq> set r"
  by (auto simp: header_path_def dest: in_set_takeD in_set_dropD split: if_splits)

lemma route_header_wf:
  assumes "route_header l = Some (m, p)"
  shows "set p \<subseteq> set l \<and> (m = ''route'' \<or> m = ''handle'')"
  using assms header_path_set
  by (fastforce simp: route_header_def dest: in_set_dropD split: if_splits)

definition no_breaks :: "string list \<Rightarrow> bool" where
  "no_breaks ls \<longleftrightarrow> (\<forall>l \<in> set ls. NL \<notin> set l)"

lemma take_strip_no_breaks: "take_strip ls = (s, r) \<Longrightarrow> no_breaks ls \<Longrightarrow> NL \<notin> set s \<and> no_breaks r"
  using trim_prefix_set by (fastforce simp: take_strip_def no_breaks_def split: list.splits if_splits)

lemma take_rewrite_no_breaks: "take_rewrite ls = (s, r) \<Longrightarrow> no_breaks ls \<Longrightarrow> NL \<notin> set s \<and> no_breaks r"
  using trim_prefix_set trim_suffix_set
  by (fastforce simp: take_rewrite_def no_breaks_def split: list.splits if_splits)

lemma take_proxy_no_breaks: "take_proxy ls = Some (t, r) \<Longrightarrow> no_breaks ls \<Longrightarrow> NL \<notin> set t \<and> no_breaks r"
  using trim_prefix_set cut_suffix_set
  by (fastforce simp: take_proxy_def no_breaks_def Let_def split: list.splits if_splits option.splits)

lemma match_forward_auth_no_breaks:
  "match_forward_auth ls i = Some r \<Longrightarrow> no_breaks ls \<Longrightarrow> no_breaks r"
  using match_forward_auth_set by (fastforce simp: no_breaks_def)

lemma parse_route_wf:
  assumes "parse_route body = Some (rt, r)" "no_breaks body"
  shows "wf_route rt \<and> no_breaks r"
proof -
  obtain l r0 m p where b: "body = l # r0" and h: "route_header l = Some (m, p)"
    using assms(1) by (auto simp: parse_route_def split: list.splits option.splits)
  obtain auth r1 where "no_breaks r1" and rest:
    "(let (strip, r2) = take_strip r1; (rewrite, r3) = take_rewrite r2
      in case take_proxy r3 of
           Some (target, e # r4) \<Rightarrow>
             if e \<noteq> TAB # ''}'' then None
             else Some (\<lparr>rt_path = p, rt_target = target, rt_strip_prefix = strip,
                         rt_rewrite_prefix = rewrite, rt_mode = m, rt_require_auth = auth\<rparr>, r4)
         | _ \<Rightarrow> None) = Some (rt, r)"
    using assms match_forward_auth_no_breaks [of r0 "[TAB, TAB]"]
    by (auto simp: parse_route_def b h no_breaks_def split: option.splits if_splits)
  obtain s r2 where s: "take_strip r1 = (s, r2)" by fastforce
  obtain w r3 where w: "take_rewrite r2 = (w, r3)" by fastforce
  obtain t e r4 where t: "take_proxy r3 = Some (t, e # r4)" and r: "r = r4"
    and rt: "rt = \<lparr>rt_path = p, rt_target = t, rt_strip_prefix = s, rt_rewrite_prefix = w, rt_mode = m,
      rt_require_auth = auth\<rparr>"
    using rest by (auto simp: s w split: option.splits list.splits if_splits)
  have 1: "NL \<notin> set s \<and> no_breaks r2" by (rule take_strip_no_breaks [OF s \<open>no_breaks r1\<close>])
  then have 2: "NL \<notin> set w \<and> no_breaks r3" using take_rewrite_no_breaks [OF w] by simp
  then have 3: "NL \<notin> set t \<and> no_breaks (e # r4)" using take_proxy_no_breaks [OF t] by simp
  have "NL \<notin> set l" using assms(2) b by (simp add: no_breaks_def)
  then have "NL \<notin> set p" "m = ''route'' \<or> m = ''handle''" using route_header_wf [OF h] by auto
  then show ?thesis using 1 2 3 by (simp add: rt r wf_route_def no_breaks_def)
qed

lemma parse_routes_wf:
  "parse_routes body = Some rts \<Longrightarrow> no_breaks body \<Longrightarrow> \<forall>rt \<in> set rts. wf_route rt"
proof (induction body arbitrary: rts rule: parse_routes.induct)
  case (1 body)
  show ?case
  proof (cases "body = []")
    case True
    then show ?thesis using 1(2) by (simp add: parse_routes.simps [of "[]"])
  next
    case False
    then obtain rt r rts' where pr: "parse_route body = Some (rt, r)" and rs: "parse_routes r = Some rts'"
      and rts: "rts = rt # rts'"
      using 1(2) by (auto simp: parse_routes.simps [of body] split: option.splits)
    have w: "wf_route rt" "no_breaks r" using parse_route_wf [OF pr 1(3)] by auto
    have "\<forall>rt \<in> set rts'. wf_route rt" by (rule 1(1) [OF False pr refl rs w(2)])
    then show ?thesis using w(1) rts by simp
  qed
qed

lemma split_lines_no_breaks: "no_breaks (drop_blank_tail (split_on NL c))"
proof -
  have "l \<in> set (split_on NL c)" if "l \<in> set (drop_blank_tail (split_on NL c))" for l
    using that by (auto simp: drop_blank_tail_def dest: set_dropWhileD)
  then show ?thesis using split_on_no_sep by (auto simp: no_breaks_def)
qed

lemma parse_expose_wf:
  assumes "parse_expose n c = Some e"
  shows "wf_expose e \<and> ex_name e = n"
proof -
  define ls where "ls = drop_blank_tail (split_on NL c)"
  let ?h = "CHR ''@'' # n @ '' host ''"
  have nb: "no_breaks ls" unfolding ls_def by (rule split_lines_no_breaks)
  have ls3: "3 \<le> length ls" and pre: "has_prefix (ls ! 0) ?h"
    and e: "ex_name e = n" "ex_host e = trim_prefix (ls ! 0) ?h"
    and rts: "ex_routes e = [] \<or> parse_routes (butlast (drop 2 ls)) = Some (ex_routes e)"
    using assms unfolding parse_expose_def ls_def [symmetric]
    by (auto simp: Let_def split: if_splits)
  have "ls ! 0 \<in> set ls" using ls3 by (cases ls) auto
  then have "NL \<notin> set (ls ! 0)" using nb by (simp add: no_breaks_def)
  moreover have "set ?h \<subseteq> set (ls ! 0)" using pre by (auto simp: has_prefix_iff)
  ultimately have nl: "NL \<notin> set n" "NL \<notin> set (ex_host e)"
    using trim_prefix_set [of "ls ! 0" ?h] e(2) by auto
  have "no_breaks (butlast (drop 2 ls))"
    using nb by (auto simp: no_breaks_def dest: in_set_butlastD in_set_dropD)
  then have "\<forall>rt \<in> set (ex_routes e). wf_route rt" using rts parse_routes_wf by auto
  then show ?thesis using nl e(1) by (simp add: wf_expose_def)
qed

interpretation expose_template: fragment_template render_expose parse_expose ex_name wf_expose
  by unfold_locales (simp_all add: parse_render_expose parse_expose_wf)

section \<open>Validated exposes\<close>

lemma path_char_not_NL: "path_char c \<Longrightarrow> c \<noteq> NL"
  by (auto simp: path_char_def char_class_defs code_def)

lemma validate_path_like_eq_Inr [res_simps]:
  "validate_path_like f v = Inr u \<longleftrightarrow> (\<forall>c \<in> set v. path_char c)"
  by (simp add: validate_path_like_def match_star_cls)

lemma path_chars_no_NL: "\<forall>c \<in> set v. path_char c \<Longrightarrow> NL \<notin> set v"
  using path_char_not_NL by blast

lemma validate_route_wf:
  assumes "validate_route env rt = Inr u"
  shows "wf_route rt"
proof -
  have p: "\<forall>c \<in> set (rt_path rt). path_char c" "\<forall>c \<in> set (rt_strip_prefix rt). path_char c"
      "\<forall>c \<in> set (rt_rewrite_prefix rt). path_char c"
    and t: "validate_route_target env (rt_target rt) = Inr ()"
    and m: "rt_mode rt = ''route'' \<or> rt_mode rt = ''handle''"
    using assms
    by (auto simp: validate_route_def res_bind_eq_Inr map_error_eq_Inr validate_path_like_eq_Inr
        split: if_splits)
  have "NL \<notin> set (rt_target rt)"
    using validate_target_plain(4) [OF t [unfolded validate_route_target_def]] by blast
  then show ?thesis using p m by (simp add: wf_route_def path_chars_no_NL)
qed

lemma expose_host_chars: "rx_match expose_host_re h \<Longrightarrow> c \<in> set h \<Longrightarrow> dns_char c \<or> c = CHR ''.'' \<or> c = CHR ''*''"
  using rx_match_chars [of expose_host_re h c]
  by (auto simp: expose_host_re_def ROpt_def RPlus_def RChr_def)

lemma validate_name_eq_Inr [res_simps]: "validate_name n = Inr u \<longleftrightarrow> rx_match label_re n"
  by (simp add: validate_name_def)

lemma validate_expose_wf:
  assumes "validate_expose env e = Inr ()"
  shows "wf_expose e" and "rx_match label_re (ex_name e)"
proof -
  have n: "rx_match label_re (ex_name e)" and h: "rx_match expose_host_re (ex_host e)"
    and r: "\<forall>rt \<in> set (ex_routes e). validate_route env rt = Inr ()"
    using assms by (auto simp: validate_expose_def res_simps validate_expose_host_def split: if_splits)
  have "NL \<notin> set (ex_host e)"
    using expose_host_chars [OF h, of NL] by (auto simp: dns_char_def char_class_defs code_def)
  moreover have "NL \<notin> set (ex_name e)" using label_chars [OF n] by blast
  ultimately show "wf_expose e" using r validate_route_wf by (auto simp: wf_expose_def)
  show "rx_match label_re (ex_name e)" by (rule n)
qed

section \<open>The words of a rendering\<close>

text \<open>
  The template again, as the words of each line (\<open>strings.Fields\<close>): every value of the expose is a word of its own, or
  one with the constant text it is written next to.
\<close>

definition tinyauth_words :: "string list list" where
  "tinyauth_words =
     [[''forward_auth'', ''127.0.0.1:3000'', ''{''],
      [''uri'', ''/api/auth/caddy''],
      [''header_up'', ''X-Forwarded-Uri'', ''{http.request.orig_uri}''],
      [''header_up'', ''X-Forwarded-Host'', ''{http.request.host}''],
      [''header_up'', ''X-Forwarded-Proto'', ''{http.request.header.X-Forwarded-Proto}''],
      [''@tinyauth_login'', ''{''], [''status'', ''4xx''], [''header'', ''X-Tinyauth-Location'', ''*''], [''}''],
      [''handle_response'', ''@tinyauth_login'', ''{''], [''redir'', ''*'', ''{rp.header.X-Tinyauth-Location}''], [''}''],
      [''}'']]"

definition cookie_words :: "string list" where
  \<open>cookie_words = [''header_up'', ''Cookie'', ''"tinyauth-[^=;]*=[^;]*(;'', '')?"'', ''""'']\<close>

definition route_words :: "route \<Rightarrow> string list list" where
  "route_words rt =
     [if rt_path rt = [] then [rt_mode rt, ''{''] else [rt_mode rt, rt_path rt, ''{'']] @
     (if rt_require_auth rt then tinyauth_words else []) @
     (if rt_strip_prefix rt = [] then [] else [[''uri'', ''strip_prefix'', rt_strip_prefix rt]]) @
     (if rt_rewrite_prefix rt = [] then [] else [[''rewrite'', ''*'', rt_rewrite_prefix rt @ ''{uri}'']]) @
     [[''reverse_proxy'', rt_target rt, ''{''], cookie_words, [''}''], [''}'']]"

definition expose_words :: "expose \<Rightarrow> string list list" where
  "expose_words e =
     [[CHR ''@'' # ex_name e, ''host'', ex_host e], [''handle'', CHR ''@'' # ex_name e, ''{'']] @
     (if ex_routes e = [] then [[''respond'', ''404'']] else concat (map route_words (ex_routes e))) @ [[''}''], []]"

text \<open>The values of an expose, and the characters they are made of: no blank, quote, brace, backslash or number sign.\<close>

definition expose_values :: "expose \<Rightarrow> string list" where
  "expose_values e = ex_name e # ex_host e #
     concat (map (\<lambda>rt. [rt_path rt, rt_target rt, rt_strip_prefix rt, rt_rewrite_prefix rt]) (ex_routes e))"

definition value_chars :: string where
  "value_chars = ''0123456789ABCDEFGHIJKLMNOPQRSTUVWXYZabcdefghijklmnopqrstuvwxyz_.:[]-/*''"

definition word :: "string \<Rightarrow> bool" where
  "word w \<longleftrightarrow> w \<noteq> [] \<and> list_all (\<lambda>c. \<not> is_space c) w"

lemma fields_join: "list_all word ws \<Longrightarrow> Go_Prelude.fields (join '' '' ws) = ws"
proof (induction "'' ''" ws rule: join.induct)
  case (2 x)
  then show ?case using fields_word(1) [of x] by (simp add: word_def list_all_iff)
next
  case (3 x y ys)
  then show ?case using fields_word(2) [of x "CHR '' ''"] by (simp add: word_def list_all_iff is_space_def code_def)
qed (simp add: Go_Prelude.fields_def)

lemma fields_tab [simp]: "Go_Prelude.fields (TAB # s) = Go_Prelude.fields s"
  by (simp add: Go_Prelude.fields_def is_space_def code_def)

lemma value_word: "set v \<subseteq> set value_chars \<Longrightarrow> v \<noteq> [] \<Longrightarrow> word v"
proof -
  have "list_all (\<lambda>c. \<not> is_space c) value_chars" by code_simp
  then show "set v \<subseteq> set value_chars \<Longrightarrow> v \<noteq> [] \<Longrightarrow> word v" by (auto simp: word_def list_all_iff)
qed

text \<open>The lines with a value in them, and those without.\<close>

lemma word_parts: "word v \<Longrightarrow> word (v @ ''{uri}'') \<and> word (CHR ''@'' # v)"
  by (simp add: word_def is_space_def code_def)

lemma template_words:
  "word ''uri''" "word ''strip_prefix''" "word ''rewrite''" "word ''*''" "word ''reverse_proxy''" "word ''{''" "word ''host''"
  "word ''handle''" "word ''route''"
  by (simp_all add: word_def is_space_def code_def)

lemma value_lines:
  assumes "word v"
  shows "Go_Prelude.fields (''uri strip_prefix '' @ v) = [''uri'', ''strip_prefix'', v]"
    "Go_Prelude.fields (''rewrite * '' @ v @ ''{uri}'') = [''rewrite'', ''*'', v @ ''{uri}'']"
    "Go_Prelude.fields (''reverse_proxy '' @ v @ '' {'') = [''reverse_proxy'', v, ''{'']"
    "Go_Prelude.fields (''handle @'' @ v @ '' {'') = [''handle'', CHR ''@'' # v, ''{'']"
  using assms word_parts [OF assms] template_words
    fields_join [of "[''uri'', ''strip_prefix'', v]"] fields_join [of "[''rewrite'', ''*'', v @ ''{uri}'']"]
    fields_join [of "[''reverse_proxy'', v, ''{'']"] fields_join [of "[''handle'', CHR ''@'' # v, ''{'']"]
  by simp_all

lemma host_line: "word n \<Longrightarrow> word h \<Longrightarrow> Go_Prelude.fields (CHR ''@'' # n @ '' host '' @ h) = [CHR ''@'' # n, ''host'', h]"
  using word_parts [of n] template_words fields_join [of "[CHR ''@'' # n, ''host'', h]"] by simp

lemma header_lines:
  assumes "word m"
  shows "Go_Prelude.fields (m @ '' {'') = [m, ''{'']"
    "word p \<Longrightarrow> Go_Prelude.fields (m @ '' '' @ p @ '' {'') = [m, p, ''{'']"
  using assms template_words fields_join [of "[m, ''{'']"] fields_join [of "[m, p, ''{'']"] by simp_all

lemma constant_lines:
  "map Go_Prelude.fields (forward_auth_block [TAB, TAB]) = tinyauth_words"
  "Go_Prelude.fields strip_tinyauth_cookies = cookie_words"
  "Go_Prelude.fields ''}'' = [''}'']" "Go_Prelude.fields [] = []" "Go_Prelude.fields ''respond 404'' = [''respond'', ''404'']"
  by code_simp+

lemma route_lines_words:
  assumes "rt_mode rt = ''route'' \<or> rt_mode rt = ''handle''" "word (rt_target rt)"
    and "rt_path rt = [] \<or> word (rt_path rt)" "rt_strip_prefix rt = [] \<or> word (rt_strip_prefix rt)"
    and "rt_rewrite_prefix rt = [] \<or> word (rt_rewrite_prefix rt)"
  shows "map Go_Prelude.fields (route_lines rt) = route_words rt"
proof -
  have m: "(if rt_mode rt = ''route'' then ''route'' else ''handle'') = rt_mode rt" "word (rt_mode rt)"
    using assms(1) template_words by auto
  show ?thesis
    using assms(2-) constant_lines value_lines header_lines [OF m(2)]
    unfolding route_lines_def m(1) route_words_def by (auto simp: Let_def)
qed

text \<open>What a validated expose is made of.\<close>

lemma listed_chars:
  "target_char c \<Longrightarrow> c \<in> set value_chars" "path_char c \<Longrightarrow> c \<in> set value_chars"
  "dns_char c \<Longrightarrow> c \<in> set value_chars" "label_char c \<Longrightarrow> c \<in> set value_chars"
proof -
  have "set ''0123456789ABCDEFGHIJKLMNOPQRSTUVWXYZabcdefghijklmnopqrstuvwxyz_.:[]-'' \<subseteq> set value_chars"
    by (auto simp: value_chars_def)
  then show t: "target_char c \<Longrightarrow> c \<in> set value_chars" for c using target_char_listed by blast
  have rest: "c \<in> set value_chars" if "c = CHR ''/'' \<or> c = CHR ''*''" using that by (auto simp: value_chars_def)
  show "path_char c \<Longrightarrow> c \<in> set value_chars" using t [of c] rest by (auto simp: path_char_def target_char_def)
  show "dns_char c \<Longrightarrow> c \<in> set value_chars" using t [of c] by (auto simp: dns_char_def target_char_def)
  show "label_char c \<Longrightarrow> c \<in> set value_chars"
    using t [of c] by (auto simp: label_char_def label_edge_def target_char_def is_alnum_def)
qed

lemma validate_route_values:
  assumes "validate_route env rt = Inr u"
  shows "set (rt_path rt) \<subseteq> set value_chars" "set (rt_strip_prefix rt) \<subseteq> set value_chars"
    "set (rt_rewrite_prefix rt) \<subseteq> set value_chars" "set (rt_target rt) \<subseteq> set value_chars" "rt_target rt \<noteq> []"
  using assms listed_chars(1,2)
  by (auto simp: validate_route_def validate_route_target_def res_simps split: if_splits)

lemma validate_expose_values:
  assumes "validate_expose env e = Inr ()"
  shows "v \<in> set (expose_values e) \<Longrightarrow> set v \<subseteq> set value_chars"
    "ex_name e \<noteq> []" "ex_host e \<noteq> []" "rt \<in> set (ex_routes e) \<Longrightarrow> validate_route env rt = Inr ()"
proof -
  have n: "rx_match label_re (ex_name e)" and h: "rx_match expose_host_re (ex_host e)" "ex_host e \<noteq> []"
    and r: "\<forall>rt \<in> set (ex_routes e). validate_route env rt = Inr ()"
    using assms by (auto simp: validate_expose_def res_simps validate_expose_host_def split: if_splits)
  have "CHR ''.'' \<in> set value_chars" "CHR ''*'' \<in> set value_chars" by (simp_all add: value_chars_def)
  then have "set (ex_name e) \<subseteq> set value_chars" "set (ex_host e) \<subseteq> set value_chars"
    using n expose_host_chars [OF h(1)] listed_chars(3,4) by (auto simp: label_re_iff)
  moreover have "set v \<subseteq> set value_chars"
    if "rt \<in> set (ex_routes e)" "v \<in> set [rt_path rt, rt_target rt, rt_strip_prefix rt, rt_rewrite_prefix rt]" for v rt
    using that validate_route_values(1-4) [of env rt "()"] r by auto
  moreover have "v = ex_name e \<or> v = ex_host e \<or> (\<exists>rt \<in> set (ex_routes e).
      v \<in> set [rt_path rt, rt_target rt, rt_strip_prefix rt, rt_rewrite_prefix rt])" if "v \<in> set (expose_values e)"
    using that by (simp add: expose_values_def)
  ultimately show "v \<in> set (expose_values e) \<Longrightarrow> set v \<subseteq> set value_chars" by blast
  show "ex_name e \<noteq> []" "ex_host e \<noteq> []" using n h(2) by (auto simp: label_re_iff)
  show "rt \<in> set (ex_routes e) \<Longrightarrow> validate_route env rt = Inr ()" using r by blast
qed

lemma render_expose_words:
  assumes "validate_expose env e = Inr ()"
  shows "map Go_Prelude.fields (split_on NL (render_expose e)) = expose_words e"
proof -
  note v = validate_expose_values [OF assms]
  have "word (ex_name e)" "word (ex_host e)"
    using v(1) [of "ex_name e"] v(1) [of "ex_host e"] v(2,3) by (auto simp: expose_values_def intro: value_word)
  note first = host_line [OF this] value_lines(4) [OF \<open>word (ex_name e)\<close>]
  have "map Go_Prelude.fields (route_lines rt) = route_words rt" if "rt \<in> set (ex_routes e)" for rt
  proof -
    have r: "validate_route env rt = Inr ()" using v(4) that by blast
    then have "wf_route rt" by (rule validate_route_wf)
    then show ?thesis
      using validate_route_values [OF r] by (intro route_lines_words) (auto simp: wf_route_def intro: value_word)
  qed
  then have "map (\<lambda>rt. map Go_Prelude.fields (route_lines rt)) (ex_routes e) = map route_words (ex_routes e)" by simp
  then have "map Go_Prelude.fields (concat (map route_lines (ex_routes e))) = concat (map route_words (ex_routes e))"
    by (simp only: map_concat map_map comp_def)
  then have "map Go_Prelude.fields (expose_body e) =
      (if ex_routes e = [] then [[''respond'', ''404'']] else concat (map route_words (ex_routes e)))"
    using constant_lines(5) by (simp add: expose_body_def)
  then show ?thesis
    using split_render_expose [OF validate_expose_wf(1) [OF assms]] first constant_lines(3,4)
    by (simp add: expose_words_def)
qed

text \<open>
  C9.  A validated expose is read back from the fragment rendered for it, field by field; the words of the fragment's
  lines are those of the template (\<open>expose_words\<close>), each value a word of its own (a rewrite prefix with \<open>{uri}\<close> after
  it, the name with \<open>@\<close> before it); and the values have only letters, digits and \<open>_.:[]-/*\<close>.  So no value the
  validation admits splits a word, opens or closes a block, a quote or a comment, or adds a line.  (These are facts of
  the text; Caddy's own parser is not modelled.)
\<close>

theorem expose_round_trip:
  assumes "validate_expose env e = Inr ()"
  shows "parse_expose (ex_name e) (render_expose e) = Some e \<and>
    map Go_Prelude.fields (split_on NL (render_expose e)) = expose_words e \<and>
    list_all (\<lambda>v. set v \<subseteq> set ''0123456789ABCDEFGHIJKLMNOPQRSTUVWXYZabcdefghijklmnopqrstuvwxyz_.:[]-/*'') (expose_values e)"
  using parse_render_expose [OF validate_expose_wf(1) [OF assms]] render_expose_words [OF assms]
    validate_expose_values(1) [OF assms]
  by (simp add: list_all_iff value_chars_def [symmetric])

definition sample_expose :: expose where
  "sample_expose =
     \<lparr>ex_name = ''web'', ex_host = ''*.dev.example.com'',
      ex_routes =
        [\<lparr>rt_path = ''/api/*'', rt_target = ''code-docker:8080'', rt_strip_prefix = ''/api'',
          rt_rewrite_prefix = ''/v1'', rt_mode = ''handle'', rt_require_auth = True\<rparr>,
         \<lparr>rt_path = [], rt_target = ''dind:3000'', rt_strip_prefix = [], rt_rewrite_prefix = [],
          rt_mode = ''route'', rt_require_auth = False\<rparr>]\<rparr>"

lemma sample_expose_valid: "validate_expose (\<lambda>_. []) sample_expose = Inr ()"
  by code_simp

theorem expose_round_trip_witness:
  "parse_expose ''web'' (render_expose sample_expose) = Some sample_expose \<and>
   map Go_Prelude.fields (take 3 (split_on NL (render_expose sample_expose))) =
     [[''@web'', ''host'', ''*.dev.example.com''], [''handle'', ''@web'', ''{''], [''handle'', ''/api/*'', ''{'']]"
proof -
  note rt = expose_round_trip [OF sample_expose_valid]
  have "take 3 (expose_words sample_expose) =
      [[''@web'', ''host'', ''*.dev.example.com''], [''handle'', ''@web'', ''{''], [''handle'', ''/api/*'', ''{'']]"
    by code_simp
  moreover have "ex_name sample_expose = ''web''" by (simp add: sample_expose_def)
  ultimately show ?thesis using rt by (simp add: take_map [symmetric])
qed

section \<open>The operations on the site\<close>

lemma clean_managed_dir: "clean_dir managed_dir"
  unfolding clean_dir_def
  by (rule exI [of _ "[''var'', ''lib'', ''code-docker-router'', ''caddy-adapter'', ''managed'']"])
    (simp add: managed_dir_def)

lemma label_path_inj:
  "rx_match label_re n \<Longrightarrow> rx_match label_re m \<Longrightarrow>
     fragment_path managed_dir n = fragment_path managed_dir m \<longleftrightarrow> n = m"
  using label_chars [of n] label_chars [of m] by (intro fragment_path_inj clean_managed_dir) blast+

text \<open>
  C35.  An expose Caddy refuses changes nothing, neither the files nor what the running instance serves,
  when the roll-back's own calls succeed.
\<close>

theorem refused_expose_unchanged:
  assumes "create_expose env cad os e s = (Inl (InvalidCaddyfile msg), s') \<or>
     update_expose env cad os old e s = (Inl (InvalidCaddyfile msg), s')"
    and "\<not> fails os (ReadFile (fragment_path managed_dir (ex_name e)))"
    and "\<not> fails os (WriteFile (fragment_path managed_dir (ex_name e)))"
    and "\<not> fails os (Remove (fragment_path managed_dir (ex_name e)))"
  shows "s' = s"
  by (rule invalid_rolls_back [OF assms(2-4), of cad "render_expose e" s msg s' old])
    (use assms(1) in \<open>auto simp: create_expose_def update_expose_def split: sum.splits\<close>)

text \<open>
  C33.  A successful create wrote exactly the rendering, which Caddy accepted, reads back as the expose,
  and is what the running instance serves.
\<close>

theorem create_expose_spec:
  assumes "create_expose env cad os e s = (Inr (), s')"
  shows "\<exists>m. files s' = (files s)(fragment_path managed_dir (ex_name e) \<mapsto>
       \<lparr>contents = render_expose e, perm = m\<rparr>) \<and>
    parse_expose (ex_name e) (render_expose e) = Some e \<and> adapt cad (files s') = None \<and> live s' = files s'"
proof -
  have v: "validate_expose env e = Inr ()"
    and c: "create_fragment cad os managed_dir (ex_name e) (render_expose e) s =
      (Inr () :: expose_invalid fragment_error + unit, s')"
    using assms by (auto simp: create_expose_def split: sum.splits)
  show ?thesis using create_fragment_ok [OF c] parse_render_expose [OF validate_expose_wf(1) [OF v]] by auto
qed

text \<open>
  C34.  An update run alone never leaves the expose without a fragment, its old file or its new one being there: a
  rename whatever calls fail in it, and an update under the same name whatever calls fail in it other than the reading
  of the old fragment before it is overwritten.  (With that call failing it can: \<open>unread_fragment_removed\<close>.)
\<close>

theorem update_expose_never_missing:
  assumes "update_expose env cad os old e s = (r, s')" and "rx_match label_re old"
    and "old = ex_name e \<Longrightarrow> \<not> fails os (ReadFile (fragment_path managed_dir old))"
    and "files s (fragment_path managed_dir old) \<noteq> None"
  shows "files s' (fragment_path managed_dir old) \<noteq> None \<or>
    files s' (fragment_path managed_dir (ex_name e)) \<noteq> None"
proof (cases "validate_expose env e")
  case (Inl err)
  then show ?thesis using assms(1,4) by (simp add: update_expose_def)
next
  case (Inr u)
  then have "rx_match label_re (ex_name e)" using validate_expose_wf(2) [of env e] by simp
  then have i: "fragment_path managed_dir old = fragment_path managed_dir (ex_name e) \<longleftrightarrow> old = ex_name e"
    using assms(2) by (intro label_path_inj)
  have "update_fragment cad os managed_dir old (ex_name e) (render_expose e) s = (r, s')"
    using assms(1) Inr by (simp add: update_expose_def)
  then show ?thesis by (rule update_never_missing [OF _ assms(3,4) i])
qed

text \<open>
  C32.  \<open>Normalize\<close> leaves every fragment that does not parse as it was, gives every other one the
  rendering of its entry, and done twice finds nothing left to rewrite.
\<close>

theorem normalize_exposes_spec:
  assumes "normalize_exposes os (Entries es) fs = ((changed, None), fs')"
    and "\<And>p. \<not> fails os (ReadFile p)" and "distinct (entry_paths managed_dir es)"
  shows "(e \<in> set es \<and> is_fragment e \<longrightarrow>
      fs' (path_join managed_dir (fst e)) =
        map_option (repaired parse_expose render_expose (fst e)) (fs (path_join managed_dir (fst e)))) \<and>
    (q \<notin> set (entry_paths managed_dir es) \<longrightarrow> fs' q = fs q) \<and>
    normalize_exposes os2 (Entries es) fs' = (([], None), fs')"
proof -
  have n: "normalize_entries parse_expose render_expose os managed_dir es fs = ((changed, None), fs')"
    using assms(1) by (simp add: normalize_exposes_def normalize_fragments_def)
  show ?thesis
    using normalize_effect [OF n assms(2,3)] normalize_frame [OF n]
      expose_template.normalize_idem [OF n assms(2,3)]
    by (simp add: normalize_exposes_def normalize_fragments_def)
qed

section \<open>The properties on a concrete site\<close>

definition accepting :: caddy where
  "accepting = \<lparr>adapt = (\<lambda>_. None), load_config = (\<lambda>_. None)\<rparr>"

definition refusing :: caddy where
  "refusing = \<lparr>adapt = (\<lambda>_. Some ''bad''), load_config = (\<lambda>_. None)\<rparr>"

definition site_of :: "string fs \<Rightarrow> site" where
  "site_of fs = \<lparr>files = fs, live = fs\<rparr>"

definition web_path :: string where
  "web_path = ''/var/lib/code-docker-router/caddy-adapter/managed/web.caddy''"

lemma caddy_simps [simp]:
  "adapt accepting fs = None" "load_config accepting fs = None"
  "adapt refusing fs = Some ''bad''" "load_config refusing fs = None"
  "files (site_of fs) = fs" "live (site_of fs) = fs"
  by (simp_all add: accepting_def refusing_def site_of_def)

lemma web_path_eq: "fragment_path managed_dir ''web'' = web_path" "ex_name sample_expose = ''web''"
  by code_simp+

theorem refused_expose_unchanged_witness:
  "create_expose (\<lambda>_. []) refusing quiet_os sample_expose (site_of Map.empty) =
     (Inl (InvalidCaddyfile ''bad''), site_of Map.empty)"
proof -
  obtain r s' where run: "create_expose (\<lambda>_. []) refusing quiet_os sample_expose (site_of Map.empty) = (r, s')"
    by fastforce
  then have "r = Inl (InvalidCaddyfile ''bad'')"
    by (auto simp: create_expose_def sample_expose_valid create_fragment_def write_then_reload_def
        write_and_validate_def stat_ok_def syscall_defs read_file_def web_path_eq)
  with run refused_expose_unchanged [of "\<lambda>_. []" refusing quiet_os sample_expose "site_of Map.empty" "''bad''" s']
  show ?thesis by simp
qed

theorem create_expose_spec_witness:
  "\<exists>s' m. create_expose (\<lambda>_. []) accepting quiet_os sample_expose (site_of Map.empty) = (Inr (), s') \<and>
     files s' = [web_path \<mapsto> \<lparr>contents = render_expose sample_expose, perm = m\<rparr>] \<and> live s' = files s'"
proof -
  obtain r s' where run: "create_expose (\<lambda>_. []) accepting quiet_os sample_expose (site_of Map.empty) = (r, s')"
    by fastforce
  then have "r = Inr ()"
    by (auto simp: create_expose_def sample_expose_valid create_fragment_def write_then_reload_def
        write_and_validate_def stat_ok_def syscall_defs read_file_def web_path_eq
        reload_after_write_def reload_caddy_def)
  with run create_expose_spec [of "\<lambda>_. []" accepting quiet_os sample_expose "site_of Map.empty" s']
  show ?thesis by (auto simp: web_path_eq)
qed

theorem update_expose_never_missing_witness:
  "\<exists>s'. snd (update_expose (\<lambda>_. []) accepting
        (quiet_os\<lparr>fails := \<lambda>c. c = Remove (fragment_path managed_dir ''old'')\<rparr>) ''old'' sample_expose
        (site_of [fragment_path managed_dir ''old'' \<mapsto> \<lparr>contents = ''x'', perm = 0x1A4\<rparr>])) = s' \<and>
     (files s' (fragment_path managed_dir ''old'') \<noteq> None \<or> files s' web_path \<noteq> None)"
proof -
  let ?os = "quiet_os\<lparr>fails := \<lambda>c. c = Remove (fragment_path managed_dir ''old'')\<rparr>"
  let ?s = "site_of [fragment_path managed_dir ''old'' \<mapsto> \<lparr>contents = ''x'', perm = 0x1A4\<rparr>]"
  have "rx_match label_re ''old''" by code_simp
  moreover obtain r s' where "update_expose (\<lambda>_. []) accepting ?os ''old'' sample_expose ?s = (r, s')"
    by fastforce
  ultimately show ?thesis
    using update_expose_never_missing [of "\<lambda>_. []" accepting ?os "''old''" sample_expose ?s r s']
    by (simp add: web_path_eq)
qed

definition legacy_fragment :: string where
  "legacy_fragment = text_of
     ([''@web host dev.example.com'', ''handle @web {'', TAB # ''handle {''] @
      legacy_forward_auth_block [TAB, TAB] @
      [TAB # TAB # ''reverse_proxy code-docker:8080'', TAB # ''}'', ''}''])"

definition legacy_expose :: expose where
  "legacy_expose =
     \<lparr>ex_name = ''web'', ex_host = ''dev.example.com'',
      ex_routes = [\<lparr>rt_path = [], rt_target = ''code-docker:8080'', rt_strip_prefix = [],
        rt_rewrite_prefix = [], rt_mode = ''handle'', rt_require_auth = True\<rparr>]\<rparr>"

lemma parse_legacy_fragment: "parse_expose ''web'' legacy_fragment = Some legacy_expose"
  by code_simp

lemma legacy_paths:
  "path_join managed_dir ''web.caddy'' = web_path" "trim_suffix ''web.caddy'' ''.caddy'' = ''web''"
  "has_suffix ''web.caddy'' ''.caddy''"
  by code_simp+

theorem normalize_exposes_spec_witness:
  "\<exists>fs'. normalize_exposes quiet_os (Entries [(''web.caddy'', False)])
      [web_path \<mapsto> \<lparr>contents = legacy_fragment, perm = 0x1A4\<rparr>] = (([''web''], None), fs') \<and>
    fs' web_path = Some \<lparr>contents = render_expose legacy_expose, perm = 0x1A4\<rparr> \<and>
    normalize_exposes quiet_os (Entries [(''web.caddy'', False)]) fs' = (([], None), fs')"
proof -
  let ?es = "[(''web.caddy'', False)]" and ?fs = "[web_path \<mapsto> \<lparr>contents = legacy_fragment, perm = 0x1A4\<rparr>]"
  have "render_expose legacy_expose \<noteq> legacy_fragment" by code_simp
  then obtain fs' where run: "normalize_exposes quiet_os (Entries ?es) ?fs = (([''web''], None), fs')"
    by (simp add: normalize_exposes_def normalize_fragments_def legacy_paths repair_entry_def read_file_def
        parse_legacy_fragment write_file_def file_mode_def)
  have "is_fragment (''web.caddy'', False)" by (simp add: is_fragment_def legacy_paths)
  with normalize_exposes_spec [OF run, of "(''web.caddy'', False)" "[]" quiet_os] run show ?thesis
    by (simp add: entry_paths_def legacy_paths repaired_def parse_legacy_fragment)
qed

text \<open>
  \<open>writeAndValidate\<close> takes a fragment it cannot read for one that is not there: when Caddy then refuses the new one, the
  roll-back removes it, and the expose is gone.
\<close>

theorem unread_fragment_removed:
  "\<exists>s'. update_expose (\<lambda>_. []) refusing (quiet_os\<lparr>fails := \<lambda>c. c = ReadFile web_path\<rparr>) ''web'' sample_expose
      (site_of [web_path \<mapsto> f]) = (Inl (InvalidCaddyfile ''bad''), s') \<and> files s' web_path = None"
  by (simp add: update_expose_def sample_expose_valid update_fragment_def web_path_eq stat_ok_def
      write_and_validate_def syscall_defs read_file_def quiet_os_def)

text \<open>
  Two creations of one name whose calls overlap: each finds no fragment (\<open>os.Stat\<close>) before the other has written its own.
  What the second has left to do is \<open>write_then_reload\<close>; both report success, and the first expose is lost.
\<close>

theorem overlapping_creates_lose:
  "\<exists>s1 s2. create_expose (\<lambda>_. []) accepting quiet_os sample_expose (site_of Map.empty) = (Inr (), s1) \<and>
     \<not> stat_ok quiet_os (files (site_of Map.empty)) (fragment_path managed_dir ''web'') \<and>
     write_then_reload accepting quiet_os managed_dir ''web'' (render_expose legacy_expose) s1 =
       (Inr () :: expose_invalid fragment_error + unit, s2) \<and>
     map_option contents (files s2 web_path) = Some (render_expose legacy_expose)"
  by (simp add: create_expose_def sample_expose_valid create_fragment_def write_then_reload_def write_and_validate_def
      stat_ok_def syscall_defs read_file_def web_path_eq reload_after_write_def reload_caddy_def)

text \<open>
  \<open>UpdateStructured\<close> takes the old name as it comes: with one that climbs out of the directory a
  rename removes a fragment of another feature, and reports success.
\<close>

theorem update_old_name_escapes:
  "\<exists>s'. update_expose (\<lambda>_. []) accepting quiet_os ''../apps/code'' sample_expose
      (site_of [''/var/lib/code-docker-router/caddy-adapter/apps/code.caddy'' \<mapsto> f]) = (Inr (), s') \<and>
    files s' ''/var/lib/code-docker-router/caddy-adapter/apps/code.caddy'' = None"
proof -
  have p: "fragment_path managed_dir ''../apps/code'' = ''/var/lib/code-docker-router/caddy-adapter/apps/code.caddy''"
    by code_simp
  show ?thesis
    by (simp add: update_expose_def sample_expose_valid update_fragment_def p web_path_eq stat_ok_def
        write_and_validate_def syscall_defs read_file_def reload_after_write_def reload_caddy_def)
      (simp add: web_path_def)
qed

end
