(* ===== verification/Go_Base64.thy ===== *)
theory Go_Base64
  imports Go_Prelude
begin

text \<open>
  The unpadded encodings of package \<open>encoding/base64\<close> (\<open>RawStdEncoding\<close>, \<open>RawURLEncoding\<close>) and
  \<open>encoding/hex\<close>, on byte strings.  As in Go the decoder skips line breaks and does not insist that
  the unused low bits of the last digit are zero.
\<close>

text \<open>The two alphabets differ in their last two digits.\<close>

datatype alphabet = StdAlphabet | URLAlphabet

fun digit62 :: "alphabet \<Rightarrow> char" where
  "digit62 StdAlphabet = CHR ''+''"
| "digit62 URLAlphabet = CHR ''-''"

fun digit63 :: "alphabet \<Rightarrow> char" where
  "digit63 StdAlphabet = CHR ''/''"
| "digit63 URLAlphabet = CHR ''_''"

definition b64_digit :: "alphabet \<Rightarrow> nat \<Rightarrow> char" where
  "b64_digit al n =
     (if n < 26 then char_of (65 + n)
      else if n < 52 then char_of (71 + n)
      else if n < 62 then char_of (n - 4)
      else if n = 62 then digit62 al
      else digit63 al)"

definition b64_val :: "alphabet \<Rightarrow> char \<Rightarrow> nat option" where
  "b64_val al c =
     (if is_upper c then Some (code c - 65)
      else if is_lower c then Some (code c - 71)
      else if is_digit c then Some (code c + 4)
      else if c = digit62 al then Some 62
      else if c = digit63 al then Some 63
      else None)"

fun b64_encode :: "alphabet \<Rightarrow> string \<Rightarrow> string" where
  "b64_encode al [] = []"
| "b64_encode al [a] = [b64_digit al (code a div 4), b64_digit al (code a mod 4 * 16)]"
| "b64_encode al [a, b] =
     [b64_digit al (code a div 4), b64_digit al (code a mod 4 * 16 + code b div 16),
      b64_digit al (code b mod 16 * 4)]"
| "b64_encode al (a # b # c # r) =
     b64_digit al (code a div 4) # b64_digit al (code a mod 4 * 16 + code b div 16) #
     b64_digit al (code b mod 16 * 4 + code c div 64) # b64_digit al (code c mod 64) # b64_encode al r"

fun b64_groups :: "nat list \<Rightarrow> string option" where
  "b64_groups [] = Some []"
| "b64_groups [p] = None"
| "b64_groups [p, q] = Some [char_of (p * 4 + q div 16)]"
| "b64_groups [p, q, s] = Some [char_of (p * 4 + q div 16), char_of (q mod 16 * 16 + s div 4)]"
| "b64_groups (p # q # s # t # r) =
     map_option (\<lambda>u. char_of (p * 4 + q div 16) # char_of (q mod 16 * 16 + s div 4) #
                     char_of (s mod 4 * 64 + t) # u) (b64_groups r)"

fun all_some :: "'a option list \<Rightarrow> 'a list option" where
  "all_some [] = Some []"
| "all_some (None # xs) = None"
| "all_some (Some x # xs) = map_option ((#) x) (all_some xs)"

definition b64_decode :: "alphabet \<Rightarrow> string \<Rightarrow> string option" where
  "b64_decode al s =
     (case all_some (map (b64_val al) (filter (\<lambda>c. c \<noteq> CHR 0x0A \<and> c \<noteq> CHR 0x0D) s)) of
        None \<Rightarrow> None
      | Some ns \<Rightarrow> b64_groups ns)"

section \<open>Round trip\<close>

lemma code_less [simp]: "code c < 256"
  by (simp add: code_def)

lemma code_char_of [simp]: "n < 256 \<Longrightarrow> code (char_of n) = n"
  by (simp add: code_def)

lemma char_of_code [simp]: "char_of (code c) = c"
  by (simp add: code_def)

lemma code_digits [simp]:
  "code CHR ''+'' = 43" "code CHR ''-'' = 45" "code CHR ''/'' = 47" "code CHR ''_'' = 95"
  by (simp_all add: code_def)

lemma code_eq_iff: "code c = code d \<longleftrightarrow> c = d"
  by (metis char_of_code)

lemma code_div [simp]: "code a div 4 < 64" "code a div 16 < 16" "code a div 64 < 4"
  using code_less [of a] by (simp_all add: less_mult_imp_div_less)

lemma two_digits:
  assumes "(r :: nat) < m"
  shows "(k * m + r) div m = k" "(k * m + r) mod m = r"
  using assms by simp_all

lemma two_digits_less:
  assumes "(k :: nat) < j" "r < m"
  shows "k * m + r < j * m"
proof -
  have "Suc k * m \<le> j * m" using assms(1) by (intro mult_le_mono1) simp
  then show ?thesis using assms(2) by simp
qed

lemma b64_bounds [simp]:
  "code a mod 4 * 16 < 64" "code b mod 16 * 4 < 64" "code c mod 64 < 64"
  "code a mod 4 * 16 + code b div 16 < 64" "code b mod 16 * 4 + code c div 64 < 64"
  using two_digits_less [of "code a mod 4" 4 0 16] two_digits_less [of "code b mod 16" 16 0 4]
    two_digits_less [of "code a mod 4" 4 "code b div 16" 16]
    two_digits_less [of "code b mod 16" 16 "code c div 64" 4] by simp_all

lemma b64_val_digit [simp]: "n < 64 \<Longrightarrow> b64_val al (b64_digit al n) = Some n"
proof -
  assume n: "n < 64"
  have "code (b64_digit al n) =
    (if n < 26 then 65 + n else if n < 52 then 71 + n else if n < 62 then n - 4
     else if n = 62 then code (digit62 al) else code (digit63 al))"
    using n by (simp add: b64_digit_def)
  then show ?thesis using n
    by (cases al) (auto simp: b64_val_def b64_digit_def char_class_defs)
qed

lemma b64_digit_class:
  "n < 64 \<Longrightarrow> is_alnum (b64_digit al n) \<or> b64_digit al n = digit62 al \<or> b64_digit al n = digit63 al"
  by (auto simp: b64_digit_def char_class_defs)

lemma group_bits [simp]:
  "code a div 4 * 4 + (code a mod 4 * 16) div 16 = code a"
  "code a div 4 * 4 + (code a mod 4 * 16 + code b div 16) div 16 = code a"
  "(code a mod 4 * 16 + code b div 16) mod 16 * 16 + (code b mod 16 * 4) div 4 = code b"
  "(code a mod 4 * 16 + code b div 16) mod 16 * 16 + (code b mod 16 * 4 + code c div 64) div 4 = code b"
  "(code b mod 16 * 4 + code c div 64) mod 4 * 64 + code c mod 64 = code c"
  by (simp_all add: two_digits)

lemma b64_encode_class:
  "x \<in> set (b64_encode al s) \<Longrightarrow> is_alnum x \<or> x = digit62 al \<or> x = digit63 al"
proof -
  have d: "n < 64 \<Longrightarrow> x = b64_digit al n \<Longrightarrow> is_alnum x \<or> x = digit62 al \<or> x = digit63 al" for n
    using b64_digit_class [of n al] by simp
  show "x \<in> set (b64_encode al s) \<Longrightarrow> is_alnum x \<or> x = digit62 al \<or> x = digit63 al"
    using d
    by (induction al s rule: b64_encode.induct)
      (simp_all only: b64_encode.simps list.set insert_iff empty_iff, (metis b64_bounds code_div)+)
qed

lemma b64_groups_encode:
  "\<exists>ns. all_some (map (b64_val al) (b64_encode al s)) = Some ns \<and> b64_groups ns = Some s"
  by (induction al s rule: b64_encode.induct) (auto simp: group_bits)

theorem b64_decode_encode: "b64_decode al (b64_encode al s) = Some s"
proof -
  have "c \<noteq> CHR 0x0A \<and> c \<noteq> CHR 0x0D" if "c \<in> set (b64_encode al s)" for c
    using b64_encode_class [OF that] by (cases al) (auto simp: char_class_defs code_def)
  then have "filter (\<lambda>c. c \<noteq> CHR 0x0A \<and> c \<noteq> CHR 0x0D) (b64_encode al s) = b64_encode al s"
    by (simp add: filter_id_conv)
  then show ?thesis using b64_groups_encode [of al s] by (auto simp: b64_decode_def)
qed

lemma b64_encode_not_in:
  assumes "\<not> is_alnum x" "x \<noteq> digit62 al" "x \<noteq> digit63 al"
  shows "x \<notin> set (b64_encode al s)"
  using assms b64_encode_class by blast

section \<open>Hexadecimal\<close>

definition hex_digit :: "nat \<Rightarrow> char" where
  "hex_digit n = (if n < 10 then char_of (48 + n) else char_of (87 + n))"

definition hex_encode :: "string \<Rightarrow> string" where
  "hex_encode s = concat (map (\<lambda>c. [hex_digit (code c div 16), hex_digit (code c mod 16)]) s)"

lemma hex_digit_class: "n < 16 \<Longrightarrow> is_lower (hex_digit n) \<or> is_digit (hex_digit n)"
  by (auto simp: hex_digit_def char_class_defs)

lemma hex_encode_class: "x \<in> set (hex_encode s) \<Longrightarrow> is_lower x \<or> is_digit x"
proof -
  assume "x \<in> set (hex_encode s)"
  then obtain c where "x = hex_digit (code c div 16) \<or> x = hex_digit (code c mod 16)"
    by (auto simp: hex_encode_def)
  moreover have "code c mod 16 < 16" by simp
  ultimately show ?thesis using hex_digit_class code_div(2) by metis
qed

lemma length_hex_encode: "length (hex_encode s) = 2 * length s"
  by (induction s) (auto simp: hex_encode_def)

end
