(* ===== verification/App_Routes.thy ===== *)
theory App_Routes
  imports Dev_Proxy Go_Base64
begin

text \<open>
  \<open>internal/approutes\<close>: apps routed by path (\<open>/app/<name>/...\<close>), one fragment each in a directory of
  their own.  The file plumbing is the one of \<open>Caddy_Fragments\<close>, which this package repeats; its own
  part is the template, with the rewriting of \<open>Location\<close>, and its validation.
\<close>

definition apps_dir :: string where
  "apps_dir = ''/var/lib/code-docker-router/caddy-adapter/apps''"

record app =
  app_name :: string
  app_target :: string
  app_auth :: bool

section \<open>Validation\<close>

datatype app_invalid = BadAppName expose_invalid | BadAppTarget guard_error

definition app_allowed_hosts :: "env \<Rightarrow> string set" where
  "app_allowed_hosts env = default_allowed_hosts env"

definition validate_app_target :: "env \<Rightarrow> string \<Rightarrow> guard_error + unit" where
  "validate_app_target env target =
     validate_target env target (app_allowed_hosts env) ''APPROUTES_ALLOW_EXTERNAL_TARGETS'' ''App Route''"

definition validate_app :: "env \<Rightarrow> app \<Rightarrow> app_invalid + unit" where
  "validate_app env a =
     res_bind (map_error BadAppName (validate_name (app_name a))) (\<lambda>_.
     res_bind (map_error BadAppTarget (validate_app_target env (app_target a))) (\<lambda>_.
     Inr ()))"

section \<open>The template\<close>

text \<open>
  \<open>fmt\<close>'s \<open>%q\<close> on ASCII; the bytes of a printable character outside ASCII stay as they are (names that
  hold unprintable or malformed ones, which no validation admits, are not modelled).
\<close>

definition quote_char :: "char \<Rightarrow> string" where
  "quote_char c =
     (if c = CHR 0x22 \<or> c = CHR 0x5C then [CHR 0x5C, c]
      else if code c = 7 then [CHR 0x5C, CHR ''a'']
      else if code c = 8 then [CHR 0x5C, CHR ''b'']
      else if code c = 9 then [CHR 0x5C, CHR ''t'']
      else if code c = 10 then [CHR 0x5C, CHR ''n'']
      else if code c = 11 then [CHR 0x5C, CHR ''v'']
      else if code c = 12 then [CHR 0x5C, CHR ''f'']
      else if code c = 13 then [CHR 0x5C, CHR ''r'']
      else if code c < 32 \<or> code c = 127
        then [CHR 0x5C, CHR ''x'', hex_digit (code c div 16), hex_digit (code c mod 16)]
      else [c])"

definition go_quote :: "string \<Rightarrow> string" where
  "go_quote s = CHR 0x22 # concat (map quote_char s) @ [CHR 0x22]"

definition location_search :: string where
  "location_search = ''^(https?://[^/]+)/''"

definition location_replace :: "string \<Rightarrow> string" where
  "location_replace name = ''${1}/app/'' @ name @ ''/''"

definition location_line :: "string \<Rightarrow> string" where
  "location_line name =
     TAB # TAB # ''header_down Location '' @ go_quote location_search @ '' '' @ go_quote (location_replace name)"

definition app_header :: "string \<Rightarrow> string" where
  "app_header name = ''handle_path /app/'' @ name @ ''/* {''"

definition render_app :: "app \<Rightarrow> string" where
  "render_app a =
     text_of ([app_header (app_name a)] @
       (if app_auth a then forward_auth_block [TAB] else []) @
       [TAB # ''reverse_proxy '' @ app_target a @ '' {'',
        location_line (app_name a),
        TAB # TAB # strip_tinyauth_cookies,
        TAB # ''}'',
        ''}''])"

text \<open>The lines of the body after the \<open>forward_auth\<close> block.\<close>

definition parse_app_proxy :: "string \<Rightarrow> bool \<Rightarrow> string list \<Rightarrow> app option" where
  "parse_app_proxy name auth ls =
     (case ls of
        l # h # r \<Rightarrow>
          if \<not> has_prefix l (TAB # ''reverse_proxy '') \<or> \<not> has_suffix l '' {'' then None
          else let target = trim_suffix (trim_prefix l (TAB # ''reverse_proxy '')) '' {''
            in if h \<noteq> location_line name then None
               else let r' = (if r \<noteq> [] \<and> hd r = TAB # TAB # strip_tinyauth_cookies then tl r else r)
                 in if r' = [] \<or> hd r' \<noteq> TAB # ''}'' then None
                    else if tl r' \<noteq> [] then None
                    else Some \<lparr>app_name = name, app_target = target, app_auth = auth\<rparr>
      | _ \<Rightarrow> None)"

definition parse_app :: "string \<Rightarrow> string \<Rightarrow> app option" where
  "parse_app name content =
     (let lines = drop_blank_tail (split_on NL content)
      in if length lines < 3 \<or> lines ! 0 \<noteq> app_header name \<or> last lines \<noteq> ''}'' then None
         else let body = butlast (drop 1 lines)
           in case match_forward_auth body [TAB] of
                Some r \<Rightarrow> parse_app_proxy name True r
              | None \<Rightarrow>
                  if body \<noteq> [] \<and> has_prefix (hd body) (TAB # ''forward_auth '') then None
                  else parse_app_proxy name False body)"

section \<open>Operations\<close>

type_synonym 'a app_result = "(app_invalid fragment_error + 'a) \<times> site"

definition app_path :: "string \<Rightarrow> string" where
  "app_path name = fragment_path apps_dir name"

definition write_app ::
    "caddy \<Rightarrow> string os \<Rightarrow> string \<Rightarrow> string \<Rightarrow> string fs \<Rightarrow> (app_invalid fragment_error + unit) \<times> string fs" where
  "write_app cad os name content fs = write_and_validate cad os apps_dir name content fs"

definition reload_app :: "caddy \<Rightarrow> site \<Rightarrow> unit app_result" where
  "reload_app cad s = reload_after_write cad s"

definition create_app :: "env \<Rightarrow> caddy \<Rightarrow> string os \<Rightarrow> app \<Rightarrow> site \<Rightarrow> unit app_result" where
  "create_app env cad os a s =
     (case validate_app env a of
        Inl err \<Rightarrow> (Inl (Invalid err), s)
      | Inr _ \<Rightarrow>
          if stat_ok os (files s) (app_path (app_name a)) then (Inl EntryExists, s)
          else case write_app cad os (app_name a) (render_app a) (files s) of
            (Inl e, fs1) \<Rightarrow> (Inl e, s\<lparr>files := fs1\<rparr>)
          | (Inr _, fs1) \<Rightarrow> reload_app cad (s\<lparr>files := fs1\<rparr>))"

definition update_app :: "env \<Rightarrow> caddy \<Rightarrow> string os \<Rightarrow> string \<Rightarrow> app \<Rightarrow> site \<Rightarrow> unit app_result" where
  "update_app env cad os old a s =
     (case validate_app env a of
        Inl err \<Rightarrow> (Inl (Invalid err), s)
      | Inr _ \<Rightarrow>
          if \<not> stat_ok os (files s) (app_path old) then (Inl EntryNotFound, s)
          else let renaming = app_name a \<noteq> old
            in if renaming \<and> stat_ok os (files s) (app_path (app_name a)) then (Inl EntryExists, s)
               else case write_app cad os (app_name a) (render_app a) (files s) of
                 (Inl e, fs1) \<Rightarrow> (Inl e, s\<lparr>files := fs1\<rparr>)
               | (Inr _, fs1) \<Rightarrow>
                   if renaming then
                     (case remove os (app_path old) fs1 of
                        (Inl e, fs2) \<Rightarrow> (Inl (FragmentIO e), s\<lparr>files := fs2\<rparr>)
                      | (Inr _, fs2) \<Rightarrow> reload_app cad (s\<lparr>files := fs2\<rparr>))
                   else reload_app cad (s\<lparr>files := fs1\<rparr>))"

definition update_app_raw :: "caddy \<Rightarrow> string os \<Rightarrow> string \<Rightarrow> string \<Rightarrow> site \<Rightarrow> unit app_result" where
  "update_app_raw cad os name text s =
     (case validate_name name of
        Inl err \<Rightarrow> (Inl (Invalid (BadAppName err)), s)
      | Inr _ \<Rightarrow>
          if \<not> stat_ok os (files s) (app_path name) then (Inl EntryNotFound, s)
          else case write_app cad os name text (files s) of
            (Inl e, fs1) \<Rightarrow> (Inl e, s\<lparr>files := fs1\<rparr>)
          | (Inr _, fs1) \<Rightarrow> reload_app cad (s\<lparr>files := fs1\<rparr>))"

definition delete_app :: "caddy \<Rightarrow> string os \<Rightarrow> string \<Rightarrow> site \<Rightarrow> unit app_result" where
  "delete_app cad os name s =
     (case validate_name name of
        Inl err \<Rightarrow> (Inl (Invalid (BadAppName err)), s)
      | Inr _ \<Rightarrow>
          if \<not> stat_ok os (files s) (app_path name) then (Inl EntryNotFound, s)
          else case remove os (app_path name) (files s) of
            (Inl e, fs1) \<Rightarrow> (Inl (FragmentIO e), s\<lparr>files := fs1\<rparr>)
          | (Inr _, fs1) \<Rightarrow>
              (case adapt cad fs1 of
                 Some msg \<Rightarrow> (Inl (InvalidAfterDelete msg), s\<lparr>files := fs1\<rparr>)
               | None \<Rightarrow> reload_app cad (s\<lparr>files := fs1\<rparr>)))"

definition list_apps :: "string os \<Rightarrow> listing \<Rightarrow> string fs \<Rightarrow> io_error + app fragment_info list" where
  "list_apps os ls fs = list_fragments parse_app os apps_dir ls fs"

definition normalize_apps ::
    "string os \<Rightarrow> listing \<Rightarrow> string fs \<Rightarrow> (string list \<times> io_error option) \<times> string fs" where
  "normalize_apps os ls fs = normalize_fragments parse_app render_app os apps_dir ls fs"

text \<open>The operations are those of \<open>Caddy_Fragments\<close> on \<open>apps_dir\<close>, once the arguments are validated.\<close>

lemmas app_plumbing = app_path_def write_app_def reload_app_def

lemma create_app_eq:
  "create_app env cad os a s =
     (case validate_app env a of
        Inl err \<Rightarrow> (Inl (Invalid err), s)
      | Inr _ \<Rightarrow> create_fragment cad os apps_dir (app_name a) (render_app a) s)"
  unfolding create_app_def create_fragment_def write_then_reload_def app_plumbing by (rule refl)

lemma update_app_eq:
  "update_app env cad os old a s =
     (case validate_app env a of
        Inl err \<Rightarrow> (Inl (Invalid err), s)
      | Inr _ \<Rightarrow> update_fragment cad os apps_dir old (app_name a) (render_app a) s)"
  unfolding update_app_def update_fragment_def Let_def app_plumbing by (rule refl)

lemma update_app_raw_eq:
  "update_app_raw cad os name text s =
     (case validate_name name of
        Inl err \<Rightarrow> (Inl (Invalid (BadAppName err)), s)
      | Inr _ \<Rightarrow> update_raw_fragment cad os apps_dir name text s)"
  unfolding update_app_raw_def update_raw_fragment_def write_then_reload_def app_plumbing by (rule refl)

lemma delete_app_eq:
  "delete_app cad os name s =
     (case validate_name name of
        Inl err \<Rightarrow> (Inl (Invalid (BadAppName err)), s)
      | Inr _ \<Rightarrow> delete_fragment cad os apps_dir name s)"
  unfolding delete_app_def delete_fragment_def Let_def app_plumbing by (rule refl)

section \<open>Reading a rendering back\<close>

definition wf_app :: "app \<Rightarrow> bool" where
  "wf_app a \<longleftrightarrow> NL \<notin> set (app_name a) \<and> NL \<notin> set (app_target a)"

lemma hex_digit_not_NL: "n < 16 \<Longrightarrow> hex_digit n \<noteq> NL"
  using hex_digit_class [of n] by (auto simp: char_class_defs code_def)

lemma quote_char_no_NL: "NL \<notin> set (quote_char c)"
proof -
  have "code c < 256" unfolding code_def by simp
  then have "code c div 16 < 16" by simp
  then have "hex_digit (code c div 16) \<noteq> NL" "hex_digit (code c mod 16) \<noteq> NL"
    by (simp_all add: hex_digit_not_NL)
  moreover have "code NL = 10" by (simp add: code_def)
  ultimately show ?thesis by (auto simp: quote_char_def)
qed

lemma location_line_no_NL: "NL \<notin> set (location_line n)"
  by (auto simp: location_line_def go_quote_def quote_char_no_NL)

lemma parse_app_proxy_lines:
  "parse_app_proxy n auth
     [TAB # ''reverse_proxy '' @ t @ '' {'', location_line n, TAB # TAB # strip_tinyauth_cookies, TAB # ''}''] =
   Some \<lparr>app_name = n, app_target = t, app_auth = auth\<rparr>"
proof -
  let ?pre = "TAB # ''reverse_proxy ''"
  have "has_prefix (?pre @ t @ '' {'') ?pre" "trim_prefix (?pre @ t @ '' {'') ?pre = t @ '' {''"
    by (simp_all only: has_prefix_append trim_prefix_append)
  moreover have "has_suffix ((?pre @ t) @ '' {'') '' {''" by (rule has_suffix_append)
  ultimately show ?thesis by (simp add: parse_app_proxy_def)
qed

lemma parse_render_app:
  assumes "wf_app a"
  shows "parse_app (app_name a) (render_app a) = Some a"
proof -
  define tail where "tail = [TAB # ''reverse_proxy '' @ app_target a @ '' {'', location_line (app_name a),
      TAB # TAB # strip_tinyauth_cookies, TAB # ''}'']"
  define block where "block = (if app_auth a then forward_auth_block [TAB] else [])"
  have r: "render_app a = text_of ((app_header (app_name a) # block @ tail) @ [''}''])"
    by (simp add: render_app_def block_def tail_def)
  have nl: "NL \<notin> set l" if "l \<in> set (app_header (app_name a) # block @ tail)" for l
  proof -
    have "NL \<notin> set (app_header (app_name a))" using assms by (simp add: app_header_def wf_app_def)
    moreover have "l \<in> set block \<Longrightarrow> NL \<notin> set l"
      using forward_auth_no_NL [of "[TAB]" l] by (auto simp: block_def split: if_splits)
    moreover have "l \<in> set tail \<Longrightarrow> NL \<notin> set l"
      using assms location_line_no_NL by (auto simp: tail_def wf_app_def)
    ultimately show ?thesis using that by auto
  qed
  have "trim_space ''}'' \<noteq> []" by code_simp
  then have lines: "drop_blank_tail (split_on NL (render_app a)) =
      (app_header (app_name a) # block @ tail) @ [''}'']"
    unfolding r using nl by (intro lines_of_text) auto
  have body: "butlast (drop 1 ((app_header (app_name a) # block @ tail) @ [''}''])) = block @ tail"
    by (simp add: butlast_append tail_def)
  have p: "parse_app_proxy (app_name a) auth tail =
      Some \<lparr>app_name = app_name a, app_target = app_target a, app_auth = auth\<rparr>" for auth
    unfolding tail_def by (rule parse_app_proxy_lines)
  have len: "3 \<le> length ((app_header (app_name a) # block @ tail) @ [''}''])" by (simp add: tail_def)
  have m: "match_forward_auth tail [TAB] = None" "\<not> has_prefix (hd tail) (TAB # ''forward_auth '')" "tail \<noteq> []"
    unfolding tail_def by (rule match_forward_auth_other) simp_all
  show ?thesis
    unfolding parse_app_def lines Let_def body
    using len m p by (cases "app_auth a") (simp_all add: block_def match_forward_auth_block)
qed

lemma parse_app_proxy_wf:
  assumes "parse_app_proxy n auth ls = Some a" "no_breaks ls"
  shows "app_name a = n \<and> NL \<notin> set (app_target a)"
proof -
  obtain l h r where ls: "ls = l # h # r" using assms(1)
    by (auto simp: parse_app_proxy_def split: list.splits)
  then have "app_name a = n" "app_target a = trim_suffix (trim_prefix l (TAB # ''reverse_proxy '')) '' {''"
    using assms(1) by (auto simp: parse_app_proxy_def Let_def split: if_splits)
  moreover have "NL \<notin> set l" using assms(2) ls by (simp add: no_breaks_def)
  ultimately show ?thesis using trim_prefix_set trim_suffix_set by fastforce
qed

lemma parse_app_wf:
  assumes "parse_app n c = Some a"
  shows "wf_app a \<and> app_name a = n"
proof -
  define ls where "ls = drop_blank_tail (split_on NL c)"
  have nb: "no_breaks ls" unfolding ls_def by (rule split_lines_no_breaks)
  define body where "body = butlast (drop 1 ls)"
  note parse = assms [unfolded parse_app_def Let_def, folded ls_def, folded body_def]
  have ok: "\<not> (length ls < 3 \<or> ls ! 0 \<noteq> app_header n \<or> last ls \<noteq> ''}'')"
    using parse by (rule contrapos_pn) simp
  have p: "(case match_forward_auth body [TAB] of
        Some r \<Rightarrow> parse_app_proxy n True r
      | None \<Rightarrow> if body \<noteq> [] \<and> has_prefix (hd body) (TAB # ''forward_auth '') then None
          else parse_app_proxy n False body) = Some a"
    using parse unfolding if_not_P [OF ok] .
  from ok have len: "3 \<le> length ls" and hd: "ls ! 0 = app_header n" by auto
  have body: "\<exists>r auth. parse_app_proxy n auth r = Some a \<and> set r \<subseteq> set body"
  proof (cases "match_forward_auth body [TAB]")
    case None
    with p show ?thesis by (auto split: if_splits)
  next
    case (Some r)
    with p match_forward_auth_set [OF Some] show ?thesis by auto
  qed
  have "ls ! 0 \<in> set ls" using len by (cases ls) auto
  then have n: "NL \<notin> set n" using nb hd by (auto simp: no_breaks_def app_header_def)
  obtain r auth where r: "parse_app_proxy n auth r = Some a" "set r \<subseteq> set body"
    using body by blast
  have "no_breaks r" using nb r(2) by (auto simp: no_breaks_def body_def dest!: in_set_butlastD in_set_dropD subsetD)
  from parse_app_proxy_wf [OF r(1) this] n show ?thesis by (simp add: wf_app_def)
qed

interpretation app_template: fragment_template render_app parse_app app_name wf_app
  by unfold_locales (simp_all add: parse_render_app parse_app_wf)

section \<open>Validated apps\<close>

lemma validate_app_eq_Inr:
  "validate_app env a = Inr u \<longleftrightarrow> rx_match label_re (app_name a) \<and> validate_app_target env (app_target a) = Inr ()"
  by (auto simp: validate_app_def res_simps)

lemma validate_app_wf: "validate_app env a = Inr u \<Longrightarrow> wf_app a"
  using label_chars validate_target_plain(4)
  by (fastforce simp: validate_app_eq_Inr validate_app_target_def wf_app_def)

definition sample_app :: app where
  "sample_app = \<lparr>app_name = ''code'', app_target = ''code-docker:8080'', app_auth = True\<rparr>"

lemma sample_app_valid: "validate_app (\<lambda>_. []) sample_app = Inr ()"
  by code_simp

text \<open>
  A validated app is read back from the fragment rendered for it, and is then left alone by the
  repair at start-up.
\<close>

theorem app_round_trip:
  assumes "validate_app env a = Inr ()"
  shows "parse_app (app_name a) (render_app a) = Some a \<and>
    (has_suffix n ''.caddy'' \<and> trim_suffix n ''.caddy'' = app_name a \<longrightarrow>
      normalize_apps os (Entries [(n, False)]) [path_join apps_dir n \<mapsto> \<lparr>contents = render_app a, perm = m\<rparr>] =
        (([], None), [path_join apps_dir n \<mapsto> \<lparr>contents = render_app a, perm = m\<rparr>]))"
proof -
  have p: "parse_app (app_name a) (render_app a) = Some a"
    by (rule parse_render_app [OF validate_app_wf [OF assms]])
  show ?thesis
    using p by (auto simp: normalize_apps_def normalize_fragments_def simp del: normalize_entries.simps
        intro!: normalize_nothing split: if_splits)
qed

theorem app_round_trip_witness:
  "parse_app ''code'' (render_app sample_app) = Some sample_app"
  using app_round_trip [OF sample_app_valid] by (simp add: sample_app_def)

text \<open>
  The check of the proxy line lets its prefix and its suffix share a space: a hand-written
  \<open>reverse_proxy {\<close> is read as an app with the target \<open>{\<close>, and the repair rewrites the fragment to
  \<open>reverse_proxy { {\<close>.
\<close>

definition overlapping_fragment :: string where
  "overlapping_fragment =
     text_of [app_header ''x'', TAB # ''reverse_proxy {'', location_line ''x'', TAB # ''}'', ''}'']"

definition overlapping_app :: app where
  "overlapping_app = \<lparr>app_name = ''x'', app_target = ''{'', app_auth = False\<rparr>"

lemma overlapping_fragment_rewritten:
  "parse_app ''x'' overlapping_fragment = Some overlapping_app"
  "split_on NL (render_app overlapping_app) ! 1 = TAB # ''reverse_proxy { {''"
  by code_simp+

section \<open>The operations as updates of the set of routes\<close>

text \<open>
  The fragments by app name (the names the validation admits).
\<close>

definition app_routes :: "site \<Rightarrow> string \<Rightarrow> string option" where
  "app_routes s n =
     (if rx_match label_re n then map_option contents (files s (app_path n)) else None)"

lemma clean_apps_dir: "clean_dir apps_dir"
  unfolding clean_dir_def
  by (rule exI [of _ "[''var'', ''lib'', ''code-docker-router'', ''caddy-adapter'', ''apps'']"])
    (simp add: apps_dir_def)

lemma app_path_inj:
  "rx_match label_re n \<Longrightarrow> rx_match label_re m \<Longrightarrow> app_path n = app_path m \<longleftrightarrow> n = m"
  unfolding app_path_def
  using label_chars [of n] label_chars [of m] by (intro fragment_path_inj clean_apps_dir) blast+

lemma app_routes_put:
  assumes "rx_match label_re n" "files s' = (files s)(app_path n \<mapsto> f)"
  shows "app_routes s' = (app_routes s)(n \<mapsto> contents f)"
  using assms by (auto simp: app_routes_def fun_eq_iff app_path_inj)

lemma app_routes_drop:
  assumes "rx_match label_re n" "files s' = (files s)(app_path n := None)"
  shows "app_routes s' = (app_routes s)(n := None)"
  using assms by (auto simp: app_routes_def fun_eq_iff app_path_inj)

lemma app_routes_files: "files s' = files s \<Longrightarrow> app_routes s' = app_routes s"
  by (simp add: app_routes_def fun_eq_iff)

text \<open>Whether \<open>os.Stat\<close> tells an app's fragment that is there from one that is not.\<close>

definition sees_apps :: "string os \<Rightarrow> bool" where
  "sees_apps os \<longleftrightarrow> (\<forall>n. \<not> fails os (Stat (app_path n)))"

lemma sees_apps_quiet [simp]: "sees_apps quiet_os"
  by (simp add: sees_apps_def)

lemma app_routes_same:
  "(\<And>q. q \<noteq> app_path k \<Longrightarrow> files s' q = files s q) \<Longrightarrow> rx_match label_re k \<Longrightarrow> m \<noteq> k \<Longrightarrow> app_routes s' m = app_routes s m"
  by (simp add: app_routes_def app_path_inj)

lemma create_app_cases:
  assumes "create_app env cad os a s = (r, s')" "sees_apps os"
  shows "(settled r \<and> app_routes s (app_name a) = None \<and> app_routes s' = (app_routes s)(app_name a \<mapsto> render_app a)) \<or>
    (\<not> settled r \<and> (\<forall>m. app_routes s' m = app_routes s m \<or> m = app_name a \<and> app_routes s m = None))"
proof (cases "validate_app env a")
  case (Inl e)
  then show ?thesis using assms by (auto simp: create_app_eq)
next
  case (Inr u)
  then have l: "rx_match label_re (app_name a)" by (simp add: validate_app_eq_Inr)
  have c: "create_fragment cad os apps_dir (app_name a) (render_app a) s = (r, s')"
    using assms(1) Inr by (simp add: create_app_eq)
  have st: "\<not> fails os (Stat (fragment_path apps_dir (app_name a)))"
    using assms(2) by (simp add: sees_apps_def app_path_def)
  from create_fragment_cases [OF c st] show ?thesis
  proof (elim disjE conjE exE)
    fix m
    assume "settled r" "files s (fragment_path apps_dir (app_name a)) = None"
      "files s' = (files s)(fragment_path apps_dir (app_name a) \<mapsto> \<lparr>contents = render_app a, perm = m\<rparr>)"
    then show ?thesis using app_routes_put [OF l, of s' s] by (simp add: app_routes_def app_path_def)
  next
    assume "\<not> settled r" "files s (fragment_path apps_dir (app_name a)) = None"
      "\<forall>q. q \<noteq> fragment_path apps_dir (app_name a) \<longrightarrow> files s' q = files s q"
    moreover from this have "app_routes s (app_name a) = None" by (simp add: app_routes_def app_path_def)
    moreover have "app_routes s' m = app_routes s m" if "m \<noteq> app_name a" for m
      using calculation(3) that l by (intro app_routes_same [of "app_name a"]) (simp_all add: app_path_def)
    ultimately show ?thesis by metis
  qed simp
qed

lemma update_app_cases:
  assumes "update_app env cad os old a s = (r, s')" "rx_match label_re old" "sees_apps os"
  shows "(settled r \<and> app_routes s old \<noteq> None \<and> (app_name a = old \<or> app_routes s (app_name a) = None) \<and>
      app_routes s' = (app_routes s)(old := None, app_name a \<mapsto> render_app a)) \<or>
    (\<not> settled r \<and> app_routes s' = app_routes s \<and> (r = Inl EntryNotFound \<longrightarrow> app_routes s old = None)) \<or>
    (\<not> settled r \<and> r \<noteq> Inl EntryNotFound \<and> 
      (\<forall>m. app_routes s' m = app_routes s m \<or> m = old \<or> m = app_name a \<and> app_routes s m = None))"
proof (cases "validate_app env a")
  case (Inl e)
  then show ?thesis using assms by (auto simp: update_app_eq)
next
  case (Inr u)
  then have l: "rx_match label_re (app_name a)" by (simp add: validate_app_eq_Inr)
  have c: "update_fragment cad os apps_dir old (app_name a) (render_app a) s = (r, s')"
    using assms(1) Inr by (simp add: update_app_eq)
  have st: "\<not> fails os (Stat (fragment_path apps_dir n))" for n
    using assms(3) by (simp add: sees_apps_def app_path_def)
  from update_fragment_cases [OF c st st] show ?thesis
  proof (elim disjE)
    assume a: "settled r \<and> files s (fragment_path apps_dir old) \<noteq> None \<and>
      (app_name a = old \<or> files s (fragment_path apps_dir (app_name a)) = None) \<and>
      (\<exists>m. files s' = (files s)(fragment_path apps_dir old := None,
         fragment_path apps_dir (app_name a) \<mapsto> \<lparr>contents = render_app a, perm = m\<rparr>))"
    then obtain m where m: "files s' = (files s)(app_path old := None,
         app_path (app_name a) \<mapsto> \<lparr>contents = render_app a, perm = m\<rparr>)" by (auto simp: app_path_def)
    let ?s1 = "s\<lparr>files := (files s)(app_path old := None)\<rparr>"
    have "app_routes ?s1 = (app_routes s)(old := None)" by (rule app_routes_drop [OF assms(2)]) simp
    moreover have "app_routes s' = (app_routes ?s1)(app_name a \<mapsto> render_app a)"
      using app_routes_put [OF l, of s' ?s1] m by simp
    ultimately show ?thesis using a l assms(2) by (auto simp: app_routes_def app_path_def)
  next
    assume "\<not> settled r \<and> s' = s \<and> (r = Inl EntryNotFound \<longrightarrow> files s (fragment_path apps_dir old) = None)"
    then show ?thesis by (auto simp: app_routes_def app_path_def)
  next
    assume a: "\<not> settled r \<and> r \<noteq> Inl EntryNotFound \<and>
      (app_name a = old \<or> files s (fragment_path apps_dir (app_name a)) = None) \<and>
      (\<forall>q. q \<noteq> fragment_path apps_dir old \<and> q \<noteq> fragment_path apps_dir (app_name a) \<longrightarrow> files s' q = files s q)"
    have "app_routes s' m = app_routes s m" if "m \<noteq> old" "m \<noteq> app_name a" for m
    proof (cases "rx_match label_re m")
      case True
      then have "app_path m \<noteq> app_path old" "app_path m \<noteq> app_path (app_name a)"
        using that l assms(2) by (simp_all add: app_path_inj)
      then show ?thesis using a by (simp add: app_routes_def app_path_def)
    qed (simp add: app_routes_def)
    moreover have "app_name a = old \<or> app_routes s (app_name a) = None"
      using a by (auto simp: app_routes_def app_path_def)
    ultimately show ?thesis using a by blast
  qed
qed

lemma delete_app_cases:
  assumes "delete_app cad os n s = (r, s')" "sees_apps os"
  shows "(rx_match label_re n \<and> r \<noteq> Inl EntryNotFound \<and> app_routes s' = (app_routes s)(n := None)) \<or>
    (\<not> settled r \<and> s' = s \<and> (r = Inl EntryNotFound \<longrightarrow> app_routes s n = None))"
proof (cases "validate_name n")
  case (Inl e)
  then show ?thesis using assms by (auto simp: delete_app_eq)
next
  case (Inr u)
  then have l: "rx_match label_re n" by (simp add: validate_name_eq_Inr)
  have c: "delete_fragment cad os apps_dir n s = (r, s')"
    using assms(1) Inr by (simp add: delete_app_eq)
  have "\<not> fails os (Stat (fragment_path apps_dir n))" using assms(2) by (simp add: sees_apps_def app_path_def)
  from delete_fragment_cases [OF c this] show ?thesis
    using l app_routes_drop [OF l, of s' s] by (auto simp: app_routes_def app_path_def)
qed

section \<open>The contract with the owner of a route\<close>

text \<open>
  What \<open>internal/vnc\<close>, which keeps a registry beside the routes it owns, relies on, where the provider can see which
  routes there are (\<open>sighted\<close>): an operation that settles has done its update of the set of routes, and one that does
  not has left alone every route but those it is about, and of these the ones of others (a name that is to be new is
  touched only where there is no route of it).
\<close>

locale route_provider =
  fixes routes :: "'s \<Rightarrow> string \<Rightarrow> string option"
    and create :: "app \<Rightarrow> 's \<Rightarrow> ('v fragment_error + unit) \<times> 's"
    and change :: "string \<Rightarrow> app \<Rightarrow> 's \<Rightarrow> ('v fragment_error + unit) \<times> 's"
    and delete :: "string \<Rightarrow> 's \<Rightarrow> ('v fragment_error + unit) \<times> 's"
    and name_ok :: "string \<Rightarrow> bool"
    and sighted :: bool
  assumes create_cases: "create a s = (r, s') \<Longrightarrow> sighted \<Longrightarrow>
      (settled r \<and> routes s (app_name a) = None \<and> routes s' = (routes s)(app_name a \<mapsto> render_app a)) \<or>
      (\<not> settled r \<and> (\<forall>m. routes s' m = routes s m \<or> m = app_name a \<and> routes s m = None))"
    and change_cases: "change old a s = (r, s') \<Longrightarrow> name_ok old \<Longrightarrow> sighted \<Longrightarrow>
      (settled r \<and> routes s old \<noteq> None \<and> (app_name a = old \<or> routes s (app_name a) = None) \<and>
         routes s' = (routes s)(old := None, app_name a \<mapsto> render_app a)) \<or>
      (\<not> settled r \<and> routes s' = routes s \<and> (r = Inl EntryNotFound \<longrightarrow> routes s old = None)) \<or>
      (\<not> settled r \<and> r \<noteq> Inl EntryNotFound \<and>
         (\<forall>m. routes s' m = routes s m \<or> m = old \<or> m = app_name a \<and> routes s m = None))"
    and delete_cases: "delete n s = (r, s') \<Longrightarrow> name_ok n \<Longrightarrow> sighted \<Longrightarrow>
      (r \<noteq> Inl EntryNotFound \<and> routes s' = (routes s)(n := None)) \<or>
      (\<not> settled r \<and> routes s' = routes s \<and> (r = Inl EntryNotFound \<longrightarrow> routes s n = None))"

interpretation apps: route_provider app_routes "create_app env cad os" "update_app env cad os"
    "delete_app cad os" "rx_match label_re" "sees_apps os"
  for env :: env and cad :: caddy and os :: "string os"
proof unfold_locales
  fix a s r s'
  assume "create_app env cad os a s = (r, s')" "sees_apps os"
  then show "(settled r \<and> app_routes s (app_name a) = None \<and> app_routes s' = (app_routes s)(app_name a \<mapsto> render_app a)) \<or>
      (\<not> settled r \<and> (\<forall>m. app_routes s' m = app_routes s m \<or> m = app_name a \<and> app_routes s m = None))"
    by (rule create_app_cases)
next
  fix old a s r s'
  assume "update_app env cad os old a s = (r, s')" "rx_match label_re old" "sees_apps os"
  then show "(settled r \<and> app_routes s old \<noteq> None \<and> (app_name a = old \<or> app_routes s (app_name a) = None) \<and>
         app_routes s' = (app_routes s)(old := None, app_name a \<mapsto> render_app a)) \<or>
      (\<not> settled r \<and> app_routes s' = app_routes s \<and> (r = Inl EntryNotFound \<longrightarrow> app_routes s old = None)) \<or>
      (\<not> settled r \<and> r \<noteq> Inl EntryNotFound \<and>
         (\<forall>m. app_routes s' m = app_routes s m \<or> m = old \<or> m = app_name a \<and> app_routes s m = None))"
    by (rule update_app_cases)
qed (auto dest: delete_app_cases)

end
