(* ===== verification/Go_URL.thy ===== *)
theory Go_URL
  imports Net_Addr "HOL-Library.Char_ord" "HOL-Library.List_Lexorder"
begin

text \<open>
  Package \<open>net/url\<close>, as far as the sources use it: escaping of path segments and query values, and
  \<open>Parse\<close> with the scheme and the host of its result.
\<close>

section \<open>Escaping\<close>

text \<open>\<open>net/url\<close>: \<open>PathEscape\<close> and \<open>Values\<close> with one value per key.\<close>

definition hex_upper :: "nat \<Rightarrow> char" where
  "hex_upper n = ''0123456789ABCDEF'' ! n"

definition percent :: "char \<Rightarrow> string" where
  "percent c = [CHR ''%'', hex_upper (code c div 16), hex_upper (code c mod 16)]"

definition url_unreserved :: "char \<Rightarrow> bool" where
  "url_unreserved c \<longleftrightarrow> is_alnum c \<or> c \<in> set ''-_.~''"

definition path_escape :: "string \<Rightarrow> string" where
  "path_escape s = concat (map (\<lambda>c. if url_unreserved c \<or> c \<in> set ''$&+:=@'' then [c] else percent c) s)"

definition query_escape :: "string \<Rightarrow> string" where
  "query_escape s =
     concat (map (\<lambda>c. if url_unreserved c then [c] else if c = CHR '' '' then ''+'' else percent c) s)"

type_synonym url_values = "(string \<times> string) list"

definition query_set :: "string \<Rightarrow> string \<Rightarrow> url_values \<Rightarrow> url_values" where
  "query_set k v q = filter (\<lambda>e. fst e \<noteq> k) q @ [(k, v)]"

definition query_encode :: "url_values \<Rightarrow> string" where
  "query_encode q =
     join ''&'' (map (\<lambda>(k, v). query_escape k @ ''='' @ query_escape v) (sort_key fst q))"

section \<open>Parsing\<close>

text \<open>
  \<open>unescape\<close> in its three behaviours: of a host, of the zone of a bracketed host, and of the parts
  where only a malformed escape is an error.
\<close>

datatype unescape_mode = HostPart | ZonePart | OtherPart

definition host_symbol :: "char \<Rightarrow> bool" where
  "host_symbol c \<longleftrightarrow> c \<in> set ''!$&()*+,;=:[]<>'' \<or> c = SQ \<or> c = CHR 0x22"

definition host_escapes :: "char \<Rightarrow> bool" where
  "host_escapes c \<longleftrightarrow> \<not> (url_unreserved c \<or> host_symbol c)"

fun unescape :: "unescape_mode \<Rightarrow> string \<Rightarrow> string option" where
  "unescape m [] = Some []"
| "unescape m (c # s) =
     (if c = CHR ''%'' then
        (case s of
           a # b # r \<Rightarrow>
             (case (hex_val a, hex_val b) of
                (Some x, Some y) \<Rightarrow>
                  let v = char_of (nat (16 * x + y)); pct = (a = CHR ''2'' \<and> b = CHR ''5'')
                  in if m = HostPart \<and> x < 8 \<and> \<not> pct then None
                     else if m = ZonePart \<and> \<not> pct \<and> v \<noteq> CHR '' '' \<and> host_escapes v then None
                     else map_option ((#) v) (unescape m r)
              | _ \<Rightarrow> None)
         | _ \<Rightarrow> None)
      else if m \<noteq> OtherPart \<and> code c < 128 \<and> host_escapes c then None
      else map_option ((#) c) (unescape m s))"

text \<open>\<open>getScheme\<close>: the scheme (empty when there is none) and the rest; \<open>None\<close> is its error.\<close>

fun scheme_from :: "string \<Rightarrow> string \<Rightarrow> string \<Rightarrow> (string \<times> string) option" where
  "scheme_from acc [] raw = Some ([], raw)"
| "scheme_from acc (c # cs) raw =
     (if is_upper c \<or> is_lower c then scheme_from (c # acc) cs raw
      else if is_digit c \<or> c \<in> set ''+-.'' then
        (if acc = [] then Some ([], raw) else scheme_from (c # acc) cs raw)
      else if c = CHR '':'' then (if acc = [] then None else Some (rev acc, cs))
      else Some ([], raw))"

definition get_scheme :: "string \<Rightarrow> (string \<times> string) option" where
  "get_scheme raw = scheme_from [] raw raw"

definition valid_optional_port :: "string \<Rightarrow> bool" where
  "valid_optional_port p \<longleftrightarrow> p = [] \<or> (hd p = CHR '':'' \<and> (\<forall>c \<in> set (tl p). is_digit c))"

definition valid_userinfo :: "string \<Rightarrow> bool" where
  "valid_userinfo s \<longleftrightarrow> (\<forall>c \<in> set s. is_alnum c \<or> c = SQ \<or> c \<in> set ''-._:~!$&()*+,;=%@'')"

text \<open>The first occurrence of \<open>%25\<close>: what is before it and the rest with it.\<close>

fun find_zone :: "string \<Rightarrow> (string \<times> string) option" where
  "find_zone [] = None"
| "find_zone (c # cs) =
     (if has_prefix (c # cs) ''%25'' then Some ([], c # cs)
      else map_option (apfst ((#) c)) (find_zone cs))"

definition parse_host :: "string \<Rightarrow> string option" where
  "parse_host host =
     (if has_prefix host ''['' then
        (case split_last CHR '']'' host of
           None \<Rightarrow> None
         | Some (inner, colon_port) \<Rightarrow>
             if \<not> valid_optional_port colon_port then None
             else (case find_zone inner of
                     None \<Rightarrow> unescape HostPart host
                   | Some (h, z) \<Rightarrow>
                       (case (unescape HostPart h, unescape ZonePart z,
                              unescape HostPart (CHR '']'' # colon_port)) of
                          (Some h1, Some h2, Some h3) \<Rightarrow> Some (h1 @ h2 @ h3)
                        | _ \<Rightarrow> None)))
      else case split_last CHR '':'' host of
             None \<Rightarrow> unescape HostPart host
           | Some (_, p) \<Rightarrow>
               if \<not> valid_optional_port (CHR '':'' # p) then None else unescape HostPart host)"

definition parse_authority :: "string \<Rightarrow> string option" where
  "parse_authority a =
     (case split_last CHR ''@'' a of
        None \<Rightarrow> parse_host a
      | Some (userinfo, h) \<Rightarrow>
          (case parse_host h of
             None \<Rightarrow> None
           | Some host \<Rightarrow>
               if \<not> valid_userinfo userinfo then None
               else if unescape OtherPart userinfo = None then None
               else Some host))"

text \<open>The part of \<open>Parse\<close> after the scheme: the host, with errors of authority and path.\<close>

definition parse_hierarchy :: "string \<Rightarrow> string \<Rightarrow> string option" where
  "parse_hierarchy scheme rest0 =
     (let rest = (case cut CHR ''?'' rest0 of None \<Rightarrow> rest0 | Some (a, _) \<Rightarrow> a)
      in if \<not> has_prefix rest ''/'' \<and> scheme \<noteq> [] then Some []
         else if \<not> has_prefix rest ''/'' \<and> CHR '':'' \<in> set (hd (split_on CHR ''/'' rest)) then None
         else if (scheme \<noteq> [] \<or> \<not> has_prefix rest ''///'') \<and> has_prefix rest ''//'' then
           (let (authority, path) =
              (case cut CHR ''/'' (drop 2 rest) of None \<Rightarrow> (drop 2 rest, []) | Some (a, p) \<Rightarrow> (a, CHR ''/'' # p))
            in case parse_authority authority of
                 None \<Rightarrow> None
               | Some h \<Rightarrow> if unescape OtherPart path = None then None else Some h)
         else if unescape OtherPart rest = None then None
         else Some [])"

text \<open>\<open>url.Parse\<close>: the lower-case scheme and the host.\<close>

definition url_parse :: "string \<Rightarrow> (string \<times> string) option" where
  "url_parse raw =
     (let (u, frag) = (case cut CHR ''#'' raw of None \<Rightarrow> (raw, []) | Some p \<Rightarrow> p)
      in if \<exists>c \<in> set u. code c < 32 \<or> code c = 127 then None
         else if u = ''*'' then Some ([], [])
         else case get_scheme u of
                None \<Rightarrow> None
              | Some (scheme, rest) \<Rightarrow>
                  (case parse_hierarchy (to_lower scheme) rest of
                     None \<Rightarrow> None
                   | Some host \<Rightarrow>
                       if unescape OtherPart frag = None then None else Some (to_lower scheme, host)))"

text \<open>\<open>err != nil || (u.Scheme != "http" && u.Scheme != "https") || u.Host == ""\<close>, negated.\<close>

definition web_url :: "string \<Rightarrow> (string \<times> string) option" where
  "web_url raw =
     (case url_parse raw of
        None \<Rightarrow> None
      | Some (scheme, host) \<Rightarrow>
          if (scheme \<noteq> ''http'' \<and> scheme \<noteq> ''https'') \<or> host = [] then None else Some (scheme, host))"

lemma unescape_plain:
  "(\<And>c. c \<in> set s \<Longrightarrow> c \<noteq> CHR ''%'' \<and> (m = OtherPart \<or> \<not> host_escapes c)) \<Longrightarrow> unescape m s = Some s"
  by (induction s) auto

lemma hex_val_range: "hex_val c = Some x \<Longrightarrow> 0 \<le> x \<and> x < 16"
  by (auto simp: hex_val_def is_digit_def split: if_splits)

definition host_byte :: "char \<Rightarrow> bool" where
  "host_byte c \<longleftrightarrow> 128 \<le> code c \<or> c = CHR ''%'' \<or> c = CHR '' '' \<or> \<not> host_escapes c"

lemma decoded_byte:
  assumes "hex_val a = Some x" "hex_val b = Some y"
    and "m = HostPart \<Longrightarrow> 8 \<le> x \<or> (a = CHR ''2'' \<and> b = CHR ''5'')"
    and "m = ZonePart \<Longrightarrow> (a = CHR ''2'' \<and> b = CHR ''5'') \<or> char_of (nat (16 * x + y)) = CHR '' '' \<or>
      \<not> host_escapes (char_of (nat (16 * x + y)))"
    and "m \<noteq> OtherPart"
  shows "host_byte (char_of (nat (16 * x + y)))"
proof (cases "a = CHR ''2'' \<and> b = CHR ''5''")
  case True
  then have "x = 2" "y = 5" using assms(1,2) by (auto simp: hex_val_def is_digit_def code_def)
  moreover have "char_of (37 :: nat) = CHR ''%''" by code_simp
  ultimately show ?thesis by (simp add: host_byte_def)
next
  case False
  have r: "0 \<le> x" "x < 16" "0 \<le> y" "y < 16" using hex_val_range assms(1,2) by auto
  then have n: "nat (16 * x + y) < 256" by linarith
  show ?thesis
  proof (cases m)
    case HostPart
    then have "8 \<le> x" using assms(3) False by blast
    then have "128 \<le> nat (16 * x + y)" using r by linarith
    moreover have "code (char_of (nat (16 * x + y))) = nat (16 * x + y)" using n by (simp add: code_def)
    ultimately show ?thesis by (simp add: host_byte_def)
  next
    case ZonePart
    then show ?thesis using assms(4) False by (auto simp: host_byte_def)
  qed (use assms(5) in simp)
qed

lemma unescape_bytes: "unescape m s = Some t \<Longrightarrow> m \<noteq> OtherPart \<Longrightarrow> c \<in> set t \<Longrightarrow> host_byte c"
proof (induction m s arbitrary: t rule: unescape.induct)
  case (2 m d s)
  show ?case
  proof (cases "d = CHR ''%''")
    case True
    then obtain a b r x y t' where s: "s = a # b # r" and h: "hex_val a = Some x" "hex_val b = Some y"
      and u: "unescape m r = Some t'" and t: "t = char_of (nat (16 * x + y)) # t'"
      and g: "\<not> (m = HostPart \<and> x < 8 \<and> \<not> (a = CHR ''2'' \<and> b = CHR ''5''))"
        "\<not> (m = ZonePart \<and> \<not> (a = CHR ''2'' \<and> b = CHR ''5'') \<and> char_of (nat (16 * x + y)) \<noteq> CHR '' '' \<and>
           host_escapes (char_of (nat (16 * x + y))))"
      using "2.prems"(1) by (auto simp: Let_def split: list.splits option.splits if_splits)
    have hb: "host_byte (char_of (nat (16 * x + y)))"
      by (rule decoded_byte [OF h _ _ "2.prems"(2)]) (use g in auto)
    have "c \<in> set t' \<Longrightarrow> host_byte c"
      using "2.IH"(1) [OF True s refl refl h(1) h(2) refl refl g u "2.prems"(2)] by simp
    then show ?thesis using "2.prems"(3) t hb by auto
  next
    case False
    then obtain t' where "unescape m s = Some t'" "t = d # t'" "code d < 128 \<longrightarrow> \<not> host_escapes d"
      using "2.prems" by (auto split: if_splits)
    then show ?thesis using "2.IH"(2) [OF False] "2.prems" by (auto simp: host_byte_def)
  qed
qed simp

lemma unescape_parts:
  "unescape HostPart s = Some t \<Longrightarrow> c \<in> set t \<Longrightarrow> host_byte c"
  "unescape ZonePart s = Some t \<Longrightarrow> c \<in> set t \<Longrightarrow> host_byte c"
  using unescape_bytes by blast+

lemma parse_host_bytes: "parse_host h = Some t \<Longrightarrow> c \<in> set t \<Longrightarrow> host_byte c"
  by (auto simp: parse_host_def simp del: unescape.simps dest: unescape_parts
      split: if_splits option.splits prod.splits)

lemma parse_authority_bytes: "parse_authority a = Some t \<Longrightarrow> c \<in> set t \<Longrightarrow> host_byte c"
  by (auto simp: parse_authority_def dest: parse_host_bytes split: if_splits option.splits prod.splits)

lemma parse_hierarchy_bytes: "parse_hierarchy sch r = Some t \<Longrightarrow> c \<in> set t \<Longrightarrow> host_byte c"
  by (auto simp: parse_hierarchy_def Let_def dest: parse_authority_bytes
      split: if_splits option.splits prod.splits)

lemma url_parse_bytes: "url_parse raw = Some (sch, h) \<Longrightarrow> c \<in> set h \<Longrightarrow> host_byte c"
  by (auto simp: url_parse_def dest: parse_hierarchy_bytes
      split: if_splits option.splits prod.splits)

text \<open>No byte of a host can end the host in a URL, or break a line.\<close>

lemma host_byte_plain:
  assumes "host_byte c"
  shows "c \<notin> set ''/?#@'' \<and> c \<noteq> CHR 0x5C \<and> 32 \<le> code c"
proof -
  have bad: "\<not> host_byte CHR ''/''" "\<not> host_byte CHR ''?''" "\<not> host_byte CHR ''#''" "\<not> host_byte CHR ''@''"
    "\<not> host_byte CHR 0x5C" by code_simp+
  have "host_escapes c" if "code c < 32"
    using that by (auto simp: host_escapes_def url_unreserved_def host_symbol_def char_class_defs code_def)
  moreover have "code CHR ''%'' = 37" "code CHR '' '' = 32" by (simp_all add: code_def)
  ultimately have "32 \<le> code c" using assms by (cases "code c < 32") (auto simp: host_byte_def)
  then show ?thesis using assms bad by auto
qed

lemma web_url_sound:
  assumes "web_url raw = Some (sch, h)"
  shows "(sch = ''http'' \<or> sch = ''https'') \<and> h \<noteq> [] \<and>
    (\<forall>c \<in> set h. c \<notin> set ''/?#@'' \<and> c \<noteq> CHR 0x5C \<and> 32 \<le> code c)"
proof -
  have p: "url_parse raw = Some (sch, h)" and w: "sch = ''http'' \<or> sch = ''https''" "h \<noteq> []"
    using assms by (auto simp: web_url_def split: option.splits if_splits)
  show ?thesis using w host_byte_plain [OF url_parse_bytes [OF p]] by blast
qed

lemma web_url_samples:
  "web_url ''https://head.example.com:8443/x?y#z'' = Some (''https'', ''head.example.com:8443'')"
  "web_url ''HTTP://u:p@[::1]:80'' = Some (''http'', ''[::1]:80'')"
  "web_url ''javascript:alert(1)'' = None" "web_url ''https:///x'' = None" "web_url ''http://h:p'' = None"
  by code_simp+

end
