(* ===== verification/Vnc_Targets.thy ===== *)
theory Vnc_Targets
  imports App_Routes Config_Store Go_URL
begin

text \<open>
  \<open>internal/vnc\<close>: the registry of VNC targets and its lockstep with App Routes.  The registry is a JSON
  document in the same file system as the fragments; the operations run under the package's mutex, each
  one transition of the \<open>site\<close>.  The mutex orders VNC operations only: App Routes requests do not take
  it, so the transitions are those of a request no App Routes request overlaps.  \<open>sort.Slice\<close> is
  modelled by a stable sort, which it agrees with on the distinct names of a registry.
\<close>

definition vnc_store_path :: string where
  "vnc_store_path = ''/var/lib/code-docker-router/vnc/targets.json''"

record target =
  tg_name :: string
  tg_label :: string
  tg_target :: string
  tg_backend :: string
  tg_auth :: bool
  tg_resize :: string

section \<open>Backends and viewers\<close>

definition backend_rfb :: string where "backend_rfb = ''rfb''"
definition backend_novnc :: string where "backend_novnc = ''novnc''"
definition resize_remote :: string where "resize_remote = ''remote''"
definition resize_scale :: string where "resize_scale = ''scale''"
definition resize_off :: string where "resize_off = ''off''"

definition resize_modes :: "string list" where
  "resize_modes = [resize_remote, resize_scale, resize_off]"

definition resize_mode :: "target \<Rightarrow> string" where
  "resize_mode t = (if tg_resize t = [] then resize_remote else tg_resize t)"

definition novnc_query :: "target \<Rightarrow> url_values" where
  "novnc_query t =
     query_set ''resize'' (resize_mode t) (query_set ''reconnect'' ''1'' (query_set ''autoconnect'' ''1'' []))"

definition viewer_base_path :: string where
  "viewer_base_path = ''/router/novnc/''"

definition rfb_viewer_path :: "target \<Rightarrow> string" where
  "rfb_viewer_path t =
     (let q = query_set ''path'' (''../api/vnc/targets/'' @ path_escape (tg_name t) @ ''/ws'')
                (query_set ''host'' [] (novnc_query t))
      in viewer_base_path @ ''vnc.html?'' @ query_encode q)"

definition app_viewer_path :: "target \<Rightarrow> string" where
  "app_viewer_path t =
     ''/app/'' @ path_escape (tg_name t) @ ''/vnc.html?'' @ query_encode (novnc_query t)"

record backend =
  app_route :: bool
  viewer :: "target \<Rightarrow> string"

definition backend_order :: "string list" where
  "backend_order = [backend_rfb, backend_novnc]"

definition backends :: "string \<Rightarrow> backend option" where
  "backends b =
     (if b = backend_rfb then Some \<lparr>app_route = False, viewer = rfb_viewer_path\<rparr>
      else if b = backend_novnc then Some \<lparr>app_route = True, viewer = app_viewer_path\<rparr>
      else None)"

definition viewer_path :: "target \<Rightarrow> string" where
  "viewer_path t = (case backends (tg_backend t) of None \<Rightarrow> [] | Some b \<Rightarrow> viewer b t)"

definition uses_app_route :: "target \<Rightarrow> bool" where
  "uses_app_route t = (case backends (tg_backend t) of None \<Rightarrow> False | Some b \<Rightarrow> app_route b)"

definition viewer_origin :: "target \<Rightarrow> string" where
  "viewer_origin t = (if uses_app_route t then ''app'' else ''self'')"

section \<open>Validation\<close>

datatype vnc_error =
    BadVncName expose_invalid
  | UnknownBackend
  | UnknownResizeMode
  | AuthWithoutRoute
  | LabelTooLong
  | LabelControl
  | BadVncTarget guard_error
  | VncStore store_error
  | TargetExists
  | TargetNotFound
  | RouteError "app_invalid fragment_error"

definition vnc_validate :: "env \<Rightarrow> target \<Rightarrow> vnc_error + unit" where
  "vnc_validate env t =
     res_bind (map_error BadVncName (validate_name (tg_name t))) (\<lambda>_.
     if backends (tg_backend t) = None then Inl UnknownBackend
     else if tg_resize t \<notin> set resize_modes \<and> tg_resize t \<noteq> [] then Inl UnknownResizeMode
     else if tg_auth t \<and> \<not> uses_app_route t then Inl AuthWithoutRoute
     else if 200 < length (tg_label t) then Inl LabelTooLong
     else if \<exists>c \<in> set (tg_label t). code c < 32 \<or> code c = 127 then Inl LabelControl
     else map_error BadVncTarget (validate_app_target env (tg_target t)))"

section \<open>The registry\<close>

type_synonym vnc_codec = "(target list, string) codec"
type_synonym vnc_result = "(vnc_error + unit) \<times> site"

definition vnc_load :: "vnc_codec \<Rightarrow> string os \<Rightarrow> site \<Rightarrow> vnc_error + target list" where
  "vnc_load cd os s = map_error VncStore (load_doc cd [] vnc_store_path os (files s))"

definition vnc_save :: "vnc_codec \<Rightarrow> string os \<Rightarrow> target list \<Rightarrow> site \<Rightarrow> vnc_result" where
  "vnc_save cd os ts s =
     (case save_doc cd 0x1A4 vnc_store_path os (sort_key tg_name ts) (files s) of
        (r, fs) \<Rightarrow> (map_error VncStore r, s\<lparr>files := fs\<rparr>))"

definition index_of :: "target list \<Rightarrow> string \<Rightarrow> nat option" where
  "index_of ts name = find_index (\<lambda>t. tg_name t = name) ts"

definition app_of :: "target \<Rightarrow> app" where
  "app_of t = \<lparr>app_name = tg_name t, app_target = tg_target t, app_auth = tg_auth t\<rparr>"

section \<open>Operations\<close>

definition vnc_get :: "vnc_codec \<Rightarrow> string os \<Rightarrow> string \<Rightarrow> site \<Rightarrow> vnc_error + target" where
  "vnc_get cd os name s =
     res_bind (vnc_load cd os s) (\<lambda>ts.
     case index_of ts name of None \<Rightarrow> Inl TargetNotFound | Some i \<Rightarrow> Inr (ts ! i))"

definition vnc_create :: "env \<Rightarrow> caddy \<Rightarrow> vnc_codec \<Rightarrow> string os \<Rightarrow> target \<Rightarrow> site \<Rightarrow> vnc_result" where
  "vnc_create env cad cd os t s =
     (case vnc_validate env t of
        Inl e \<Rightarrow> (Inl e, s)
      | Inr _ \<Rightarrow>
          (case vnc_load cd os s of
             Inl e \<Rightarrow> (Inl e, s)
           | Inr ts \<Rightarrow>
               if index_of ts (tg_name t) \<noteq> None then (Inl TargetExists, s)
               else case (if uses_app_route t then create_app env cad os (app_of t) s else (Inr (), s)) of
                 (cr, s1) \<Rightarrow>
                   if \<not> settled cr then (map_error RouteError cr, s1)
                   else (case vnc_save cd os (ts @ [t]) s1 of
                       (Inl e, s2) \<Rightarrow>
                         (Inl e, if uses_app_route t then snd (delete_app cad os (tg_name t) s2) else s2)
                     | (Inr _, s2) \<Rightarrow> (map_error RouteError cr, s2))))"

text \<open>
  The \<open>switch\<close> of \<open>Update\<close> over whether the stored target had a route and the new one wants one, with
  the operations of App Routes as arguments.
\<close>

definition sync_route ::
    "(app \<Rightarrow> 's \<Rightarrow> ('v fragment_error + unit) \<times> 's) \<Rightarrow>
     (string \<Rightarrow> app \<Rightarrow> 's \<Rightarrow> ('v fragment_error + unit) \<times> 's) \<Rightarrow>
     (string \<Rightarrow> 's \<Rightarrow> ('v fragment_error + unit) \<times> 's) \<Rightarrow>
     bool \<Rightarrow> bool \<Rightarrow> string \<Rightarrow> app \<Rightarrow> 's \<Rightarrow> ('v fragment_error + unit) \<times> 's" where
  "sync_route create change delete had wants old a s =
     (if had \<and> wants then
        (case change old a s of (r, s1) \<Rightarrow> if r = Inl EntryNotFound then create a s1 else (r, s1))
      else if had \<and> \<not> wants then
        (case delete old s of (r, s1) \<Rightarrow> if r = Inl EntryNotFound then (Inr (), s1) else (r, s1))
      else if \<not> had \<and> wants then create a s
      else (Inr (), s))"

definition vnc_update ::
    "env \<Rightarrow> caddy \<Rightarrow> vnc_codec \<Rightarrow> string os \<Rightarrow> string \<Rightarrow> target \<Rightarrow> site \<Rightarrow> vnc_result" where
  "vnc_update env cad cd os old t s =
     (case vnc_validate env t of
        Inl e \<Rightarrow> (Inl e, s)
      | Inr _ \<Rightarrow>
          (case vnc_load cd os s of
             Inl e \<Rightarrow> (Inl e, s)
           | Inr ts \<Rightarrow>
               (case index_of ts old of
                  None \<Rightarrow> (Inl TargetNotFound, s)
                | Some i \<Rightarrow>
                    if tg_name t \<noteq> old \<and> index_of ts (tg_name t) \<noteq> None then (Inl TargetExists, s)
                    else case sync_route (create_app env cad os) (update_app env cad os) (delete_app cad os)
                        (uses_app_route (ts ! i)) (uses_app_route t) old (app_of t) s of
                      (ur, s1) \<Rightarrow>
                        if \<not> settled ur then (map_error RouteError ur, s1)
                        else (case vnc_save cd os (ts[i := t]) s1 of
                            (Inl e, s2) \<Rightarrow> (Inl e, s2)
                          | (Inr _, s2) \<Rightarrow> (map_error RouteError ur, s2)))))"

definition vnc_delete :: "caddy \<Rightarrow> vnc_codec \<Rightarrow> string os \<Rightarrow> string \<Rightarrow> site \<Rightarrow> vnc_result" where
  "vnc_delete cad cd os name s =
     (case vnc_load cd os s of
        Inl e \<Rightarrow> (Inl e, s)
      | Inr ts \<Rightarrow>
          (case index_of ts name of
             None \<Rightarrow> (Inl TargetNotFound, s)
           | Some i \<Rightarrow>
               let rest = take i ts @ drop (Suc i) ts
               in if \<not> uses_app_route (ts ! i) then vnc_save cd os rest s
                  else case delete_app cad os name s of
                    (dr, s1) \<Rightarrow>
                      if \<not> settled dr \<and> dr \<noteq> Inl EntryNotFound then (map_error RouteError dr, s1)
                      else let dr' = (if dr = Inl EntryNotFound then Inr () else dr)
                        in (case vnc_save cd os rest s1 of
                              (Inl e, s2) \<Rightarrow> (Inl e, s2)
                            | (Inr _, s2) \<Rightarrow> (map_error RouteError dr', s2))))"

section \<open>Listing with drift detection\<close>

record target_info =
  ti_target :: target
  ti_viewer_path :: string
  ti_viewer_origin :: string
  ti_missing :: bool
  ti_diverged :: bool

definition route_state :: "(string \<rightharpoonup> app fragment_info) \<Rightarrow> target \<Rightarrow> bool \<times> bool" where
  "route_state routes t =
     (if \<not> uses_app_route t then (False, False)
      else case routes (tg_name t) of
        None \<Rightarrow> (True, False)
      | Some info \<Rightarrow>
          (case structured info of
             None \<Rightarrow> (False, True)
           | Some a \<Rightarrow> (False, app_target a \<noteq> tg_target t \<or> app_auth a \<noteq> tg_auth t)))"

definition vnc_list :: "vnc_codec \<Rightarrow> string os \<Rightarrow> listing \<Rightarrow> site \<Rightarrow> vnc_error + target_info list" where
  "vnc_list cd os ls s =
     res_bind (vnc_load cd os s) (\<lambda>ts.
     let routes = (case list_apps os ls (files s) of
                     Inl _ \<Rightarrow> Map.empty
                   | Inr infos \<Rightarrow> map_of (rev (map (\<lambda>i. (info_name i, i)) infos)))
     in Inr (map (\<lambda>t. let (missing, diverged) = route_state routes t
                      in \<lparr>ti_target = t, ti_viewer_path = viewer_path t, ti_viewer_origin = viewer_origin t,
                          ti_missing = missing, ti_diverged = diverged\<rparr>) ts))"

section \<open>The registry and the routes beside each other\<close>

definition vnc_registry :: "vnc_codec \<Rightarrow> site \<Rightarrow> target list option" where
  "vnc_registry cd s = stored_doc cd [] vnc_store_path (files s)"

interpretation vnc_store: config_store "vnc_load cd os" "vnc_save cd os" "vnc_registry cd"
    "\<lambda>ts. reread_doc cd (sort_key tg_name ts)"
  for cd :: vnc_codec and os :: "string os"
  by unfold_locales
    (auto simp: vnc_load_def vnc_save_def vnc_registry_def res_simps split: prod.splits
      intro: load_doc_stored save_doc_ok save_doc_failed)

lemma app_path_plain:
  "rx_match label_re n \<Longrightarrow> app_path n = apps_dir @ CHR ''/'' # n @ ''.caddy''"
  unfolding app_path_def using label_chars [of n] by (intro fragment_path_plain clean_apps_dir) blast

lemma app_path_not_store:
  "rx_match label_re n \<Longrightarrow> app_path n \<noteq> vnc_store_path"
  "rx_match label_re n \<Longrightarrow> app_path n \<noteq> tmp_path vnc_store_path"
  by (simp_all add: app_path_plain apps_dir_def vnc_store_path_def tmp_path_def)

lemma vnc_save_files:
  assumes "vnc_save cd os ts s = (r, s')" "q \<noteq> vnc_store_path" "q \<noteq> tmp_path vnc_store_path"
  shows "files s' q = files s q"
proof -
  have "snd (atomic_write os vnc_store_path b m fs) q = fs q" for b m fs
    by (rule atomic_write_other [OF assms(3,2)])
  then have "atomic_write os vnc_store_path b m fs = (x, fs') \<Longrightarrow> fs' q = fs q" for b m fs x fs'
    by (metis snd_conv)
  then show ?thesis
    using assms(1) by (fastforce simp: vnc_save_def save_doc_def split: prod.splits option.splits)
qed

lemma vnc_save_routes: "vnc_save cd os ts s = (r, s') \<Longrightarrow> app_routes s' = app_routes s"
  using vnc_save_files app_path_not_store by (fastforce simp: app_routes_def fun_eq_iff)


lemma create_app_frame:
  "create_app env cad os a s = (r, s') \<Longrightarrow> p \<noteq> app_path (app_name a) \<Longrightarrow> files s' p = files s p"
  by (auto simp: create_app_def app_plumbing dest!: write_and_validate_frame reload_files
      split: sum.splits prod.splits if_splits)

lemma update_app_frame:
  "update_app env cad os old a s = (r, s') \<Longrightarrow> p \<noteq> app_path (app_name a) \<Longrightarrow> p \<noteq> app_path old \<Longrightarrow>
     files s' p = files s p"
  by (auto simp: update_app_def app_plumbing Let_def remove_def dest!: write_and_validate_frame reload_files
      split: sum.splits prod.splits if_splits)

lemma delete_app_frame:
  "delete_app cad os n s = (r, s') \<Longrightarrow> p \<noteq> app_path n \<Longrightarrow> files s' p = files s p"
  by (auto simp: delete_app_def app_plumbing Let_def remove_def dest!: reload_files
      split: sum.splits prod.splits if_splits option.splits)

lemma sync_route_frame:
  assumes "sync_route (create_app env cad os) (update_app env cad os) (delete_app cad os) had wants old a s = (r, s')"
    and "p \<noteq> app_path (app_name a)" "p \<noteq> app_path old"
  shows "files s' p = files s p"
  using assms
  by (auto simp: sync_route_def dest!: create_app_frame [where p = p] update_app_frame [where p = p]
        delete_app_frame [where p = p]
      split: if_splits prod.splits)

context route_provider
begin

text \<open>
  What bringing a route along does: a result that settles leaves the new route exactly when one is
  wanted, and never the old one under another name; any other result leaves every other route as it was.
\<close>

lemma sync_cases:
  assumes "sync_route create change delete had wants old a s = (r, s')" "name_ok old" sighted
  shows "(settled r \<and>
      routes s' = (let rest = (if had then (routes s)(old := None) else routes s)
                   in if wants then rest(app_name a \<mapsto> render_app a) else rest) \<and>
      (wants \<longrightarrow> (had \<and> app_name a = old) \<or> routes s (app_name a) = None)) \<or>
    (\<not> settled r \<and>
       (\<forall>m. routes s' m = routes s m \<or> had \<and> m = old \<or> wants \<and> m = app_name a \<and> routes s m = None))"
proof -
  have gone: "routes u old = None \<Longrightarrow> (routes u)(old := None) = routes u" for u by (simp add: fun_upd_idem)
  consider (both) "had" "wants" | (drop) "had" "\<not> wants" | (fresh) "\<not> had" "wants" | (none) "\<not> had" "\<not> wants"
    by blast
  then show ?thesis
  proof cases
    case both
    obtain r1 s1 where c: "change old a s = (r1, s1)" by fastforce
    note ch = change_cases [OF c assms(2,3)]
    show ?thesis
    proof (cases "r1 = Inl EntryNotFound")
      case False
      with assms(1) both c have "r = r1" "s' = s1" by (simp_all add: sync_route_def)
      with ch both show ?thesis by (elim disjE) auto
    next
      case True
      with assms(1) both c have "create a s1 = (r, s')" by (simp add: sync_route_def)
      note n = create_cases [OF this assms(3)]
      have "routes s1 = routes s" "routes s old = None" using ch True by auto
      with n both gone [of s] show ?thesis by auto
    qed
  next
    case drop
    obtain r1 s1 where c: "delete old s = (r1, s1)" by fastforce
    with assms(1) drop have "r = (if r1 = Inl EntryNotFound then Inr () else r1)" "s' = s1"
      by (auto simp: sync_route_def split: if_splits)
    with delete_cases [OF c assms(2,3)] drop gone [of s] show ?thesis by auto
  next
    case fresh
    with assms(1) have "create a s = (r, s')" by (simp add: sync_route_def)
    from create_cases [OF this assms(3)] fresh show ?thesis by auto
  next
    case none
    with assms(1) show ?thesis by (auto simp: sync_route_def)
  qed
qed

end

section \<open>Lockstep\<close>

datatype vnc_request =
    CreateTarget target
  | UpdateTarget string target
  | DeleteTarget string

definition vnc_run ::
    "env \<Rightarrow> caddy \<Rightarrow> vnc_codec \<Rightarrow> string os \<Rightarrow> vnc_request \<Rightarrow> site \<Rightarrow> vnc_result" where
  "vnc_run env cad cd os req s =
     (case req of
        CreateTarget t \<Rightarrow> vnc_create env cad cd os t s
      | UpdateTarget old t \<Rightarrow> vnc_update env cad cd os old t s
      | DeleteTarget n \<Rightarrow> vnc_delete cad cd os n s)"

text \<open>What a request is to make of the registered targets, and of the routes of all apps.\<close>

definition registry_after :: "vnc_request \<Rightarrow> target set \<Rightarrow> target set" where
  "registry_after req T =
     (case req of
        CreateTarget t \<Rightarrow> insert t T
      | UpdateTarget old t \<Rightarrow> insert t {u \<in> T. tg_name u \<noteq> old}
      | DeleteTarget n \<Rightarrow> {u \<in> T. tg_name u \<noteq> n})"

definition owns_route :: "target set \<Rightarrow> string \<Rightarrow> bool" where
  "owns_route T n \<longleftrightarrow> (\<exists>u \<in> T. tg_name u = n \<and> uses_app_route u)"

definition routes_after :: "vnc_request \<Rightarrow> target set \<Rightarrow> (string \<Rightarrow> string option) \<Rightarrow> string \<Rightarrow> string option" where
  "routes_after req T R m =
     (case req of
        CreateTarget t \<Rightarrow> if uses_app_route t \<and> m = tg_name t then Some (render_app (app_of t)) else R m
      | UpdateTarget old t \<Rightarrow>
          if uses_app_route t \<and> m = tg_name t then Some (render_app (app_of t))
          else if m = old \<and> owns_route T old then None
          else R m
      | DeleteTarget n \<Rightarrow> if m = n \<and> owns_route T n then None else R m)"

text \<open>The results after which the registry was written: success and a failed reload.\<close>

definition vnc_settled :: "vnc_error + unit \<Rightarrow> bool" where
  "vnc_settled r = (case r of Inr _ \<Rightarrow> True | Inl (RouteError (ReloadFailed _)) \<Rightarrow> True | _ \<Rightarrow> False)"

lemma vnc_settled_route [simp]: "vnc_settled (map_error RouteError r) \<longleftrightarrow> settled r"
  by (auto simp: vnc_settled_def settled_def split: sum.splits fragment_error.splits)

definition vnc_ok :: "target list \<Rightarrow> bool" where
  "vnc_ok ts \<longleftrightarrow> unique_keys tg_name ts \<and> (\<forall>t \<in> set ts. rx_match label_re (tg_name t))"

text \<open>A target's route is the rendering of its app.\<close>

definition in_step :: "(string \<Rightarrow> string option) \<Rightarrow> target \<Rightarrow> bool" where
  "in_step R t \<longleftrightarrow> (uses_app_route t \<longrightarrow> R (tg_name t) = Some (render_app (app_of t)))"

lemma app_of_name [simp]: "app_name (app_of t) = tg_name t"
  by (simp add: app_of_def)

lemma index_of_None: "index_of ts n = None \<longleftrightarrow> n \<notin> tg_name ` set ts"
  by (auto simp: index_of_def find_index_None_iff)

lemma index_of_Some: "index_of ts n = Some i \<Longrightarrow> i < length ts \<and> tg_name (ts ! i) = n"
  using find_index_SomeD [of "\<lambda>t. tg_name t = n" ts i] by (simp add: index_of_def)

lemma vnc_validate_name: "vnc_validate env t = Inr u \<Longrightarrow> rx_match label_re (tg_name t)"
  by (auto simp: vnc_validate_def res_simps)

text \<open>
  The effect of a settled request on the registry (with the old entry and its index) and on the routes.
\<close>

lemma vnc_registry_files: "files s' vnc_store_path = files s vnc_store_path \<Longrightarrow> vnc_registry cd s' = vnc_registry cd s"
  by (simp add: vnc_registry_def stored_doc_def)

lemma saved_registry:
  assumes "vnc_save cd os ts s = (Inr u, s')" "codec_ok cd (\<lambda>x. x)"
  shows "vnc_registry cd s' = Some (sort_key tg_name ts)"
proof -
  obtain b where b: "marshal cd (sort_key tg_name ts) = Some b"
    using assms(1) by (auto simp: vnc_save_def save_doc_def split: option.splits)
  have "vnc_registry cd s' = reread_doc cd (sort_key tg_name ts)" by (rule vnc_store.save_ok [OF assms(1)])
  then show ?thesis using b assms(2) by (auto simp: reread_doc_def codec_ok_def)
qed

text \<open>The errors before and after the work on the routes.\<close>

lemma vnc_unsettled:
  "vnc_validate env t = Inl e \<Longrightarrow> \<not> vnc_settled (Inl e)"
  "vnc_load cd os s = Inl e \<Longrightarrow> \<not> vnc_settled (Inl e)"
  "vnc_save cd os ts s = (Inl e, s') \<Longrightarrow> \<not> vnc_settled (Inl e)"
  "\<not> vnc_settled (Inl TargetExists)" "\<not> vnc_settled (Inl TargetNotFound)"
  by (auto simp: vnc_settled_def vnc_validate_def vnc_load_def vnc_save_def res_simps
      split: if_splits prod.splits)

lemma vnc_create_inv:
  assumes "vnc_create env cad cd os t s = (r, s')" "vnc_settled r"
  obtains ts s1 s2 where "rx_match label_re (tg_name t)" "vnc_registry cd s = Some ts"
    "tg_name t \<notin> tg_name ` set ts"
    "if uses_app_route t then \<exists>cr. settled cr \<and> create_app env cad os (app_of t) s = (cr, s1) else s1 = s"
    "vnc_save cd os (ts @ [t]) s1 = (Inr (), s')"
proof -
  have "False" if e: "vnc_validate env t = Inl e" for e
    using assms vnc_unsettled(1) [OF e] by (simp add: vnc_create_def e)
  then obtain u where v: "vnc_validate env t = Inr u" by (cases "vnc_validate env t") auto
  obtain ts where l: "vnc_load cd os s = Inr ts"
    using assms v vnc_unsettled(2) by (cases "vnc_load cd os s") (auto simp: vnc_create_def)
  have free: "index_of ts (tg_name t) = None"
    using assms v l vnc_unsettled(4) by (auto simp: vnc_create_def split: if_splits)
  obtain cr s1 where c: "(if uses_app_route t then create_app env cad os (app_of t) s else (Inr (), s)) = (cr, s1)"
    by fastforce
  obtain w s2 where sv: "vnc_save cd os (ts @ [t]) s1 = (w, s2)" by fastforce
  have cr: "settled cr"
    using assms v l free c by (auto simp: vnc_create_def split: if_splits)
  then have "w = Inr ()"
    using assms v l free c sv vnc_unsettled(3) by (cases w) (auto simp: vnc_create_def)
  moreover from this have "s' = s2"
    using assms(1) v l free c sv cr by (simp add: vnc_create_def)
  ultimately show thesis
    using that [of ts s1] vnc_validate_name [OF v] vnc_store.load_stored [OF l] free c cr sv
    by (auto simp: index_of_None split: if_splits)
qed

lemma vnc_update_inv:
  assumes "vnc_update env cad cd os old t s = (r, s')" "vnc_settled r"
  obtains ts i ur s1 where "rx_match label_re (tg_name t)" "vnc_registry cd s = Some ts"
    "i < length ts" "tg_name (ts ! i) = old" "tg_name t = old \<or> tg_name t \<notin> tg_name ` set ts"
    "sync_route (create_app env cad os) (update_app env cad os) (delete_app cad os)
       (uses_app_route (ts ! i)) (uses_app_route t) old (app_of t) s = (ur, s1)" "settled ur"
    "vnc_save cd os (ts[i := t]) s1 = (Inr (), s')"
proof -
  have "False" if e: "vnc_validate env t = Inl e" for e
    using assms vnc_unsettled(1) [OF e] by (simp add: vnc_update_def e)
  then obtain u where v: "vnc_validate env t = Inr u" by (cases "vnc_validate env t") auto
  obtain ts where l: "vnc_load cd os s = Inr ts"
    using assms v vnc_unsettled(2) by (cases "vnc_load cd os s") (auto simp: vnc_update_def)
  obtain i where i: "index_of ts old = Some i"
    using assms v l vnc_unsettled(5) by (cases "index_of ts old") (auto simp: vnc_update_def)
  have free: "\<not> (tg_name t \<noteq> old \<and> index_of ts (tg_name t) \<noteq> None)"
    using assms v l i vnc_unsettled(4) by (auto simp: vnc_update_def split: if_splits)
  obtain ur s1 where c: "sync_route (create_app env cad os) (update_app env cad os) (delete_app cad os)
       (uses_app_route (ts ! i)) (uses_app_route t) old (app_of t) s = (ur, s1)" by fastforce
  obtain w s2 where sv: "vnc_save cd os (ts[i := t]) s1 = (w, s2)" by fastforce
  have run: "(if \<not> settled ur then (map_error RouteError ur, s1)
      else (case vnc_save cd os (ts[i := t]) s1 of
          (Inl e, s2) \<Rightarrow> (Inl e, s2) | (Inr _, s2) \<Rightarrow> (map_error RouteError ur, s2))) = (r, s')"
    using assms(1) v l i free c by (cases "tg_name t = old") (simp_all add: vnc_update_def)
  then have ur: "settled ur" using assms(2) by (auto split: if_splits)
  then have "w = Inr ()" "s' = s2"
    using run assms(2) sv vnc_unsettled(3) by (cases w; auto)+
  then show thesis
    using that [of ts i ur s1] vnc_validate_name [OF v] vnc_store.load_stored [OF l] free c ur sv
      index_of_Some [OF i] by (auto simp: index_of_None)
qed

lemma vnc_delete_inv:
  assumes "vnc_delete cad cd os n s = (r, s')" "vnc_settled r"
  obtains ts i s1 where "vnc_registry cd s = Some ts" "i < length ts" "tg_name (ts ! i) = n"
    "if uses_app_route (ts ! i)
       then \<exists>dr. (settled dr \<or> dr = Inl EntryNotFound) \<and> delete_app cad os n s = (dr, s1) else s1 = s"
    "vnc_save cd os (take i ts @ drop (Suc i) ts) s1 = (Inr (), s')"
proof -
  obtain ts where l: "vnc_load cd os s = Inr ts"
    using assms vnc_unsettled(2) by (cases "vnc_load cd os s") (auto simp: vnc_delete_def)
  obtain i where i: "index_of ts n = Some i"
    using assms l vnc_unsettled(5) by (cases "index_of ts n") (auto simp: vnc_delete_def)
  let ?rest = "take i ts @ drop (Suc i) ts"
  note facts = vnc_store.load_stored [OF l] index_of_Some [OF i]
  show thesis
  proof (cases "uses_app_route (ts ! i)")
    case False
    with assms(1) l i have sv: "vnc_save cd os ?rest s = (r, s')" by (simp add: vnc_delete_def)
    have "r = Inr ()" using sv assms(2) vnc_unsettled(3) by (cases r) auto
    with that [of ts i s] facts sv False show thesis by simp
  next
    case True
    obtain dr s1 where d: "delete_app cad os n s = (dr, s1)" by fastforce
    obtain w s2 where sv: "vnc_save cd os ?rest s1 = (w, s2)" by fastforce
    have run: "(if \<not> settled dr \<and> dr \<noteq> Inl EntryNotFound then (map_error RouteError dr, s1)
        else let dr' = (if dr = Inl EntryNotFound then Inr () else dr)
          in (case vnc_save cd os ?rest s1 of
            (Inl e, s2) \<Rightarrow> (Inl e, s2) | (Inr _, s2) \<Rightarrow> (map_error RouteError dr', s2))) = (r, s')"
      using assms(1) l i True d by (simp add: vnc_delete_def)
    then have dr: "settled dr \<or> dr = Inl EntryNotFound" using assms(2) by (auto split: if_splits)
    then have "w = Inr ()" "s' = s2"
      using run assms(2) sv vnc_unsettled(3) by (cases w; auto)+
    with that [of ts i s1] facts sv True d dr show thesis by auto
  qed
qed

lemma sort_set: "set (sort_key f xs) = set xs"
  by simp

lemma unique_sort: "unique_keys k (sort_key f xs) = unique_keys k xs"
  unfolding unique_keys_def distinct_map by simp

lemma remove_nth: "i < length ts \<Longrightarrow> ts = take i ts @ ts ! i # drop (Suc i) ts"
  by (rule id_take_nth_drop)

lemma unique_other:
  "unique_keys k ts \<Longrightarrow> i < length ts \<Longrightarrow> u \<in> set ts \<Longrightarrow> u \<noteq> ts ! i \<Longrightarrow> k u \<noteq> k (ts ! i)"
  by (auto simp: unique_keys_def distinct_map inj_on_def)

lemma update_names:
  assumes "unique_keys k ts" "i < length ts" "k t = k (ts ! i) \<or> k t \<notin> k ` set ts"
  shows "unique_keys k (ts[i := t])"
proof -
  have d: "distinct (map k ts)" using assms(1) by (simp add: unique_keys_def)
  have "distinct ((map k ts)[i := k t])"
  proof (rule distinct_list_update [OF d])
    have "k t \<notin> set (map k ts) - {map k ts ! i}" using assms(2,3) by auto
    then show "k t \<notin> set (map k ts) - {map k ts ! i}" .
  qed
  then show ?thesis by (simp add: unique_keys_def map_update)
qed

lemma others_unchanged:
  assumes "unique_keys k ts" "i < length ts" "u \<in> set (ts[i := t])"
  shows "u = t \<or> (u \<in> set ts \<and> k u \<noteq> k (ts ! i))"
proof -
  obtain j where j: "j < length ts" "u = ts[i := t] ! j" using assms(3) by (auto simp: in_set_conv_nth)
  show ?thesis
  proof (cases "j = i")
    case True
    then show ?thesis using j by simp
  next
    case False
    then have "u = ts ! j" using j by simp
    moreover have "k (ts ! j) \<noteq> k (ts ! i)"
      using assms(1,2) j(1) False nth_eq_iff_index_eq [of "map k ts" j i] by (simp add: unique_keys_def)
    ultimately show ?thesis using j(1) by simp
  qed
qed

lemma removed_set:
  assumes "unique_keys k ts" "i < length ts" "u \<in> set (take i ts @ drop (Suc i) ts)"
  shows "u \<in> set ts \<and> k u \<noteq> k (ts ! i)"
proof -
  have "distinct (map k (take i ts @ ts ! i # drop (Suc i) ts))"
    using assms(1) id_take_nth_drop [OF assms(2)] by (simp add: unique_keys_def)
  then have "k (ts ! i) \<notin> k ` set (take i ts @ drop (Suc i) ts)" by auto
  then have "k u \<noteq> k (ts ! i)" using assms(3) by (metis imageI)
  then show ?thesis using assms(3) by (auto dest: in_set_takeD in_set_dropD)
qed

lemma removed_unique:
  "unique_keys k ts \<Longrightarrow> unique_keys k (take i ts @ drop (Suc i) ts)"
proof -
  assume u: "unique_keys k ts"
  have "map k (take i ts @ drop (Suc i) ts) = take i (map k ts) @ drop (Suc i) (map k ts)"
    by (simp add: take_map drop_map)
  then show ?thesis
    using u set_take_disj_set_drop_if_distinct [of "map k ts" i "Suc i"] by (simp add: unique_keys_def)
qed

lemma remaining_set:
  assumes "unique_keys tg_name ts" "i < length ts" "tg_name (ts ! i) = n"
  shows "set (take i ts @ drop (Suc i) ts) = {u \<in> set ts. tg_name u \<noteq> n}"
proof (intro equalityI subsetI)
  fix u assume u: "u \<in> {u \<in> set ts. tg_name u \<noteq> n}"
  then have "u \<in> set (take i ts @ ts ! i # drop (Suc i) ts)" using remove_nth [OF assms(2)] by simp
  then show "u \<in> set (take i ts @ drop (Suc i) ts)" using u assms(3) by auto
next
  fix u assume "u \<in> set (take i ts @ drop (Suc i) ts)"
  from removed_set [OF assms(1,2) this] assms(3) show "u \<in> {u \<in> set ts. tg_name u \<noteq> n}" by simp
qed

lemma updated_set:
  assumes "unique_keys tg_name ts" "i < length ts" "tg_name (ts ! i) = old"
  shows "set (ts[i := t]) = insert t {u \<in> set ts. tg_name u \<noteq> old}"
proof -
  have "ts[i := t] = take i ts @ t # drop (Suc i) ts" using assms(2) by (simp add: upd_conv_take_nth_drop)
  then have "set (ts[i := t]) = insert t (set (take i ts @ drop (Suc i) ts))" by auto
  then show ?thesis using remaining_set [OF assms] by simp
qed

lemma owns_route_at:
  assumes "unique_keys tg_name ts" "i < length ts"
  shows "owns_route (set ts) (tg_name (ts ! i)) = uses_app_route (ts ! i)"
  using unique_other [OF assms] assms(2) by (auto simp: owns_route_def)

lemma create_lockstep:
  assumes "vnc_create env cad cd os t s = (r, s')" "sees_apps os" "vnc_settled r"
    and "vnc_registry cd s = Some ts" "vnc_ok ts" "codec_ok cd (\<lambda>x. x)"
  shows "\<exists>ts'. vnc_registry cd s' = Some ts' \<and> vnc_ok ts' \<and> set ts' = registry_after (CreateTarget t) (set ts) \<and>
    app_routes s' = routes_after (CreateTarget t) (set ts) (app_routes s)"
proof -
  from assms(1,3) obtain ts1 s1 where l: "rx_match label_re (tg_name t)" "vnc_registry cd s = Some ts1"
    "tg_name t \<notin> tg_name ` set ts1"
    and c: "if uses_app_route t then \<exists>cr. settled cr \<and> create_app env cad os (app_of t) s = (cr, s1) else s1 = s"
    and sv: "vnc_save cd os (ts1 @ [t]) s1 = (Inr (), s')"
    by (rule vnc_create_inv)
  have ts1: "ts1 = ts" using l(2) assms(4) by simp
  have "app_routes s1 = (if uses_app_route t then (app_routes s)(tg_name t \<mapsto> render_app (app_of t)) else app_routes s)"
    using c create_app_cases [OF _ assms(2)] by (fastforce split: if_splits)
  then have "app_routes s' = routes_after (CreateTarget t) (set ts) (app_routes s)"
    using vnc_save_routes [OF sv] by (simp add: routes_after_def fun_eq_iff)
  moreover have "vnc_ok (ts @ [t])" using assms(5) l by (auto simp: vnc_ok_def unique_keys_def ts1)
  ultimately show ?thesis
    using saved_registry [OF sv assms(6)] by (auto simp: ts1 vnc_ok_def unique_sort registry_after_def)
qed

lemma update_lockstep:
  assumes "vnc_update env cad cd os old t s = (r, s')" "sees_apps os" "vnc_settled r"
    and "vnc_registry cd s = Some ts" "vnc_ok ts" "codec_ok cd (\<lambda>x. x)"
  shows "\<exists>ts'. vnc_registry cd s' = Some ts' \<and> vnc_ok ts' \<and> set ts' = registry_after (UpdateTarget old t) (set ts) \<and>
    app_routes s' = routes_after (UpdateTarget old t) (set ts) (app_routes s)"
proof -
  from assms(1,3) obtain ts1 i ur s1 where l: "rx_match label_re (tg_name t)" "vnc_registry cd s = Some ts1"
    "i < length ts1" "tg_name (ts1 ! i) = old" "tg_name t = old \<or> tg_name t \<notin> tg_name ` set ts1"
    and c: "sync_route (create_app env cad os) (update_app env cad os) (delete_app cad os)
       (uses_app_route (ts1 ! i)) (uses_app_route t) old (app_of t) s = (ur, s1)" "settled ur"
    and sv: "vnc_save cd os (ts1[i := t]) s1 = (Inr (), s')"
    by (rule vnc_update_inv)
  have ts1: "ts1 = ts" using l(2) assms(4) by simp
  have "rx_match label_re old" using assms(5) l(3,4) by (auto simp: vnc_ok_def ts1)
  from apps.sync_cases [OF c(1) this assms(2)] c(2) vnc_save_routes [OF sv]
  have R: "app_routes s' = (let rest = (if uses_app_route (ts ! i) then (app_routes s)(old := None) else app_routes s)
      in if uses_app_route t then rest(tg_name t \<mapsto> render_app (app_of t)) else rest)"
    by (simp add: ts1 Let_def)
  have u: "unique_keys tg_name ts" using assms(5) by (simp add: vnc_ok_def)
  have "owns_route (set ts) old = uses_app_route (ts ! i)"
    using owns_route_at [OF u, of i] l(3) l(4) [symmetric] by (simp add: ts1)
  then have "app_routes s' = routes_after (UpdateTarget old t) (set ts) (app_routes s)"
    by (simp add: R Let_def routes_after_def fun_eq_iff)
  moreover have "set (ts[i := t]) = registry_after (UpdateTarget old t) (set ts)"
    using updated_set [OF u] l(3,4) by (simp add: ts1 registry_after_def)
  moreover have "vnc_ok (ts[i := t])"
    using update_names [OF u, of i t] l(1,3-5) assms(5)
    by (auto simp: vnc_ok_def ts1 dest: set_update_subset_insert [THEN subsetD])
  ultimately show ?thesis
    using saved_registry [OF sv assms(6)] by (auto simp: ts1 vnc_ok_def unique_sort)
qed

lemma delete_lockstep:
  assumes "vnc_delete cad cd os n s = (r, s')" "sees_apps os" "vnc_settled r"
    and "vnc_registry cd s = Some ts" "vnc_ok ts" "codec_ok cd (\<lambda>x. x)"
  shows "\<exists>ts'. vnc_registry cd s' = Some ts' \<and> vnc_ok ts' \<and> set ts' = registry_after (DeleteTarget n) (set ts) \<and>
    app_routes s' = routes_after (DeleteTarget n) (set ts) (app_routes s)"
proof -
  from assms(1,3) obtain ts1 i s1 where l: "vnc_registry cd s = Some ts1" "i < length ts1" "tg_name (ts1 ! i) = n"
    and c: "if uses_app_route (ts1 ! i)
       then \<exists>dr. (settled dr \<or> dr = Inl EntryNotFound) \<and> delete_app cad os n s = (dr, s1) else s1 = s"
    and sv: "vnc_save cd os (take i ts1 @ drop (Suc i) ts1) s1 = (Inr (), s')"
    by (rule vnc_delete_inv)
  have ts1: "ts1 = ts" using l(1) assms(4) by simp
  have u: "unique_keys tg_name ts" using assms(5) by (simp add: vnc_ok_def)
  have "app_routes s1 = (if uses_app_route (ts ! i) then (app_routes s)(n := None) else app_routes s)"
    using c delete_app_cases [OF _ assms(2)] by (fastforce simp: ts1 split: if_splits)
  moreover have "owns_route (set ts) n = uses_app_route (ts ! i)"
    using owns_route_at [OF u, of i] l(2) l(3) [symmetric] by (simp add: ts1)
  ultimately have "app_routes s' = routes_after (DeleteTarget n) (set ts) (app_routes s)"
    using vnc_save_routes [OF sv] by (simp add: routes_after_def fun_eq_iff)
  moreover have "set (take i ts @ drop (Suc i) ts) = registry_after (DeleteTarget n) (set ts)"
    using remaining_set [OF u] l(2,3) by (simp add: ts1 registry_after_def)
  moreover from this have "vnc_ok (take i ts @ drop (Suc i) ts)"
    using removed_unique [OF u] assms(5) by (auto simp: vnc_ok_def registry_after_def)
  ultimately show ?thesis
    using saved_registry [OF sv assms(6)] by (auto simp: ts1 vnc_ok_def unique_sort)
qed

text \<open>Routes that were in step with a registry stay so when both take their course.\<close>

lemma in_step_after:
  assumes "\<forall>t \<in> T. in_step R t" "u \<in> registry_after req T"
    and "\<And>t. req = CreateTarget t \<Longrightarrow> tg_name t \<notin> tg_name ` T"
    and "\<And>old t. req = UpdateTarget old t \<Longrightarrow> tg_name t = old \<or> tg_name t \<notin> tg_name ` T"
  shows "in_step (routes_after req T R) u"
proof (cases req)
  case (CreateTarget t)
  moreover from this have "u = t \<or> u \<in> T \<and> tg_name u \<noteq> tg_name t"
    using assms(2,3) by (auto simp: registry_after_def image_iff)
  ultimately show ?thesis using assms(1) by (auto simp: in_step_def routes_after_def)
next
  case (UpdateTarget old t)
  moreover from this have "u = t \<or> u \<in> T \<and> tg_name u \<noteq> tg_name t \<and> tg_name u \<noteq> old"
    using assms(2,4) by (auto simp: registry_after_def image_iff)
  ultimately show ?thesis using assms(1) by (auto simp: in_step_def routes_after_def)
next
  case (DeleteTarget n)
  then show ?thesis using assms(1,2) by (auto simp: in_step_def routes_after_def registry_after_def)
qed

lemma vnc_run_names:
  assumes "vnc_run env cad cd os req s = (r, s')" "vnc_settled r" "vnc_registry cd s = Some ts"
  shows "req = CreateTarget t \<Longrightarrow> tg_name t \<notin> tg_name ` set ts"
    "req = UpdateTarget old t \<Longrightarrow> tg_name t = old \<or> tg_name t \<notin> tg_name ` set ts"
proof -
  assume "req = CreateTarget t"
  then have "vnc_create env cad cd os t s = (r, s')" using assms(1) by (simp add: vnc_run_def)
  from vnc_create_inv [OF this assms(2)] assms(3) show "tg_name t \<notin> tg_name ` set ts" by (metis option.inject)
next
  assume "req = UpdateTarget old t"
  then have "vnc_update env cad cd os old t s = (r, s')" using assms(1) by (simp add: vnc_run_def)
  from vnc_update_inv [OF this assms(2)] assms(3) show "tg_name t = old \<or> tg_name t \<notin> tg_name ` set ts"
    by (metis option.inject)
qed

text \<open>
  C8.  The registry and the routes stay in lockstep.  A create, an update (renaming or switching the backend, too) or a
  delete that takes place, the reload of Caddy having failed or not, makes of the registered targets just what it is to
  (\<open>registry_after\<close>: the target is added, put in the place of the old one, or removed) and of the apps' routes, too
  (\<open>routes_after\<close>: the old target's route is gone, the new one is rendered when it wants one, and every other route
  stays); so every registered target that wants a route still has the one rendered for it.  This is for a request run
  alone (App Routes takes no lock), whatever calls fail in it other than the \<open>os.Stat\<close> of a fragment, with a codec that
  reads back what it wrote.
\<close>

theorem vnc_lockstep:
  assumes "vnc_run env cad cd os req s = (r, s')" "sees_apps os" "vnc_settled r"
    and "vnc_registry cd s = Some ts" "vnc_ok ts" "codec_ok cd (\<lambda>x. x)"
    and "\<forall>t \<in> set ts. in_step (app_routes s) t"
  shows "\<exists>ts'. vnc_registry cd s' = Some ts' \<and> vnc_ok ts' \<and> set ts' = registry_after req (set ts) \<and>
    app_routes s' = routes_after req (set ts) (app_routes s) \<and> (\<forall>t \<in> set ts'. in_step (app_routes s') t)"
proof -
  have "\<exists>ts'. vnc_registry cd s' = Some ts' \<and> vnc_ok ts' \<and> set ts' = registry_after req (set ts) \<and>
      app_routes s' = routes_after req (set ts) (app_routes s)"
    using assms(1) create_lockstep [OF _ assms(2-6)] update_lockstep [OF _ assms(2-6)] delete_lockstep [OF _ assms(2-6)]
    by (cases req) (simp_all add: vnc_run_def)
  then show ?thesis using in_step_after [OF assms(7)] vnc_run_names [OF assms(1,3,4)] by metis
qed

lemma create_keeps_foreign:
  assumes "vnc_create env cad cd os t s = (r, s')" "sees_apps os"
    and "vnc_registry cd s = Some ts" "vnc_ok ts"
    and "app_routes s n = Some c" "\<And>t. t \<in> set ts \<Longrightarrow> uses_app_route t \<Longrightarrow> tg_name t \<noteq> n"
  shows "app_routes s' n = Some c"
proof -
  have loaded: "ts1 = ts" if "vnc_load cd os s = Inr ts1" for ts1
    using vnc_store.load_stored [OF that] assms(3) by simp
  obtain cr s1 where c: "(if uses_app_route t then create_app env cad os (app_of t) s else (Inr (), s)) = (cr, s1)"
    by fastforce
  have route: "app_routes s1 n = Some c \<and> (settled cr \<and> uses_app_route t \<longrightarrow> tg_name t \<noteq> n)"
  proof (cases "uses_app_route t")
    case True
    then have "create_app env cad os (app_of t) s = (cr, s1)" using c by simp
    from create_app_cases [OF this assms(2)] assms(5) show ?thesis
      by (elim disjE) (auto, metis option.distinct(1))
  qed (use c assms(5) in simp)
  obtain w s2 where sv: "vnc_save cd os (ts @ [t]) s1 = (w, s2)" by fastforce
  obtain d s3 where d: "delete_app cad os (tg_name t) s2 = (d, s3)" by fastforce
  have "s' = s \<or> s' = s1 \<or> s' = s2 \<or> (settled cr \<and> uses_app_route t \<and> s' = s3)"
    using assms(1) loaded c sv d
    by (auto simp: vnc_create_def split: sum.splits if_splits)
  with route assms(5) vnc_save_routes [OF sv] delete_app_cases [OF d assms(2)] show ?thesis by auto
qed

lemma update_keeps_foreign:
  assumes "vnc_update env cad cd os old t s = (r, s')" "sees_apps os"
    and "vnc_registry cd s = Some ts" "vnc_ok ts"
    and "app_routes s n = Some c" "\<And>t. t \<in> set ts \<Longrightarrow> uses_app_route t \<Longrightarrow> tg_name t \<noteq> n"
  shows "app_routes s' n = Some c"
proof -
  have loaded: "ts1 = ts" if "vnc_load cd os s = Inr ts1" for ts1
    using vnc_store.load_stored [OF that] assms(3) by simp
  have route: "app_routes s1 n = Some c"
    if "sync_route (create_app env cad os) (update_app env cad os) (delete_app cad os)
      (uses_app_route (ts ! i)) (uses_app_route t) old (app_of t) s = (ur, s1)" "index_of ts old = Some i" for i ur s1
  proof -
    have i: "ts ! i \<in> set ts" "tg_name (ts ! i) = old" using index_of_Some [OF that(2)] by auto
    then have "rx_match label_re old" "uses_app_route (ts ! i) \<Longrightarrow> old \<noteq> n"
      using assms(4,6) by (auto simp: vnc_ok_def)
    from apps.sync_cases [OF that(1) this(1) assms(2)] this(2) assms(5) show ?thesis
    proof (elim disjE conjE)
      assume "\<forall>m. app_routes s1 m = app_routes s m \<or> uses_app_route (ts ! i) \<and> m = old \<or>
          uses_app_route t \<and> m = app_name (app_of t) \<and> app_routes s m = None"
        "uses_app_route (ts ! i) \<Longrightarrow> old \<noteq> n" "app_routes s n = Some c"
      then show ?thesis by (metis option.distinct(1))
    qed (auto simp: Let_def split: if_splits)
  qed
  show ?thesis
  proof (cases "index_of ts old")
    case None
    then have "s' = s" using assms(1) loaded
      by (auto simp: vnc_update_def split: sum.splits)
    then show ?thesis using assms(5) by simp
  next
    case (Some i)
    obtain ur s1 where c: "sync_route (create_app env cad os) (update_app env cad os)
        (delete_app cad os) (uses_app_route (ts ! i)) (uses_app_route t) old (app_of t) s = (ur, s1)"
      by fastforce
    obtain w s2 where sv: "vnc_save cd os (ts[i := t]) s1 = (w, s2)" by fastforce
    have "s' = s \<or> s' = s1 \<or> s' = s2"
      using assms(1) loaded c sv Some
      by (auto simp: vnc_update_def split: sum.splits if_splits)
    with route [OF c Some] assms(5) vnc_save_routes [OF sv] show ?thesis by auto
  qed
qed

lemma delete_keeps_foreign:
  assumes "vnc_delete cad cd os m s = (r, s')" "sees_apps os"
    and "vnc_registry cd s = Some ts" "vnc_ok ts"
    and "app_routes s n = Some c" "\<And>t. t \<in> set ts \<Longrightarrow> uses_app_route t \<Longrightarrow> tg_name t \<noteq> n"
  shows "app_routes s' n = Some c"
proof -
  have loaded: "ts1 = ts" if "vnc_load cd os s = Inr ts1" for ts1
    using vnc_store.load_stored [OF that] assms(3) by simp
  have route: "app_routes s1 n = Some c"
    if "delete_app cad os m s = (dr, s1)" "index_of ts m = Some i" "uses_app_route (ts ! i)" for i dr s1
  proof -
    have "ts ! i \<in> set ts" "tg_name (ts ! i) = m" using index_of_Some [OF that(2)] by auto
    then have "m \<noteq> n" using assms(6) that(3) by blast
    with delete_app_cases [OF that(1) assms(2)] assms(5) show ?thesis by auto
  qed
  show ?thesis
  proof (cases "index_of ts m")
    case None
    then have "s' = s" using assms(1) loaded
      by (auto simp: vnc_delete_def split: sum.splits)
    then show ?thesis using assms(5) by simp
  next
    case (Some i)
    obtain dr s1 where d: "delete_app cad os m s = (dr, s1)" by fastforce
    let ?rest = "take i ts @ drop (Suc i) ts"
    obtain w s2 where sv: "vnc_save cd os ?rest s1 = (w, s2)" by fastforce
    obtain w3 s3 where sv3: "vnc_save cd os ?rest s = (w3, s3)" by fastforce
    have "s' = s \<or> s' = s3 \<or> (uses_app_route (ts ! i) \<and> (s' = s1 \<or> s' = s2))"
      using assms(1) loaded d sv sv3 Some
      by (auto simp: vnc_delete_def Let_def split: sum.splits if_splits)
    with route [OF d Some] assms(5) vnc_save_routes [OF sv] vnc_save_routes [OF sv3] show ?thesis by auto
  qed
qed

text \<open>
  C30.  No request run alone destroys an app that belongs to someone else: a route whose name is not that of a
  registered target with a route keeps its text, whatever the request and its result, and whatever calls fail in it
  other than the \<open>os.Stat\<close> of a fragment.  (With that call failing it can be overwritten: \<open>unseen_app_overwritten\<close>.)
\<close>

theorem vnc_foreign_routes_kept:
  assumes "vnc_run env cad cd os req s = (r, s')" "sees_apps os"
    and "vnc_registry cd s = Some ts" "vnc_ok ts"
    and "app_routes s n = Some c" "\<And>t. t \<in> set ts \<Longrightarrow> uses_app_route t \<Longrightarrow> tg_name t \<noteq> n"
  shows "app_routes s' n = Some c"
proof (cases req)
  case (CreateTarget t)
  then have "vnc_create env cad cd os t s = (r, s')" using assms(1) by (simp add: vnc_run_def)
  from create_keeps_foreign [OF this assms(2-6)] show ?thesis .
next
  case (UpdateTarget old t)
  then have "vnc_update env cad cd os old t s = (r, s')" using assms(1) by (simp add: vnc_run_def)
  from update_keeps_foreign [OF this assms(2-6)] show ?thesis .
next
  case (DeleteTarget m)
  then have "vnc_delete cad cd os m s = (r, s')" using assms(1) by (simp add: vnc_run_def)
  from delete_keeps_foreign [OF this assms(2-6)] show ?thesis .
qed

section \<open>The properties on a concrete registry\<close>

definition sample_target :: target where
  "sample_target =
     \<lparr>tg_name = ''desk'', tg_label = ''Desk'', tg_target = ''code-docker:6080'', tg_backend = ''novnc'',
      tg_auth = True, tg_resize = []\<rparr>"

definition sample_codec :: vnc_codec where
  "sample_codec =
     \<lparr>marshal = (\<lambda>ts. if ts = [] then Some ''[]'' else if ts = [sample_target] then Some ''[desk]'' else None),
      unmarshal = (\<lambda>b. if b = ''[]'' then Some [] else if b = ''[desk]'' then Some [sample_target] else None)\<rparr>"

lemma sample_codec_ok: "codec_ok sample_codec (\<lambda>x. x)"
  by (auto simp: codec_ok_def sample_codec_def split: if_splits)

lemma sample_target_facts:
  "vnc_validate (\<lambda>_. []) sample_target = Inr ()" "validate_app (\<lambda>_. []) (app_of sample_target) = Inr ()"
  "uses_app_route sample_target" "tg_name sample_target = ''desk''" "rx_match label_re ''desk''"
  "rx_match label_re ''code''"
  by code_simp+

lemma sample_create_ok:
  assumes "fs vnc_store_path = None" "fs (app_path ''desk'') = None"
  shows "fst (vnc_run (\<lambda>_. []) accepting sample_codec quiet_os (CreateTarget sample_target) (site_of fs)) = Inr ()"
  using assms
  by (simp add: vnc_run_def vnc_create_def sample_target_facts vnc_load_def load_doc_def read_file_def index_of_def
      create_app_eq create_fragment_def stat_ok_def app_path_def write_then_reload_def write_and_validate_quiet
      Let_def reload_after_write_def reload_caddy_def vnc_save_def save_doc_def atomic_write_quiet
      sample_codec_def)

theorem vnc_lockstep_witness:
  "\<exists>s' ts'. vnc_run (\<lambda>_. []) accepting sample_codec quiet_os (CreateTarget sample_target) (site_of Map.empty) =
       (Inr (), s') \<and> vnc_registry sample_codec s' = Some ts' \<and> set ts' = {sample_target} \<and>
     app_routes s' = [''desk'' \<mapsto> render_app (app_of sample_target)]"
proof -
  obtain r s' where run: "vnc_run (\<lambda>_. []) accepting sample_codec quiet_os (CreateTarget sample_target)
      (site_of Map.empty) = (r, s')" by fastforce
  then have r: "r = Inr ()" using sample_create_ok [of Map.empty] by simp
  have st: "vnc_settled r" by (simp add: r vnc_settled_def)
  have reg: "vnc_registry sample_codec (site_of Map.empty) = Some []"
    by (simp add: vnc_registry_def stored_doc_def)
  have ok: "vnc_ok []" by (simp add: vnc_ok_def unique_keys_def)
  have "app_routes (site_of Map.empty) = Map.empty" by (simp add: app_routes_def fun_eq_iff)
  then have "routes_after (CreateTarget sample_target) {} (app_routes (site_of Map.empty)) =
      [''desk'' \<mapsto> render_app (app_of sample_target)]"
    by (simp add: routes_after_def sample_target_facts fun_eq_iff)
  moreover have "registry_after (CreateTarget sample_target) {} = {sample_target}" by (simp add: registry_after_def)
  ultimately show ?thesis
    using vnc_lockstep [OF run sees_apps_quiet st reg ok sample_codec_ok] run r by auto
qed

theorem vnc_foreign_routes_kept_witness:
  "app_routes (snd (vnc_run (\<lambda>_. []) refusing sample_codec (quiet_os\<lparr>fails := \<lambda>c. c = Remove (app_path ''desk'')\<rparr>)
     (CreateTarget sample_target) (site_of [app_path ''code'' \<mapsto> \<lparr>contents = ''x'', perm = 0x1A4\<rparr>]))) ''code'' = Some ''x''"
proof -
  let ?s = "site_of [app_path ''code'' \<mapsto> \<lparr>contents = ''x'', perm = 0x1A4\<rparr>]"
  let ?os = "quiet_os\<lparr>fails := \<lambda>c. c = Remove (app_path ''desk'')\<rparr>"
  obtain r s' where run: "vnc_run (\<lambda>_. []) refusing sample_codec ?os (CreateTarget sample_target) ?s = (r, s')"
    by fastforce
  have "app_path ''code'' \<noteq> vnc_store_path" by (rule app_path_not_store) (rule sample_target_facts)
  then have "vnc_registry sample_codec ?s = Some []" by (simp add: vnc_registry_def stored_doc_def)
  moreover have "app_routes ?s ''code'' = Some ''x''"
    unfolding app_routes_def if_P [OF sample_target_facts(6)] by simp
  moreover have "vnc_ok []" by (simp add: vnc_ok_def unique_keys_def)
  moreover have "sees_apps ?os" by (simp add: sees_apps_def)
  ultimately show ?thesis
    using vnc_foreign_routes_kept [OF run, of "[]" "''code''" "''x''"] run by simp
qed

text \<open>
  \<open>Create\<close> takes any failure of \<open>os.Stat\<close> for a fragment that is not there: when it fails otherwise, the creation of a
  target overwrites an app of the same name that belongs to someone else, and reports success.
\<close>

theorem unseen_app_overwritten:
  "\<exists>s'. vnc_run (\<lambda>_. []) accepting sample_codec (quiet_os\<lparr>fails := \<lambda>c. c = Stat (app_path ''desk'')\<rparr>)
       (CreateTarget sample_target) (site_of [app_path ''desk'' \<mapsto> \<lparr>contents = ''x'', perm = 0x1A4\<rparr>]) = (Inr (), s') \<and>
     app_routes s' ''desk'' = Some (render_app (app_of sample_target))"
proof -
  let ?os = "quiet_os\<lparr>fails := \<lambda>c. c = Stat (app_path ''desk'')\<rparr>"
  let ?s = "site_of [app_path ''desk'' \<mapsto> \<lparr>contents = ''x'', perm = 0x1A4\<rparr>]"
  have p: "app_path ''desk'' \<noteq> vnc_store_path" "app_path ''desk'' \<noteq> tmp_path vnc_store_path"
    using app_path_not_store [OF sample_target_facts(5)] by simp_all
  obtain r s' where c: "create_app (\<lambda>_. []) accepting ?os (app_of sample_target) ?s = (r, s')" by fastforce
  have s': "r = Inr ()" "files s' = [app_path ''desk'' \<mapsto> \<lparr>contents = render_app (app_of sample_target), perm = 0x1A4\<rparr>]"
    using c by (auto simp add: create_app_eq sample_target_facts create_fragment_def stat_ok_def write_then_reload_def
        write_and_validate_def syscall_defs read_file_def reload_after_write_def reload_caddy_def app_path_def [symmetric])
  obtain w s2 where sv: "vnc_save sample_codec ?os ([] @ [sample_target]) s' = (w, s2)" by fastforce
  then have w: "w = Inr ()"
    by (auto simp: vnc_save_def save_doc_def sample_codec_def atomic_write_def atomic_write_acts_def syscall_defs)
  have "app_routes s2 ''desk'' = app_routes s' ''desk''" using vnc_save_routes [OF sv] by simp
  also have "\<dots> = Some (render_app (app_of sample_target))"
    unfolding app_routes_def if_P [OF sample_target_facts(5)] using s'(2) by simp
  finally have "app_routes s2 ''desk'' = Some (render_app (app_of sample_target))" .
  moreover have "vnc_load sample_codec ?os ?s = Inr []"
    using p by (simp add: vnc_load_def load_doc_def read_file_def)
  ultimately show ?thesis
    using c s'(1) sv w by (simp add: vnc_run_def vnc_create_def sample_target_facts index_of_def)
qed

end
