(* ===== verification/Caddy_Api.thy ===== *)
theory Caddy_Api
  imports Vnc_Targets Http_Reply
begin

text \<open>
  \<open>handlers_devproxy.go\<close>, \<open>handlers_approutes.go\<close> and the target handlers of \<open>handlers_vnc.go\<close>: the HTTP layer
  over the Caddy fragments.  A decoded request body is \<open>None\<close> when its JSON does not decode.
\<close>

section \<open>The errors of a fragment\<close>

datatype 'v fragment_message = FragmentBody | FragmentFailed "'v fragment_error" | ListFailed io_error | ReloadError string

text \<open>\<open>writeDevProxyError\<close> and \<open>writeAppRouteError\<close>, which answer alike.\<close>

definition fragment_status :: "'v fragment_error \<Rightarrow> int" where
  "fragment_status e =
     (case e of EntryExists \<Rightarrow> 409 | EntryNotFound \<Rightarrow> 404 | ReloadFailed _ \<Rightarrow> 500 | _ \<Rightarrow> 400)"

definition write_dev_proxy_error :: "expose_invalid fragment_error \<Rightarrow> (expose_invalid fragment_message, 'a) reply" where
  "write_dev_proxy_error e = (fragment_status e, ErrorBody (FragmentFailed e))"

definition write_app_route_error :: "app_invalid fragment_error \<Rightarrow> (app_invalid fragment_message, 'a) reply" where
  "write_app_route_error e = (fragment_status e, ErrorBody (FragmentFailed e))"

text \<open>The end of the handlers: the error's answer, or 200.\<close>

definition answer_with :: "('x \<Rightarrow> ('m, 'a option) reply) \<Rightarrow> ('x + unit) \<times> 's \<Rightarrow> ('m, 'a option) reply \<times> 's" where
  "answer_with refuse res = (case res of (Inl e, s) \<Rightarrow> (refuse e, s) | (Inr _, s) \<Rightarrow> ((200, Body None), s))"

section \<open>Dev Proxy\<close>

type_synonym expose_reply = "(expose_invalid fragment_message, expose fragment_info list option) reply"

definition handle_list_dev_proxy_exposes :: "string os \<Rightarrow> listing \<Rightarrow> site \<Rightarrow> expose_reply" where
  "handle_list_dev_proxy_exposes os ls s =
     (case list_exposes os ls (files s) of
        Inl e \<Rightarrow> (500, ErrorBody (ListFailed e))
      | Inr infos \<Rightarrow> (200, Body (Some infos)))"

definition handle_create_dev_proxy_expose ::
    "env \<Rightarrow> caddy \<Rightarrow> string os \<Rightarrow> expose option \<Rightarrow> site \<Rightarrow> expose_reply \<times> site" where
  "handle_create_dev_proxy_expose env cad os body s =
     (case body of
        None \<Rightarrow> ((400, ErrorBody FragmentBody), s)
      | Some e \<Rightarrow> answer_with write_dev_proxy_error (create_expose env cad os e s))"

text \<open>The body of an update: \<open>raw\<close>, or the fields of an expose with the name to give it.\<close>

record expose_update =
  eu_raw :: "string option"
  eu_name :: string
  eu_host :: string
  eu_routes :: "route list"

definition handle_update_dev_proxy_expose ::
    "env \<Rightarrow> caddy \<Rightarrow> string os \<Rightarrow> string \<Rightarrow> expose_update option \<Rightarrow> site \<Rightarrow> expose_reply \<times> site" where
  "handle_update_dev_proxy_expose env cad os old body s =
     (case body of
        None \<Rightarrow> ((400, ErrorBody FragmentBody), s)
      | Some b \<Rightarrow>
          answer_with write_dev_proxy_error
            (case eu_raw b of
               Some src \<Rightarrow> update_expose_raw cad os old src s
             | None \<Rightarrow>
                 let new = (if eu_name b = [] then old else eu_name b)
                 in update_expose env cad os old \<lparr>ex_name = new, ex_host = eu_host b, ex_routes = eu_routes b\<rparr> s))"

definition handle_delete_dev_proxy_expose :: "caddy \<Rightarrow> string os \<Rightarrow> string \<Rightarrow> site \<Rightarrow> expose_reply \<times> site" where
  "handle_delete_dev_proxy_expose cad os name s = answer_with write_dev_proxy_error (delete_expose cad os name s)"

definition handle_reload_dev_proxy :: "caddy \<Rightarrow> site \<Rightarrow> expose_reply \<times> site" where
  "handle_reload_dev_proxy cad s =
     (case reload_caddy cad s of
        (Some msg, s') \<Rightarrow> ((500, ErrorBody (ReloadError msg)), s')
      | (None, s') \<Rightarrow> ((200, Body None), s'))"

section \<open>App Routes\<close>

type_synonym app_reply = "(app_invalid fragment_message, app fragment_info list option) reply"

definition handle_list_app_routes :: "string os \<Rightarrow> listing \<Rightarrow> site \<Rightarrow> app_reply" where
  "handle_list_app_routes os ls s =
     (case list_apps os ls (files s) of
        Inl e \<Rightarrow> (500, ErrorBody (ListFailed e))
      | Inr infos \<Rightarrow> (200, Body (Some infos)))"

definition handle_create_app_route ::
    "env \<Rightarrow> caddy \<Rightarrow> string os \<Rightarrow> app option \<Rightarrow> site \<Rightarrow> app_reply \<times> site" where
  "handle_create_app_route env cad os body s =
     (case body of
        None \<Rightarrow> ((400, ErrorBody FragmentBody), s)
      | Some a \<Rightarrow> answer_with write_app_route_error (create_app env cad os a s))"

record app_update =
  au_raw :: "string option"
  au_name :: string
  au_target :: string
  au_auth :: bool

definition handle_update_app_route ::
    "env \<Rightarrow> caddy \<Rightarrow> string os \<Rightarrow> string \<Rightarrow> app_update option \<Rightarrow> site \<Rightarrow> app_reply \<times> site" where
  "handle_update_app_route env cad os old body s =
     (case body of
        None \<Rightarrow> ((400, ErrorBody FragmentBody), s)
      | Some b \<Rightarrow>
          answer_with write_app_route_error
            (case au_raw b of
               Some src \<Rightarrow> update_app_raw cad os old src s
             | None \<Rightarrow>
                 let new = (if au_name b = [] then old else au_name b)
                 in update_app env cad os old \<lparr>app_name = new, app_target = au_target b, app_auth = au_auth b\<rparr> s))"

definition handle_delete_app_route :: "caddy \<Rightarrow> string os \<Rightarrow> string \<Rightarrow> site \<Rightarrow> app_reply \<times> site" where
  "handle_delete_app_route cad os name s = answer_with write_app_route_error (delete_app cad os name s)"

definition handle_reload_app_routes :: "caddy \<Rightarrow> site \<Rightarrow> app_reply \<times> site" where
  "handle_reload_app_routes cad s =
     (case reload_caddy cad s of
        (Some msg, s') \<Rightarrow> ((500, ErrorBody (ReloadError msg)), s')
      | (None, s') \<Rightarrow> ((200, Body None), s'))"

section \<open>VNC targets\<close>

datatype vnc_message = VncBody | VncFailed vnc_error

datatype vnc_value = VncOk | VncTargets "target_info list" "string list"

definition write_vnc_error :: "vnc_error \<Rightarrow> (vnc_message, vnc_value) reply" where
  "write_vnc_error e =
     (case e of
        TargetExists \<Rightarrow> 409
      | RouteError EntryExists \<Rightarrow> 409
      | TargetNotFound \<Rightarrow> 404
      | RouteError EntryNotFound \<Rightarrow> 404
      | RouteError (ReloadFailed _) \<Rightarrow> 500
      | _ \<Rightarrow> 400, ErrorBody (VncFailed e))"

definition vnc_answer :: "vnc_result \<Rightarrow> (vnc_message, vnc_value) reply \<times> site" where
  "vnc_answer res = (case res of (Inl e, s) \<Rightarrow> (write_vnc_error e, s) | (Inr _, s) \<Rightarrow> ((200, Body VncOk), s))"

definition handle_list_vnc_targets :: "vnc_codec \<Rightarrow> string os \<Rightarrow> listing \<Rightarrow> site \<Rightarrow> (vnc_message, vnc_value) reply" where
  "handle_list_vnc_targets cd os ls s =
     (case vnc_list cd os ls s of
        Inl e \<Rightarrow> (500, ErrorBody (VncFailed e))
      | Inr infos \<Rightarrow> (200, Body (VncTargets infos backend_order)))"

definition handle_create_vnc_target ::
    "env \<Rightarrow> caddy \<Rightarrow> vnc_codec \<Rightarrow> string os \<Rightarrow> target option \<Rightarrow> site \<Rightarrow> (vnc_message, vnc_value) reply \<times> site" where
  "handle_create_vnc_target env cad cd os body s =
     (case body of
        None \<Rightarrow> ((400, ErrorBody VncBody), s)
      | Some t \<Rightarrow> vnc_answer (vnc_create env cad cd os t s))"

definition handle_update_vnc_target ::
    "env \<Rightarrow> caddy \<Rightarrow> vnc_codec \<Rightarrow> string os \<Rightarrow> string \<Rightarrow> target option \<Rightarrow> site \<Rightarrow>
       (vnc_message, vnc_value) reply \<times> site" where
  "handle_update_vnc_target env cad cd os old body s =
     (case body of
        None \<Rightarrow> ((400, ErrorBody VncBody), s)
      | Some t \<Rightarrow>
          let t' = (if tg_name t = [] then t\<lparr>tg_name := old\<rparr> else t)
          in vnc_answer (vnc_update env cad cd os old t' s))"

definition handle_delete_vnc_target ::
    "caddy \<Rightarrow> vnc_codec \<Rightarrow> string os \<Rightarrow> string \<Rightarrow> site \<Rightarrow> (vnc_message, vnc_value) reply \<times> site" where
  "handle_delete_vnc_target cad cd os name s = vnc_answer (vnc_delete cad cd os name s)"

section \<open>What the status tells\<close>

datatype caddy_request =
    PostExpose "expose option"
  | PutExpose string "expose_update option"
  | RemoveExpose string
  | ReloadExposes
  | PostApp "app option"
  | PutApp string "app_update option"
  | RemoveApp string
  | ReloadApps

fun caddy_api :: "env \<Rightarrow> caddy \<Rightarrow> string os \<Rightarrow> caddy_request \<Rightarrow> site \<Rightarrow> int \<times> site" where
  "caddy_api env cad os (PostExpose b) s = apfst fst (handle_create_dev_proxy_expose env cad os b s)"
| "caddy_api env cad os (PutExpose n b) s = apfst fst (handle_update_dev_proxy_expose env cad os n b s)"
| "caddy_api env cad os (RemoveExpose n) s = apfst fst (handle_delete_dev_proxy_expose cad os n s)"
| "caddy_api env cad os ReloadExposes s = apfst fst (handle_reload_dev_proxy cad s)"
| "caddy_api env cad os (PostApp b) s = apfst fst (handle_create_app_route env cad os b s)"
| "caddy_api env cad os (PutApp n b) s = apfst fst (handle_update_app_route env cad os n b s)"
| "caddy_api env cad os (RemoveApp n) s = apfst fst (handle_delete_app_route cad os n s)"
| "caddy_api env cad os ReloadApps s = apfst fst (handle_reload_app_routes cad s)"

text \<open>How the running instance and the files relate after an operation, by its result.\<close>

definition told :: "site \<Rightarrow> ('v fragment_error + unit) \<times> site \<Rightarrow> bool" where
  "told s res =
     (case res of
        (Inr _, s') \<Rightarrow> live s' = files s'
      | (Inl EntryExists, s') \<Rightarrow> s' = s
      | (Inl EntryNotFound, s') \<Rightarrow> s' = s
      | (Inl _, s') \<Rightarrow> live s' = live s)"

lemma told_simps [simp]:
  "told s (Inl EntryExists, s') \<longleftrightarrow> s' = s" "told s (Inl EntryNotFound, s') \<longleftrightarrow> s' = s"
  "told s (Inr u, s') \<longleftrightarrow> live s' = files s'"
  "told s (Inl (Invalid v), s') \<longleftrightarrow> live s' = live s" "told s (Inl (FragmentIO e), s') \<longleftrightarrow> live s' = live s"
  "told s (Inl (InvalidAfterDelete m), s') \<longleftrightarrow> live s' = live s"
  by (simp_all add: told_def)

lemma told_reload: "told s (reload_after_write cad (s\<lparr>files := fs\<rparr>))"
  by (simp add: told_def reload_after_write_def reload_caddy_def split: option.splits)

lemma write_and_validate_told:
  "write_and_validate cad os dir n c fs = (Inl e, fs') \<Longrightarrow> told s (Inl e, s\<lparr>files := fs''\<rparr>)"
  by (auto simp: write_and_validate_def told_def Let_def split: prod.splits sum.splits option.splits)

lemma told_operations:
  "told s (create_expose env cad os e s)" "told s (update_expose env cad os n e s)"
  "told s (update_expose_raw cad os n src s)" "told s (delete_expose cad os n s)"
  "told s (create_app env cad os a s)" "told s (update_app env cad os n a s)"
  "told s (update_app_raw cad os n src s)" "told s (delete_app cad os n s)"
  by (auto simp: create_expose_def create_fragment_def write_then_reload_def update_expose_def update_fragment_def
      update_expose_raw_def update_raw_fragment_def delete_expose_def delete_fragment_def create_app_def update_app_def
      update_app_raw_def delete_app_def write_app_def reload_app_def Let_def told_reload
      intro: write_and_validate_told split: sum.splits prod.splits option.splits)

definition truthful :: "site \<Rightarrow> int \<times> site \<Rightarrow> bool" where
  "truthful s res =
     (case res of (c, s') \<Rightarrow>
        c \<in> set [200, 400, 404, 409, 500] \<and> live s' = (if c = 200 then files s' else live s) \<and>
        (c = 404 \<or> c = 409 \<longrightarrow> s' = s))"

lemma answer_truthful:
  assumes "told s res" "\<And>e. fst (refuse e) = fragment_status e"
  shows "truthful s (apfst fst (answer_with refuse res))"
  using assms
  by (auto simp: truthful_def answer_with_def told_def fragment_status_def split: sum.splits prod.splits fragment_error.splits)

lemma reload_truthful:
  "truthful s (apfst fst (case reload_caddy cad s of
     (Some msg, s') \<Rightarrow> ((500, ErrorBody (ReloadError msg)), s') | (None, s') \<Rightarrow> ((200, Body None), s')))"
  by (simp add: truthful_def reload_caddy_def split: option.splits)

text \<open>
  C15.  The status of an answer of Dev Proxy and App Routes tells what the running Caddy serves: exactly after
  200 it serves the files as they are now, after anything else it serves what it served before; 404 and 409 have
  changed no file either, and there is no other answer.
\<close>

theorem caddy_answers:
  assumes "caddy_api env cad os req s = (c, s')"
  shows "c \<in> set [200, 400, 404, 409, 500] \<and> live s' = (if c = 200 then files s' else live s) \<and>
    (c = 404 \<or> c = 409 \<longrightarrow> s' = s)"
proof -
  have bad: "truthful s (apfst fst ((400, ErrorBody m), s))" for m :: "'v fragment_message"
    by (simp add: truthful_def)
  note t = told_operations [THEN answer_truthful] and e = write_dev_proxy_error_def write_app_route_error_def
  have "truthful s (caddy_api env cad os req s)"
    by (cases req)
      (auto simp: handle_create_dev_proxy_expose_def handle_update_dev_proxy_expose_def Let_def
        handle_delete_dev_proxy_expose_def handle_reload_dev_proxy_def handle_create_app_route_def
        handle_update_app_route_def handle_delete_app_route_def handle_reload_app_routes_def e
        intro!: bad reload_truthful t split: option.splits simp del: apfst_conv)
  then show ?thesis using assms by (simp add: truthful_def)
qed

lemma web_name: "validate_name ''web'' = Inr ()"
  by code_simp

definition web_site :: site where
  "web_site = site_of [web_path \<mapsto> \<lparr>contents = ''x'', perm = 0x1A4\<rparr>]"

lemma remove_web:
  "caddy_api env cad quiet_os (RemoveExpose ''web'') web_site =
     (case adapt cad Map.empty of
        Some msg \<Rightarrow> (400, web_site\<lparr>files := Map.empty\<rparr>)
      | None \<Rightarrow> (case load_config cad Map.empty of
          Some msg \<Rightarrow> (500, web_site\<lparr>files := Map.empty\<rparr>)
        | None \<Rightarrow> (200, site_of Map.empty)))"
  by (auto simp: handle_delete_dev_proxy_expose_def delete_expose_def web_name delete_fragment_def web_path_eq
      web_site_def site_of_def stat_ok_def syscall_defs answer_with_def write_dev_proxy_error_def fragment_status_def
      reload_after_write_def reload_caddy_def Let_def split: option.splits)

theorem caddy_answers_witness:
  "caddy_api (\<lambda>_. []) accepting quiet_os (RemoveExpose ''web'') web_site = (200, site_of Map.empty) \<and>
    live (site_of Map.empty) = files (site_of Map.empty)"
proof -
  have run: "caddy_api (\<lambda>_. []) accepting quiet_os (RemoveExpose ''web'') web_site = (200, site_of Map.empty)"
    by (simp only: remove_web) simp
  from caddy_answers [OF this] run show ?thesis by simp
qed

text \<open>
  A delete after which the remaining Caddyfile is refused answers 400, the status of a bad request, although the
  fragment is gone; the running instance goes on serving it.
\<close>

lemma delete_refused_but_removed:
  "caddy_api (\<lambda>_. []) refusing quiet_os (RemoveExpose ''web'') web_site = (400, web_site\<lparr>files := Map.empty\<rparr>)"
  by (simp only: remove_web) simp

end
