(* ===== verification/Serve_Mux.thy ===== *)
theory Serve_Mux
  imports Go_URL Go_Filepath
begin

text \<open>
  Package \<open>net/http\<close>, as far as \<open>main.go\<close> uses it: \<open>ServeMux\<close> on patterns of a method and a path without
  a host, and \<open>CrossOriginProtection\<close> without exemptions.  A path is the escaped path of a request.
\<close>

section \<open>Patterns\<close>

text \<open>\<open>Multi\<close> is a last \<open>{name...}\<close>, and with an empty name the one a trailing slash stands for.\<close>

datatype seg = Lit string | Wild string | Multi string

definition parse_seg :: "string \<Rightarrow> seg" where
  "parse_seg s =
     (if has_prefix s ''{'' \<and> has_suffix s ''}'' then
        (let n = trim_suffix (tl s) ''}''
         in case cut_suffix n ''...'' of Some m \<Rightarrow> Multi m | None \<Rightarrow> Wild n)
      else Lit s)"

definition parse_path_pattern :: "string \<Rightarrow> seg list" where
  "parse_path_pattern path =
     (let ss = split_on CHR ''/'' (tl path)
      in if last ss = [] then map parse_seg (butlast ss) @ [Multi []] else map parse_seg ss)"

definition parse_pattern :: "string \<Rightarrow> string \<times> seg list" where
  "parse_pattern s =
     (case cut CHR '' '' s of
        None \<Rightarrow> ([], parse_path_pattern s)
      | Some (m, path) \<Rightarrow> (m, parse_path_pattern path))"

section \<open>Matching\<close>

text \<open>\<open>pathUnescape\<close> and \<open>firstSegment\<close>: a last slash alone is the segment \<open>/\<close>.\<close>

definition path_unescape :: "string \<Rightarrow> string" where
  "path_unescape s = (case unescape OtherPart s of None \<Rightarrow> s | Some t \<Rightarrow> t)"

definition first_segment :: "string \<Rightarrow> string \<times> string" where
  "first_segment path =
     (if path = ''/'' then (''/'', [])
      else (path_unescape (takeWhile (\<lambda>c. c \<noteq> CHR ''/'') (tl path)), dropWhile (\<lambda>c. c \<noteq> CHR ''/'') (tl path)))"

lemma first_segment_shorter [termination_simp]:
  "path \<noteq> [] \<Longrightarrow> (s, rest) = first_segment path \<Longrightarrow> length rest < length path"
proof -
  assume "path \<noteq> []" "(s, rest) = first_segment path"
  moreover have "length (dropWhile (\<lambda>c. c \<noteq> CHR ''/'') (tl path)) \<le> length (tl path)"
    by (rule length_dropWhile_le)
  ultimately show ?thesis by (cases path) (auto simp: first_segment_def split: if_splits)
qed

text \<open>The children of a node of the routing tree, as the remaining segments of the patterns below it.\<close>

definition lit_children :: "string \<Rightarrow> (seg list \<times> 'r) list \<Rightarrow> (seg list \<times> 'r) list" where
  "lit_children s es =
     concat (map (\<lambda>(p, r). case p of Lit s' # t \<Rightarrow> (if s' = s then [(t, r)] else []) | _ \<Rightarrow> []) es)"

definition wild_children :: "(seg list \<times> 'r) list \<Rightarrow> (seg list \<times> 'r) list" where
  "wild_children es = concat (map (\<lambda>(p, r). case p of Wild _ # t \<Rightarrow> [(t, r)] | _ \<Rightarrow> []) es)"

fun is_multi :: "seg list \<Rightarrow> bool" where
  "is_multi [Multi n] \<longleftrightarrow> True"
| "is_multi _ \<longleftrightarrow> False"

fun multi_values :: "seg list \<Rightarrow> string \<Rightarrow> string list" where
  "multi_values [Multi n] path = (if n = [] then [] else [path_unescape (tl path)])"
| "multi_values _ path = []"

text \<open>\<open>routingNode.matchPath\<close>: literal before single wildcard before multi wildcard, with backtracking.\<close>

function match_path :: "(seg list \<times> 'r) list \<Rightarrow> string \<Rightarrow> ('r \<times> string list) option" where
  "match_path es path =
     (if path = [] then map_option (\<lambda>e. (snd e, [])) (find (\<lambda>e. fst e = []) es)
      else let (s, rest) = first_segment path
        in case match_path (lit_children s es) rest of
             Some m \<Rightarrow> Some m
           | None \<Rightarrow>
               (case (if s \<noteq> ''/'' then match_path (wild_children es) rest else None) of
                  Some (r, vs) \<Rightarrow> Some (r, s # vs)
                | None \<Rightarrow> map_option (\<lambda>(p, r). (r, multi_values p path)) (find (\<lambda>e. is_multi (fst e)) es)))"
  by pat_completeness auto
termination
  by (relation "measure (\<lambda>(es, path). length path)") (auto simp: first_segment_shorter)

declare match_path.simps [simp del]

text \<open>\<open>matchMethodAndPath\<close>: a pattern of \<open>GET\<close> matches \<open>HEAD\<close> too.\<close>

type_synonym 'r entry = "(string \<times> seg list) \<times> 'r"

definition of_method :: "string \<Rightarrow> 'r entry list \<Rightarrow> (seg list \<times> 'r entry) list" where
  "of_method m table = map (\<lambda>e. (snd (fst e), e)) (filter (\<lambda>e. fst (fst e) = m) table)"

definition match_method_and_path :: "'r entry list \<Rightarrow> string \<Rightarrow> string \<Rightarrow> ('r entry \<times> string list) option" where
  "match_method_and_path table m path =
     (case match_path (of_method m table) path of
        Some x \<Rightarrow> Some x
      | None \<Rightarrow>
          (case (if m = ''HEAD'' then match_path (of_method ''GET'' table) path else None) of
             Some x \<Rightarrow> Some x
           | None \<Rightarrow> match_path (of_method [] table) path))"

text \<open>\<open>exactMatch\<close>: no multi wildcard of the pattern took a nonempty string.\<close>

definition exact_match :: "('r entry \<times> string list) option \<Rightarrow> string \<Rightarrow> bool" where
  "exact_match n path =
     (case n of
        None \<Rightarrow> False
      | Some (((_, p), _), _) \<Rightarrow>
          (case last p of
             Multi _ \<Rightarrow> has_suffix path ''/'' \<and> length p = length (filter (\<lambda>c. c = CHR ''/'') path)
           | _ \<Rightarrow> True))"

definition clean_path :: "string \<Rightarrow> string" where
  "clean_path p =
     (if p = [] then ''/''
      else let q = (if hd p = CHR ''/'' then p else CHR ''/'' # p); np = clean_abs q
        in if has_suffix q ''/'' \<and> np \<noteq> ''/'' then np @ ''/'' else np)"

text \<open>\<open>findHandler\<close>: a redirect of the mux, no route (404 or 405), or a pattern with its wildcard values.\<close>

datatype 'r mux_answer = MuxRedirect string | NoRoute | Routed "'r entry" "string list"

definition find_handler :: "'r entry list \<Rightarrow> string \<Rightarrow> string \<Rightarrow> 'r mux_answer" where
  "find_handler table m escaped =
     (let path = (if m = ''CONNECT'' then escaped else clean_path escaped);
          n = match_method_and_path table m path
      in if \<not> exact_match n path \<and> \<not> has_suffix path ''/'' \<and>
            exact_match (match_method_and_path table m (path @ ''/'')) (path @ ''/'')
         then MuxRedirect (path @ ''/'')
         else if path \<noteq> escaped then MuxRedirect path
         else case n of None \<Rightarrow> NoRoute | Some (e, vs) \<Rightarrow> Routed e vs)"

section \<open>One pattern against one path\<close>

fun pattern_values :: "seg list \<Rightarrow> string \<Rightarrow> string list option" where
  "pattern_values [] path = (if path = [] then Some [] else None)"
| "pattern_values (Lit a # p) path =
     (if path \<noteq> [] \<and> fst (first_segment path) = a then pattern_values p (snd (first_segment path)) else None)"
| "pattern_values (Wild _ # p) path =
     (if path \<noteq> [] \<and> fst (first_segment path) \<noteq> ''/''
      then map_option ((#) (fst (first_segment path))) (pattern_values p (snd (first_segment path))) else None)"
| "pattern_values (Multi n # p) path =
     (if p = [] \<and> path \<noteq> [] then Some (multi_values [Multi n] path) else None)"

lemma find_SomeD: "find P xs = Some x \<Longrightarrow> x \<in> set xs \<and> P x"
  by (induction xs) (auto split: if_splits)

lemma pattern_values_Nil: "pattern_values p [] = Some vs \<longleftrightarrow> p = [] \<and> vs = []"
proof (cases p)
  case (Cons a t)
  then show ?thesis by (cases a) simp_all
qed auto

lemma match_path_Nil: "match_path es [] = map_option (\<lambda>e. (snd e, [])) (find (\<lambda>e. fst e = []) es)"
  by (simp add: match_path.simps [of es "[]"])

lemma in_lit_children: "(p, r) \<in> set (lit_children s es) \<longleftrightarrow> (Lit s # p, r) \<in> set es"
  by (force simp: lit_children_def split: list.splits seg.splits if_splits prod.splits)

lemma in_wild_children: "(p, r) \<in> set (wild_children es) \<longleftrightarrow> (\<exists>n. (Wild n # p, r) \<in> set es)"
  by (force simp: wild_children_def split: list.splits seg.splits prod.splits)

lemma is_multi_iff: "is_multi p \<longleftrightarrow> (\<exists>n. p = [Multi n])"
  by (cases p rule: is_multi.cases) auto

lemma match_path_sound:
  "match_path es path = Some (r, vs) \<Longrightarrow> \<exists>p. (p, r) \<in> set es \<and> pattern_values p path = Some vs"
proof (induction es path arbitrary: r vs rule: match_path.induct)
  case (1 es path)
  show ?case
  proof (cases "path = []")
    case True
    then obtain e where "find (\<lambda>e. fst e = []) es = Some e" "r = snd e" "vs = []"
      using "1.prems" by (auto simp: match_path_Nil)
    then have "([], r) \<in> set es \<and> pattern_values [] path = Some vs"
      using find_SomeD [of "\<lambda>e. fst e = []" es e] True by (cases e) simp
    then show ?thesis by blast
  next
    case False
    obtain s rest where f: "first_segment path = (s, rest)" by fastforce
    note ih = "1.IH" [OF False f [symmetric] refl]
    show ?thesis
    proof (cases "match_path (lit_children s es) rest")
      case (Some m)
      then have "m = (r, vs)" using "1.prems" False f by (simp add: match_path.simps [of es path])
      then obtain p where "(p, r) \<in> set (lit_children s es)" "pattern_values p rest = Some vs"
        using ih(1) Some by blast
      then have "(Lit s # p, r) \<in> set es \<and> pattern_values (Lit s # p) path = Some vs"
        using False f by (simp add: in_lit_children)
      then show ?thesis by blast
    next
      case None
      show ?thesis
      proof (cases "if s \<noteq> ''/'' then match_path (wild_children es) rest else None")
        case N2: None
        then have "map_option (\<lambda>(p, r). (r, multi_values p path)) (find (\<lambda>e. is_multi (fst e)) es) = Some (r, vs)"
          using "1.prems" False f None by (simp add: match_path.simps [of es path])
        then obtain p where "(p, r) \<in> set es" "is_multi p" "vs = multi_values p path"
          using find_SomeD [of "\<lambda>e. is_multi (fst e)" es] by fastforce
        then show ?thesis using False by (auto simp: is_multi_iff)
      next
        case (Some m)
        then have s: "s \<noteq> ''/''" by (auto split: if_splits)
        obtain vs' where m: "match_path (wild_children es) rest = Some (r, vs')" "vs = s # vs'"
          using "1.prems" False f None Some s by (cases m) (auto simp: match_path.simps [of es path])
        then obtain p n where "(Wild n # p, r) \<in> set es" "pattern_values p rest = Some vs'"
          using ih(2) [OF None s] by (fastforce simp: in_wild_children)
        then have "(Wild n # p, r) \<in> set es \<and> pattern_values (Wild n # p) path = Some vs"
          using False f s m by simp
        then show ?thesis by blast
      qed
    qed
  qed
qed

lemma match_path_complete:
  "(p, r) \<in> set es \<Longrightarrow> pattern_values p path \<noteq> None \<Longrightarrow> match_path es path \<noteq> None"
proof (induction p arbitrary: es path)
  case Nil
  then have "path = []" "find (\<lambda>e. fst e = []) es \<noteq> None"
    by (auto simp: find_None_iff split: if_splits)
  then show ?case by (auto simp: match_path_Nil)
next
  case (Cons a p)
  obtain s rest where f: "first_segment path = (s, rest)" by fastforce
  show ?case
  proof (cases a)
    case (Lit x)
    then have "match_path (lit_children s es) rest \<noteq> None" "path \<noteq> []"
      using Cons f by (auto simp: in_lit_children split: if_splits)
    then show ?thesis using f by (auto simp: match_path.simps [of es path])
  next
    case (Wild n)
    then have "(p, r) \<in> set (wild_children es)" "pattern_values p rest \<noteq> None" "path \<noteq> []" "s \<noteq> ''/''"
      using Cons.prems f by (auto simp: in_wild_children split: if_splits)
    then have "match_path (wild_children es) rest \<noteq> None" "path \<noteq> []" "s \<noteq> ''/''"
      using Cons.IH by blast+
    then show ?thesis using f by (auto simp: match_path.simps [of es path] split: option.splits)
  next
    case (Multi n)
    then have "p = []" "path \<noteq> []" using Cons.prems by (auto split: if_splits)
    then have "find (\<lambda>e. is_multi (fst e)) es \<noteq> None"
      using Cons.prems(1) Multi by (auto simp: find_None_iff intro!: bexI [of _ "(a # p, r)"])
    then show ?thesis using f \<open>path \<noteq> []\<close> by (auto simp: match_path.simps [of es path] split: option.splits)
  qed
qed

text \<open>The catch-all \<open>/\<close> never takes a path from another pattern.\<close>

lemma children_no_multi:
  "lit_children s (filter (\<lambda>e. \<not> is_multi (fst e)) es) = lit_children s es"
  "wild_children (filter (\<lambda>e. \<not> is_multi (fst e)) es) = wild_children es"
  by (induction es) (auto simp: lit_children_def wild_children_def is_multi_iff)

lemma match_path_no_multi:
  assumes "match_path (filter (\<lambda>e. \<not> is_multi (fst e)) es) path = Some x" "path \<noteq> []"
  shows "match_path es path = Some x"
proof -
  let ?es = "filter (\<lambda>e. \<not> is_multi (fst e)) es"
  have "find (\<lambda>e. is_multi (fst e)) ?es = None" by (auto simp: find_None_iff)
  then show ?thesis
    using assms by (auto simp: match_path.simps [of es path] match_path.simps [of ?es path] children_no_multi
        split: option.splits prod.splits if_splits)
qed

fun overlap :: "seg list \<Rightarrow> seg list \<Rightarrow> bool" where
  "overlap [] [] \<longleftrightarrow> True"
| "overlap (Multi _ # _) (_ # _) \<longleftrightarrow> True"
| "overlap (_ # _) (Multi _ # _) \<longleftrightarrow> True"
| "overlap (Lit a # p) (Lit b # q) \<longleftrightarrow> (if a = b then overlap p q else False)"
| "overlap (_ # p) (_ # q) \<longleftrightarrow> overlap p q"
| "overlap _ _ \<longleftrightarrow> False"

lemma overlap_if:
  "pattern_values p path = Some vs \<Longrightarrow> pattern_values q path = Some us \<Longrightarrow> overlap p q"
  by (induction p q arbitrary: path vs us rule: overlap.induct)
    (auto simp: pattern_values_Nil split: if_splits)

section \<open>The path of a pattern and its values\<close>

fun path_of :: "seg list \<Rightarrow> string list \<Rightarrow> string" where
  "path_of (Lit a # p) vs = CHR ''/'' # a @ path_of p vs"
| "path_of (Wild _ # p) (v # vs) = CHR ''/'' # path_escape v @ path_of p vs"
| "path_of _ _ = []"

fun path_parts :: "seg list \<Rightarrow> string list \<Rightarrow> string list" where
  "path_parts (Lit a # p) vs = a # path_parts p vs"
| "path_parts (Wild _ # p) (v # vs) = path_escape v # path_parts p vs"
| "path_parts _ _ = []"

fun wild_count :: "seg list \<Rightarrow> nat" where
  "wild_count [] = 0"
| "wild_count (Wild _ # p) = Suc (wild_count p)"
| "wild_count (_ # p) = wild_count p"

text \<open>A literal a cleaned path can carry as it is, and a value it can carry escaped.\<close>

definition plain_part :: "string \<Rightarrow> bool" where
  "plain_part a \<longleftrightarrow> a \<noteq> [] \<and> a \<noteq> ''.'' \<and> a \<noteq> ''..'' \<and> CHR ''/'' \<notin> set a \<and> CHR ''%'' \<notin> set a"

fun plain_pattern :: "seg list \<Rightarrow> bool" where
  "plain_pattern [] \<longleftrightarrow> True"
| "plain_pattern (Lit a # p) \<longleftrightarrow> plain_part a \<and> plain_pattern p"
| "plain_pattern (Wild _ # p) \<longleftrightarrow> plain_pattern p"
| "plain_pattern (Multi _ # p) \<longleftrightarrow> False"

definition segment_value :: "string \<Rightarrow> bool" where
  "segment_value v \<longleftrightarrow> v \<notin> set [[], ''/'', ''.'', ''..'']"

lemma hex_digits: "n < 16 \<Longrightarrow> hex_val (hex_upper n) = Some (int n) \<and> hex_upper n \<noteq> CHR ''/''"
proof -
  have "\<forall>n \<in> set [0..<16]. hex_val (hex_upper n) = Some (int n) \<and> hex_upper n \<noteq> CHR ''/''" by code_simp
  then show "n < 16 \<Longrightarrow> ?thesis" by auto
qed

lemma unescape_percent: "unescape OtherPart (percent c @ s) = map_option ((#) c) (unescape OtherPart s)"
proof -
  have c: "code c < 256" by (simp add: code_def)
  then have "hex_val (hex_upper (code c div 16)) = Some (int (code c div 16))"
    "hex_val (hex_upper (code c mod 16)) = Some (int (code c mod 16))"
    using hex_digits by (simp_all add: less_mult_imp_div_less)
  moreover have "nat (16 * int (code c div 16) + int (code c mod 16)) = code c"
    by (metis mult_div_mod_eq nat_int of_nat_add of_nat_mult of_nat_numeral)
  moreover have "char_of (code c) = c" by (simp add: code_def)
  ultimately show ?thesis by (simp add: percent_def Let_def)
qed

lemma unescape_path_escape: "unescape OtherPart (path_escape v) = Some v"
proof (induction v)
  case (Cons c v)
  have "unescape OtherPart (path_escape (c # v)) = map_option ((#) c) (unescape OtherPart (path_escape v))"
  proof (cases "url_unreserved c \<or> c \<in> set ''$&+:=@''")
    case True
    then have "c \<noteq> CHR ''%''" by (auto simp: url_unreserved_def char_class_defs code_def)
    then show ?thesis using True by (simp add: path_escape_def)
  qed (simp add: path_escape_def unescape_percent)
  then show ?case using Cons by simp
qed (simp add: path_escape_def)

lemma path_unescape_escape [simp]: "path_unescape (path_escape v) = v"
  by (simp add: path_unescape_def unescape_path_escape)

lemma path_escape_no_slash: "CHR ''/'' \<notin> set (path_escape v)"
proof
  assume "CHR ''/'' \<in> set (path_escape v)"
  then obtain c where "CHR ''/'' \<in> set (percent c) \<or> c = CHR ''/'' \<and> url_unreserved c"
    by (auto simp: path_escape_def split: if_splits)
  moreover have "code c div 16 < 16" "code c mod 16 < 16" by (simp_all add: code_def less_mult_imp_div_less)
  then have "CHR ''/'' \<notin> set (percent c)"
    using hex_digits [of "code c div 16"] hex_digits [of "code c mod 16"] by (auto simp: percent_def)
  ultimately show False by (auto simp: url_unreserved_def char_class_defs code_def)
qed

lemma path_escape_parts:
  assumes "segment_value v"
  shows "path_escape v \<noteq> []" "path_escape v \<noteq> ''.''" "path_escape v \<noteq> ''..''"
proof -
  have u: "path_unescape [] = []" "path_unescape ''.'' = ''.''" "path_unescape ''..'' = ''..''" by code_simp+
  have e: "path_unescape (path_escape v) = v" by simp
  show "path_escape v \<noteq> []" "path_escape v \<noteq> ''.''" "path_escape v \<noteq> ''..''"
    using assms e u by (auto simp: segment_value_def simp del: path_unescape_escape)
qed

lemma first_segment_part:
  assumes "a \<noteq> []" "CHR ''/'' \<notin> set a" "t = [] \<or> hd t = CHR ''/''"
  shows "first_segment (CHR ''/'' # a @ t) = (path_unescape a, t)"
proof -
  have "takeWhile (\<lambda>c. c \<noteq> CHR ''/'') (a @ t) = a" "dropWhile (\<lambda>c. c \<noteq> CHR ''/'') (a @ t) = t"
    using assms(2,3) by (induction a) (cases t; auto)+
  then show ?thesis using assms(1) by (simp add: first_segment_def)
qed

lemma path_of_head: "path_of p vs = [] \<or> hd (path_of p vs) = CHR ''/''"
  by (cases "(p, vs)" rule: path_of.cases) auto

lemma path_unescape_plain: "plain_part a \<Longrightarrow> path_unescape a = a"
proof -
  assume "plain_part a"
  then have "unescape OtherPart a = Some a" by (intro unescape_plain) (auto simp: plain_part_def)
  then show ?thesis by (simp add: path_unescape_def)
qed

lemma pattern_values_path_of:
  "plain_pattern p \<Longrightarrow> length vs = wild_count p \<Longrightarrow> list_all segment_value vs \<Longrightarrow>
   pattern_values p (path_of p vs) = Some vs"
proof (induction p vs rule: path_of.induct)
  case (1 a p vs)
  then have "first_segment (CHR ''/'' # a @ path_of p vs) = (a, path_of p vs)"
    using first_segment_part [OF _ _ path_of_head] path_unescape_plain by (auto simp: plain_part_def)
  then show ?case using 1 by simp
next
  case (2 n p v vs)
  then have "first_segment (CHR ''/'' # path_escape v @ path_of p vs) = (v, path_of p vs)"
    using first_segment_part [OF path_escape_parts(1) path_escape_no_slash path_of_head] by simp
  then show ?case using 2 by (auto simp: segment_value_def)
qed simp_all

lemma path_of_parts: "path_of p vs = concat (map ((#) CHR ''/'') (path_parts p vs))"
  by (induction p vs rule: path_of.induct) simp_all

lemma concat_join: "ps \<noteq> [] \<Longrightarrow> concat (map ((#) CHR ''/'') ps) = CHR ''/'' # join ''/'' ps"
  by (induction "''/''" ps rule: join.induct) auto

lemma path_parts_plain:
  "plain_pattern p \<Longrightarrow> list_all segment_value vs \<Longrightarrow> x \<in> set (path_parts p vs) \<Longrightarrow>
   x \<noteq> [] \<and> x \<noteq> ''.'' \<and> x \<noteq> ''..'' \<and> CHR ''/'' \<notin> set x"
  using path_escape_parts path_escape_no_slash
  by (induction p vs rule: path_of.induct) (auto simp: plain_part_def)

lemma clean_path_path_of:
  assumes "plain_pattern p" "list_all segment_value vs" "path_parts p vs \<noteq> []"
  shows "clean_path (path_of p vs) = path_of p vs" "path_of p vs \<noteq> []" "\<not> has_suffix (path_of p vs) ''/''"
proof -
  let ?ps = "path_parts p vs"
  have eq: "path_of p vs = CHR ''/'' # join ''/'' ?ps" using assms(3) by (simp add: path_of_parts concat_join)
  have pl: "x \<noteq> [] \<and> x \<noteq> ''.'' \<and> x \<noteq> ''..'' \<and> CHR ''/'' \<notin> set x" if "x \<in> set ?ps" for x
    using path_parts_plain [OF assms(1,2) that] .
  have sp: "split_on CHR ''/'' (join ''/'' ?ps) = ?ps"
    by (rule split_on_join) (use pl assms(3) in auto)
  then have "split_on CHR ''/'' (path_of p vs) = [] # ?ps" by (simp add: eq)
  moreover have "clean_parts [] ?ps = ?ps" using clean_parts_plain [of ?ps "[]"] pl by simp
  ultimately have c: "clean_abs (path_of p vs) = path_of p vs" by (simp add: clean_abs_def eq)
  show ne: "path_of p vs \<noteq> []" by (simp add: eq)
  obtain qs x where ps: "?ps = qs @ [x]" using assms(3) by (metis rev_exhaust)
  have "x \<noteq> [] \<and> CHR ''/'' \<notin> set x" using pl [of x] by (simp add: ps)
  moreover have "path_of p vs = concat (map ((#) CHR ''/'') qs) @ CHR ''/'' # x"
    by (simp add: path_of_parts ps)
  ultimately have "last (path_of p vs) = last x" "last x \<noteq> CHR ''/''" by (auto simp: last_in_set) (metis last_in_set)
  then show s: "\<not> has_suffix (path_of p vs) ''/''" using ne by (auto simp: has_suffix_iff)
  show "clean_path (path_of p vs) = path_of p vs"
    using c ne s by (simp add: clean_path_def Let_def eq)
qed

text \<open>
  A pattern of literals and single wildcards that overlaps no other one of its method, the catch-all apart,
  takes every path made from it, and hands on the values.
\<close>

definition alone_in :: "'r entry list \<Rightarrow> 'r entry \<Rightarrow> bool" where
  "alone_in table e \<longleftrightarrow>
     (\<forall>e' \<in> set table. fst (fst e') = fst (fst e) \<and> e' \<noteq> e \<longrightarrow>
        is_multi (snd (fst e')) \<or> \<not> overlap (snd (fst e)) (snd (fst e')))"

lemma overlap_Multi [simp]: "overlap (a # p) (Multi n # q)"
  by (cases a) simp_all

lemma overlap_sym: "overlap p q \<Longrightarrow> overlap q p"
  by (induction p q rule: overlap.induct) (auto split: if_splits)

fun no_overlap :: "(seg list \<times> 'r entry) list \<Rightarrow> bool" where
  "no_overlap [] \<longleftrightarrow> True"
| "no_overlap (e # es) \<longleftrightarrow> (if list_all (\<lambda>e'. \<not> overlap (fst e) (fst e')) es then no_overlap es else False)"

lemma no_overlapD:
  "no_overlap es \<Longrightarrow> e \<in> set es \<Longrightarrow> e' \<in> set es \<Longrightarrow> e' \<noteq> e \<Longrightarrow> \<not> overlap (fst e) (fst e')"
  by (induction es) (auto simp: list_all_iff dest: overlap_sym split: if_splits)

lemma alone_in_if:
  assumes "no_overlap (filter (\<lambda>e. \<not> is_multi (fst e)) (of_method m table))"
    and "e \<in> set table" "fst (fst e) = m" "\<not> is_multi (snd (fst e))"
  shows "alone_in table e"
proof -
  let ?es = "filter (\<lambda>e. \<not> is_multi (fst e)) (of_method m table)"
  have "\<not> overlap (snd (fst e)) (snd (fst e'))"
    if "e' \<in> set table" "fst (fst e') = m" "e' \<noteq> e" "\<not> is_multi (snd (fst e'))" for e'
  proof -
    have "(snd (fst e), e) \<in> set ?es" "(snd (fst e'), e') \<in> set ?es"
      using assms(2-4) that by (force simp: of_method_def)+
    from no_overlapD [OF assms(1) this] that(3) show ?thesis by simp
  qed
  then show ?thesis using assms(3) by (auto simp: alone_in_def)
qed

lemma plain_not_multi: "plain_pattern p \<Longrightarrow> \<not> is_multi p"
  by (auto simp: is_multi_iff)

lemma plain_exact:
  assumes "plain_pattern p" "p \<noteq> []"
  shows "exact_match (Some (((m, p), r), vs)) path"
proof -
  have "last p \<noteq> Multi n" for n using assms by (induction p rule: plain_pattern.induct) (auto split: if_splits)
  then show ?thesis by (auto simp: exact_match_def split: seg.splits)
qed

lemma match_path_alone:
  assumes e: "((m, p), r) \<in> set table" "alone_in table ((m, p), r)" "plain_pattern p"
    and v: "pattern_values p path = Some vs" "path \<noteq> []"
  shows "match_path (of_method m table) path = Some (((m, p), r), vs)"
proof -
  let ?es = "filter (\<lambda>e. \<not> is_multi (fst e)) (of_method m table)"
  have "(p, (m, p), r) \<in> set ?es" using e(1) plain_not_multi [OF e(3)] by (force simp: of_method_def)
  then have "match_path ?es path \<noteq> None" by (rule match_path_complete) (simp add: v(1))
  then obtain e' us where m: "match_path ?es path = Some (e', us)" by fastforce
  then obtain q where q: "(q, e') \<in> set ?es" "pattern_values q path = Some us"
    using match_path_sound [OF m] by blast
  then have "e' \<in> set table" "fst (fst e') = m" "snd (fst e') = q" "\<not> is_multi q" "overlap p q"
    using overlap_if [OF v(1)] by (auto simp: of_method_def)
  then have "e' = ((m, p), r)" using e(2) by (auto simp: alone_in_def)
  moreover from this have "us = vs" using q v(1) \<open>snd (fst e') = q\<close> by simp
  ultimately show ?thesis using match_path_no_multi [OF m v(2)] by simp
qed

lemma find_handler_path_of:
  assumes e: "((m, p), r) \<in> set table" "alone_in table ((m, p), r)" "plain_pattern p" "path_parts p vs \<noteq> []"
    and vs: "length vs = wild_count p" "list_all segment_value vs"
  shows "find_handler table m (path_of p vs) = Routed ((m, p), r) vs"
proof -
  note c = clean_path_path_of [OF e(3) vs(2) e(4)]
  have "p \<noteq> []" using e(4) by auto
  then have x: "exact_match (Some (((m, p), r), vs)) (path_of p vs)" by (rule plain_exact [OF e(3)])
  have "match_method_and_path table m (path_of p vs) = Some (((m, p), r), vs)"
    using match_path_alone [OF e(1-3) pattern_values_path_of [OF e(3) vs] c(2)]
    by (simp add: match_method_and_path_def)
  moreover have "(if m = ''CONNECT'' then path_of p vs else clean_path (path_of p vs)) = path_of p vs"
    by (simp add: c(1))
  ultimately show ?thesis by (simp only: find_handler_def Let_def) (simp add: x)
qed

text \<open>What a routed request went to is a pattern of the table for its method, or for \<open>GET\<close> if it is \<open>HEAD\<close>.\<close>

lemma find_handler_sound:
  assumes "find_handler table m path = Routed e vs"
  shows "e \<in> set table \<and> fst (fst e) \<in> set [m, [], if m = ''HEAD'' then ''GET'' else m] \<and>
    pattern_values (snd (fst e)) path = Some vs"
proof -
  have "match_method_and_path table m path = Some (e, vs)"
    using assms by (auto simp: find_handler_def Let_def split: if_splits option.splits)
  then obtain m' where "match_path (of_method m' table) path = Some (e, vs)"
    and m: "m' \<in> set [m, [], if m = ''HEAD'' then ''GET'' else m]"
    by (auto simp: match_method_and_path_def split: option.splits if_splits)
  from match_path_sound [OF this(1)] m show ?thesis by (auto simp: of_method_def)
qed

section \<open>Cross-origin requests\<close>

record http_request =
  req_method :: string
  req_host :: string
  req_path :: string
  sec_fetch_site :: string
  origin_header :: string
  unlock_value :: "string option"

definition safe_method :: "string \<Rightarrow> bool" where
  "safe_method m \<longleftrightarrow> m \<in> set [''GET'', ''HEAD'', ''OPTIONS'']"

definition cross_origin_ok :: "http_request \<Rightarrow> bool" where
  "cross_origin_ok r =
     (if safe_method (req_method r) then True
      else if sec_fetch_site r \<in> set [''same-origin'', ''none''] then True
      else if sec_fetch_site r \<noteq> [] then False
      else if origin_header r = [] then True
      else case url_parse (origin_header r) of
             Some (_, host) \<Rightarrow> host = req_host r
           | None \<Rightarrow> False)"

end
