(* ===== verification/Password_Hash.thy ===== *)
theory Password_Hash
  imports Go_Base64 Go_Strconv Config_Store
begin

text \<open>
  \<open>internal/authgate/password.go\<close>, \<open>store.go\<close> and \<open>etcenv.go\<close>: the textual argon2id format, its
  verification, the file that holds it, and the check of \<open>/etc/environment\<close>.  \<open>argon2.IDKey\<close> is the
  parameter \<open>idkey\<close> (password, salt, time, memory, threads, key length), \<open>None\<close> where it panics; the
  random salt and whether every verification slot stayed taken are arguments.
\<close>

type_synonym kdf = "string \<Rightarrow> string \<Rightarrow> nat \<Rightarrow> nat \<Rightarrow> nat \<Rightarrow> nat \<Rightarrow> string option"

datatype password_error =
    ErrInvalidHash
  | ErrIncompatibleVersion
  | ErrBusy
  | SaltFailed
  | KeyPanic

definition argon_version :: int where "argon_version = 19"
definition argon_memory_kib :: nat where "argon_memory_kib = 65536"
definition argon_time :: nat where "argon_time = 3"
definition argon_parallelism :: nat where "argon_parallelism = 2"
definition argon_key_len :: nat where "argon_key_len = 32"

section \<open>fmt.Sscanf\<close>

text \<open>The blanks before a number; a line break is an error of \<open>Sscanf\<close>.\<close>

fun skip_blanks :: "string \<Rightarrow> string option" where
  "skip_blanks [] = Some []"
| "skip_blanks (c # cs) =
     (if c = NL then None else if is_space c then skip_blanks cs else Some (c # cs))"

definition scan_lit :: "string \<Rightarrow> string \<Rightarrow> string option" where
  "scan_lit lit s = (if has_prefix s lit then Some (drop (length lit) s) else None)"

definition scan_int :: "string \<Rightarrow> (int \<times> string) option" where
  "scan_int s =
     (case skip_blanks s of
        None \<Rightarrow> None
      | Some t \<Rightarrow>
          let (sg, u) = (if t \<noteq> [] \<and> (hd t = CHR ''+'' \<or> hd t = CHR ''-'') then ([hd t], tl t) else ([], t));
              ds = takeWhile is_digit u
          in if ds = [] then None
             else case parse_int (sg @ ds) of None \<Rightarrow> None | Some i \<Rightarrow> Some (i, dropWhile is_digit u))"

definition scan_uint :: "nat \<Rightarrow> string \<Rightarrow> (nat \<times> string) option" where
  "scan_uint bits s =
     (case skip_blanks s of
        None \<Rightarrow> None
      | Some t \<Rightarrow>
          (case parse_digits (takeWhile is_digit t) of
             None \<Rightarrow> None
           | Some i \<Rightarrow> if i < 2 ^ bits then Some (nat i, dropWhile is_digit t) else None))"

text \<open>\<open>fmt.Sscanf(s, "v=%d", &version)\<close>\<close>

definition scan_version :: "string \<Rightarrow> int option" where
  "scan_version s =
     (case scan_lit ''v='' s of None \<Rightarrow> None | Some t \<Rightarrow> map_option fst (scan_int t))"

text \<open>\<open>fmt.Sscanf(s, "m=%d,t=%d,p=%d", &memory, &iterations, &parallelism)\<close>\<close>

definition scan_params :: "string \<Rightarrow> (nat \<times> nat \<times> nat) option" where
  "scan_params s =
     (case scan_lit ''m='' s of None \<Rightarrow> None | Some s1 \<Rightarrow>
     (case scan_uint 32 s1 of None \<Rightarrow> None | Some (m, s2) \<Rightarrow>
     (case scan_lit '',t='' s2 of None \<Rightarrow> None | Some s3 \<Rightarrow>
     (case scan_uint 32 s3 of None \<Rightarrow> None | Some (t, s4) \<Rightarrow>
     (case scan_lit '',p='' s4 of None \<Rightarrow> None | Some s5 \<Rightarrow>
     (case scan_uint 8 s5 of None \<Rightarrow> None | Some (p, _) \<Rightarrow> Some (m, t, p)))))))"

section \<open>Hashing and verifying\<close>

definition hash_password :: "kdf \<Rightarrow> string option \<Rightarrow> string \<Rightarrow> password_error + string" where
  "hash_password idkey random_salt plaintext =
     (case random_salt of
        None \<Rightarrow> Inl SaltFailed
      | Some salt \<Rightarrow>
          (case idkey plaintext salt argon_time argon_memory_kib argon_parallelism argon_key_len of
             None \<Rightarrow> Inl KeyPanic
           | Some key \<Rightarrow>
               Inr (''$argon2id$v='' @ itoa argon_version @ ''$m='' @ itoa (int argon_memory_kib) @
                    '',t='' @ itoa (int argon_time) @ '',p='' @ itoa (int argon_parallelism) @ ''$'' @
                    b64_encode StdAlphabet salt @ ''$'' @ b64_encode StdAlphabet key)))"

definition verify_password :: "kdf \<Rightarrow> bool \<Rightarrow> string \<Rightarrow> string \<Rightarrow> password_error + bool" where
  "verify_password idkey busy plaintext encoded =
     (case split_on CHR ''$'' encoded of
        [p0, p1, p2, p3, p4, p5] \<Rightarrow>
          if p0 \<noteq> [] \<or> p1 \<noteq> ''argon2id'' then Inl ErrInvalidHash
          else (case scan_version p2 of
             None \<Rightarrow> Inl ErrInvalidHash
           | Some version \<Rightarrow>
               if version \<noteq> argon_version then Inl ErrIncompatibleVersion
               else (case scan_params p3 of
                  None \<Rightarrow> Inl ErrInvalidHash
                | Some (memory, iterations, parallelism) \<Rightarrow>
                    (case b64_decode StdAlphabet p4 of
                       None \<Rightarrow> Inl ErrInvalidHash
                     | Some salt \<Rightarrow>
                         (case b64_decode StdAlphabet p5 of
                            None \<Rightarrow> Inl ErrInvalidHash
                          | Some hash \<Rightarrow>
                              if busy then Inl ErrBusy
                              else (case idkey plaintext salt iterations memory parallelism (length hash) of
                                 None \<Rightarrow> Inl KeyPanic
                               | Some computed \<Rightarrow> Inr (hash = computed))))))
      | _ \<Rightarrow> Inl ErrInvalidHash)"

section \<open>The stored hash\<close>

type_synonym 'b hash_codec = "(string, 'b) codec"

definition read_stored_hash :: "'b hash_codec \<Rightarrow> 'b os \<Rightarrow> 'b fs \<Rightarrow> string \<Rightarrow> store_error + string" where
  "read_stored_hash cd os fs path =
     (case read_file os fs path of
        NoSuchFile \<Rightarrow> Inr []
      | ReadFailed e \<Rightarrow> Inl (StoreIO e)
      | ReadOK data \<Rightarrow> (case unmarshal cd data of None \<Rightarrow> Inl Corrupt | Some h \<Rightarrow> Inr h))"

definition write_stored_hash ::
    "'b hash_codec \<Rightarrow> 'b os \<Rightarrow> string \<Rightarrow> string \<Rightarrow> 'b fs \<Rightarrow> (store_error + unit) \<times> 'b fs" where
  "write_stored_hash cd os path hash fs =
     (case mkdir_all os (path_dir path) fs of
        (Inl e, fs1) \<Rightarrow> (Inl (StoreIO e), fs1)
      | (Inr _, fs1) \<Rightarrow>
          (case marshal cd hash of
             None \<Rightarrow> (Inl MarshalFailed, fs1)
           | Some data \<Rightarrow>
               apfst (map_error StoreIO)
                 (run_acts [write_file os (tmp_path path) data 0x180, rename os (tmp_path path) path] fs1)))"

section \<open>/etc/environment\<close>

definition drop_cr :: "string \<Rightarrow> string" where
  "drop_cr l = (if l \<noteq> [] \<and> last l = CHR 0x0D then butlast l else l)"

text \<open>
  The lines \<open>bufio.Scanner\<close> yields: it stops at a line that, with its line break, does not fit the
  64 KiB buffer.
\<close>

definition scan_lines :: "string \<Rightarrow> string list" where
  "scan_lines s = map drop_cr (takeWhile (\<lambda>l. length l < 65536) (split_on NL s))"

definition etc_environment_defines :: "string option \<Rightarrow> string \<Rightarrow> bool" where
  "etc_environment_defines env_text var =
     (case env_text of
        None \<Rightarrow> False
      | Some s \<Rightarrow> list_ex (\<lambda>l. has_prefix (trim_space l) (var @ ''='')) (scan_lines s))"

section \<open>Round trip\<close>

lemma takeWhile_dec_int: "0 \<le> n \<Longrightarrow> \<not> is_digit c \<Longrightarrow> takeWhile is_digit (dec_int n @ c # r) = dec_int n"
  by (subst takeWhile_append2) (auto dest: dec_int_digits)

lemma dropWhile_dec_int: "0 \<le> n \<Longrightarrow> \<not> is_digit c \<Longrightarrow> dropWhile is_digit (dec_int n @ c # r) = c # r"
  by (subst dropWhile_append2) (auto dest: dec_int_digits)

lemma verify_parts:
  assumes "CHR ''$'' \<notin> set p3" "CHR ''$'' \<notin> set p4" "CHR ''$'' \<notin> set p5"
  shows "split_on CHR ''$'' (''$argon2id$v=19$'' @ p3 @ ''$'' @ p4 @ ''$'' @ p5) =
    [[], ''argon2id'', ''v=19'', p3, p4, p5]"
  using assms by (simp add: split_on_append split_on_single)

lemma itoa_params:
  "itoa argon_version = ''19''" "itoa (int argon_memory_kib) = ''65536''"
  "itoa (int argon_time) = ''3''" "itoa (int argon_parallelism) = ''2''"
proof -
  have "itoa 19 = ''19''" "itoa 65536 = ''65536''" "itoa 3 = ''3''" "itoa 2 = ''2''" by code_simp+
  then show "itoa argon_version = ''19''" "itoa (int argon_memory_kib) = ''65536''"
    "itoa (int argon_time) = ''3''" "itoa (int argon_parallelism) = ''2''"
    by (simp_all add: argon_version_def argon_memory_kib_def argon_time_def argon_parallelism_def)
qed

lemma scan_version_19: "scan_version ''v=19'' = Some 19"
  by code_simp

lemma scan_params_default: "scan_params ''m=65536,t=3,p=2'' = Some (65536, 3, 2)"
proof -
  have "scan_lit ''m='' ''m=65536,t=3,p=2'' = Some ''65536,t=3,p=2''"
    "scan_lit '',t='' '',t=3,p=2'' = Some ''3,p=2''" "scan_lit '',p='' '',p=2'' = Some ''2''"
    by code_simp+
  moreover have "skip_blanks ''65536,t=3,p=2'' = Some ''65536,t=3,p=2''"
    "skip_blanks ''3,p=2'' = Some ''3,p=2''" "skip_blanks ''2'' = Some ''2''" by code_simp+
  moreover have "takeWhile is_digit ''65536,t=3,p=2'' = ''65536''" "takeWhile is_digit ''3,p=2'' = ''3''"
    "takeWhile is_digit ''2'' = ''2''" "dropWhile is_digit ''65536,t=3,p=2'' = '',t=3,p=2''"
    "dropWhile is_digit ''3,p=2'' = '',p=2''" by code_simp+
  moreover have "parse_digits ''65536'' = Some 65536" "parse_digits ''3'' = Some 3"
    "parse_digits ''2'' = Some 2" by code_simp+
  ultimately show ?thesis by (simp add: scan_params_def scan_uint_def)
qed

lemma dollar_not_in: "CHR ''$'' \<notin> set (b64_encode StdAlphabet s)"
  by (rule b64_encode_not_in) (simp_all add: char_class_defs code_def)

lemma verify_hash:
  assumes "hash_password idkey (Some salt) p = Inr h"
  obtains key where "idkey p salt 3 65536 2 32 = Some key"
    and "verify_password idkey busy q h =
      (if busy then Inl ErrBusy
       else case idkey q salt 3 65536 2 (length key) of
         None \<Rightarrow> Inl KeyPanic | Some computed \<Rightarrow> Inr (key = computed))"
proof -
  obtain key where key: "idkey p salt 3 65536 2 32 = Some key"
    and h: "h = ''$argon2id$v=19$'' @ ''m=65536,t=3,p=2'' @ ''$'' @ b64_encode StdAlphabet salt @ ''$'' @
        b64_encode StdAlphabet key"
    using assms unfolding hash_password_def itoa_params
    by (auto simp: argon_memory_kib_def argon_time_def argon_parallelism_def argon_key_len_def
        split: option.splits)
  have "split_on CHR ''$'' h =
     [[], ''argon2id'', ''v=19'', ''m=65536,t=3,p=2'', b64_encode StdAlphabet salt, b64_encode StdAlphabet key]"
    unfolding h by (rule verify_parts) (simp_all add: dollar_not_in)
  then show thesis
    using that [OF key]
    by (simp add: verify_password_def scan_version_19 scan_params_default argon_version_def b64_decode_encode)
qed

section \<open>What the file holds\<close>

lemma write_stored_hash_ok:
  assumes "write_stored_hash cd os path hash fs = (Inr u, fs')"
  shows "\<exists>b. marshal cd hash = Some b \<and>
    fs' = fs(tmp_path path := None,
             path \<mapsto> \<lparr>contents = b, perm = file_mode os fs (tmp_path path) 0x180\<rparr>)"
proof -
  obtain fs1 b where m: "mkdir_all os (path_dir path) fs = (Inr (), fs1)" and b: "marshal cd hash = Some b"
    and r: "run_acts [write_file os (tmp_path path) b 0x180, rename os (tmp_path path) path] fs1 = (Inr (), fs')"
    using assms by (auto simp: write_stored_hash_def res_simps split: prod.splits sum.splits option.splits)
  from m r have "credential_write os path b 0x180 fs = (Inr (), fs')"
    by (simp add: credential_write_def credential_write_acts_def)
  from credential_write_ok [OF this] b show ?thesis by blast
qed

lemma write_stored_hash_err:
  assumes "write_stored_hash cd os path hash fs = (Inl e, fs')" and q: "q \<noteq> tmp_path path"
  shows "fs' q = fs q"
  using assms unfolding write_stored_hash_def
  by (auto simp: run_acts_iffs res_simps dest!: mkdir_all_cases rename_err
      dest: write_file_frame [OF _ q] split: prod.splits sum.splits option.splits)

text \<open>The hash a file system holds, read without a fault.\<close>

definition hash_at :: "'b hash_codec \<Rightarrow> string \<Rightarrow> 'b fs \<Rightarrow> string option" where
  "hash_at cd path fs = stored_doc cd [] path fs"

lemma read_stored_hash_at: "read_stored_hash cd os fs path = Inr h \<Longrightarrow> hash_at cd path fs = Some h"
  by (auto simp: read_stored_hash_def read_file_def hash_at_def stored_doc_def split: option.splits if_splits)

end
