(* ===== verification/Auth_Gate.thy ===== *)
theory Auth_Gate
  imports Password_Hash Key_Lock
begin

text \<open>
  \<open>internal/authgate/gate.go\<close>.  The state of a \<open>Gate\<close> is a record; \<open>secret\<close> appears only through the
  keyed hash \<open>mac\<close>.  A time is the number of nanoseconds since 1970, read from the clock by the caller,
  so every operation takes the readings it makes, in order.  The operations on one key exclude each
  other (\<open>Key_Lock\<close>) and the maps are behind mutexes, so each operation is one transition.
\<close>

type_synonym time = int

definition second :: time where "second = 1000000000"
definition max_failures_before_lockout :: nat where "max_failures_before_lockout = 5"
definition lockout_base :: time where "lockout_base = 5 * second"
definition lockout_max :: time where "lockout_max = 300 * second"
definition session_ttl :: time where "session_ttl = 900 * second"
definition max_session_lifetime :: time where "max_session_lifetime = 43200 * second"
definition refresh_threshold :: time where "refresh_threshold = session_ttl div 2"

text \<open>\<open>time.Time{}\<close>, the first of January of year 1.\<close>

definition zero_time :: time where "zero_time = - 62135596800 * second"

definition unix :: "time \<Rightarrow> int" where "unix t = t div second"
definition of_unix :: "int \<Rightarrow> time" where "of_unix s = s * second"

lemmas time_defs =
  second_def lockout_base_def lockout_max_def session_ttl_def max_session_lifetime_def
  refresh_threshold_def zero_time_def unix_def of_unix_def

section \<open>State\<close>

datatype auth_error =
    ErrAlreadyConfigured
  | ErrNotConfigured
  | ErrEnvPinned
  | ErrWrongPassword
  | ErrBadSetupToken
  | ErrRateLimited time
  | NoStorePath
  | PasswordFailed password_error
  | AuthStore store_error

text \<open>\<open>errors.Is(err, ErrRateLimited)\<close>: \<open>ErrBusy\<close> wraps it.\<close>

definition is_rate_limited :: "auth_error \<Rightarrow> bool" where
  "is_rate_limited e = (case e of ErrRateLimited _ \<Rightarrow> True | PasswordFailed ErrBusy \<Rightarrow> True | _ \<Rightarrow> False)"

record attempt_state =
  failures :: nat
  locked_until :: time

record gate =
  env_hash :: string
  store_path :: string
  attempts :: "string \<Rightarrow> attempt_state option"
  setup_token :: string
  token_announced :: bool

text \<open>What the gate calls and does not define: the key derivation, the JSON of the store, the system.\<close>

record 'b gate_ext =
  kdf_fn :: kdf
  hash_codec :: "'b hash_codec"
  gate_os :: "'b os"

text \<open>\<open>newSetupToken\<close> on its 16 random bytes, and \<open>New\<close>.\<close>

definition new_setup_token :: "string \<Rightarrow> string" where
  "new_setup_token random = hex_encode random"

definition new_gate :: "string \<Rightarrow> string \<Rightarrow> string \<Rightarrow> gate" where
  "new_gate hash path random =
     \<lparr>env_hash = hash, store_path = path, attempts = (\<lambda>_. None),
      setup_token = new_setup_token random, token_announced = False\<rparr>"

definition normalize_setup_token :: "string \<Rightarrow> string" where
  "normalize_setup_token t = to_lower (trim_space t)"

section \<open>The effective hash\<close>

definition current_hash :: "'b gate_ext \<Rightarrow> gate \<Rightarrow> 'b fs \<Rightarrow> string" where
  "current_hash w g fs =
     (if env_hash g \<noteq> [] then env_hash g
      else if store_path g = [] then []
      else case read_stored_hash (hash_codec w) (gate_os w) fs (store_path g) of
             Inl _ \<Rightarrow> [] | Inr h \<Rightarrow> h)"

definition configured :: "'b gate_ext \<Rightarrow> gate \<Rightarrow> 'b fs \<Rightarrow> bool" where
  "configured w g fs \<longleftrightarrow> current_hash w g fs \<noteq> []"

definition gate_source :: "'b gate_ext \<Rightarrow> gate \<Rightarrow> 'b fs \<Rightarrow> string" where
  "gate_source w g fs =
     (if env_hash g \<noteq> [] then ''env''
      else if current_hash w g fs \<noteq> [] then ''file''
      else ''unset'')"

text \<open>\<open>AnnounceSetupToken\<close>: the token handed to \<open>announce\<close>, if it is called.\<close>

definition announce_setup_token :: "'b gate_ext \<Rightarrow> 'b fs \<Rightarrow> gate \<Rightarrow> string option \<times> gate" where
  "announce_setup_token w fs g =
     (if configured w g fs then (None, g)
      else if token_announced g then (None, g)
      else (Some (setup_token g), g\<lparr>token_announced := True\<rparr>))"

section \<open>Lockout\<close>

definition rate_limited :: "(string \<Rightarrow> attempt_state option) \<Rightarrow> string \<Rightarrow> time \<Rightarrow> time option" where
  "rate_limited at key now =
     (case at key of
        None \<Rightarrow> None
      | Some st \<Rightarrow> let remaining = locked_until st - now in if remaining > 0 then Some remaining else None)"

function backoff_loop :: "nat \<Rightarrow> nat \<Rightarrow> time \<Rightarrow> time" where
  "backoff_loop i n backoff =
     (if i < n \<and> backoff < lockout_max then backoff_loop (i + 1) n (backoff * 2) else backoff)"
  by pat_completeness auto
termination
  by (relation "measure (\<lambda>(i, n, b). n - i)") auto

declare backoff_loop.simps [simp del]

definition backoff :: "nat \<Rightarrow> time" where
  "backoff n = min (backoff_loop max_failures_before_lockout n lockout_base) lockout_max"

definition record_failure ::
    "string \<Rightarrow> time \<Rightarrow> (string \<Rightarrow> attempt_state option) \<Rightarrow> (string \<Rightarrow> attempt_state option)" where
  "record_failure key now at =
     (let st = (case at key of None \<Rightarrow> \<lparr>failures = 0, locked_until = zero_time\<rparr> | Some st \<Rightarrow> st);
          n = failures st + 1;
          st' = st\<lparr>failures := n\<rparr>
      in at(key \<mapsto> (if n \<ge> max_failures_before_lockout then st'\<lparr>locked_until := now + backoff n\<rparr> else st')))"

definition record_success ::
    "string \<Rightarrow> (string \<Rightarrow> attempt_state option) \<Rightarrow> (string \<Rightarrow> attempt_state option)" where
  "record_success key at = at(key := None)"

section \<open>Tokens\<close>

definition session_payload :: "time \<Rightarrow> time \<Rightarrow> string" where
  "session_payload origin refreshed = itoa (unix origin) @ CHR '':'' # itoa (unix refreshed)"

definition encode_token :: "(string \<Rightarrow> string) \<Rightarrow> string \<Rightarrow> string" where
  "encode_token mac payload =
     b64_encode URLAlphabet payload @ CHR ''.'' # b64_encode URLAlphabet (mac payload)"

definition mint_token :: "(string \<Rightarrow> string) \<Rightarrow> time \<Rightarrow> time \<Rightarrow> string" where
  "mint_token mac origin refreshed = encode_token mac (session_payload origin refreshed)"

definition issue_token :: "(string \<Rightarrow> string) \<Rightarrow> time \<Rightarrow> string" where
  "issue_token mac now = mint_token mac now now"

text \<open>The signed payload of a cookie value whose signature verifies.\<close>

definition verified_payload :: "(string \<Rightarrow> string) \<Rightarrow> string option \<Rightarrow> string option" where
  "verified_payload mac cookie =
     (case cookie of
        None \<Rightarrow> None
      | Some value \<Rightarrow>
          (case cut CHR ''.'' value of
             None \<Rightarrow> None
           | Some (a, b) \<Rightarrow>
               (case (b64_decode URLAlphabet a, b64_decode URLAlphabet b) of
                  (Some payload, Some sig) \<Rightarrow> if sig = mac payload then Some payload else None
                | _ \<Rightarrow> None)))"

definition payload_times :: "string \<Rightarrow> (time \<times> time) option" where
  "payload_times payload =
     (let (os, rs) = (case cut CHR '':'' payload of None \<Rightarrow> (payload, payload) | Some p \<Rightarrow> p)
      in case (parse_int os, parse_int rs) of
           (Some o', Some r) \<Rightarrow> Some (of_unix o', of_unix r)
         | _ \<Rightarrow> None)"

definition token_times :: "(string \<Rightarrow> string) \<Rightarrow> string option \<Rightarrow> time \<Rightarrow> (time \<times> time) option" where
  "token_times mac cookie now =
     (case verified_payload mac cookie of
        None \<Rightarrow> None
      | Some payload \<Rightarrow>
          (case payload_times payload of
             None \<Rightarrow> None
           | Some (origin, refreshed) \<Rightarrow>
               if origin > now \<or> refreshed > now \<or> refreshed < origin then None
               else Some (origin, refreshed)))"

definition unlocked_until :: "(string \<Rightarrow> string) \<Rightarrow> string option \<Rightarrow> time \<Rightarrow> time \<Rightarrow> time option" where
  "unlocked_until mac cookie t1 t2 =
     (case token_times mac cookie t1 of
        None \<Rightarrow> None
      | Some (origin, refreshed) \<Rightarrow>
          let idle = refreshed + session_ttl;
              hard = origin + max_session_lifetime;
              deadline = (if hard < idle then hard else idle)
          in if \<not> t2 < deadline then None else Some deadline)"

text \<open>\<open>SetCookie\<close>\<close>

record set_cookie =
  cookie_name :: string
  cookie_value :: string
  cookie_path :: string
  http_only :: bool
  same_site_strict :: bool
  max_age :: int

definition unlock_cookie :: "string \<Rightarrow> set_cookie" where
  "unlock_cookie token =
     \<lparr>cookie_name = ''router_manager_unlock'', cookie_value = token, cookie_path = ''/'',
      http_only = True, same_site_strict = True, max_age = session_ttl div second\<rparr>"

text \<open>\<open>refreshCookie\<close>: the payload it signs anew, if it does.\<close>

definition refresh_payload :: "(string \<Rightarrow> string) \<Rightarrow> string option \<Rightarrow> time \<Rightarrow> time \<Rightarrow> string option" where
  "refresh_payload mac cookie t1 t2 =
     (case token_times mac cookie t1 of
        None \<Rightarrow> None
      | Some (origin, refreshed) \<Rightarrow>
          if t2 - refreshed < refresh_threshold then None else Some (session_payload origin t2))"

definition refresh_cookie :: "(string \<Rightarrow> string) \<Rightarrow> string option \<Rightarrow> time \<Rightarrow> time \<Rightarrow> set_cookie option" where
  "refresh_cookie mac cookie t1 t2 =
     map_option (\<lambda>p. unlock_cookie (encode_token mac p)) (refresh_payload mac cookie t1 t2)"

datatype gate_answer = Refuse503 | Refuse401 | Admit "set_cookie option"

definition require_password ::
    "'b gate_ext \<Rightarrow> (string \<Rightarrow> string) \<Rightarrow> gate \<Rightarrow> 'b fs \<Rightarrow> string option \<Rightarrow>
       time \<Rightarrow> time \<Rightarrow> time \<Rightarrow> time \<Rightarrow> gate_answer" where
  "require_password w mac g fs cookie t1 t2 t3 t4 =
     (if \<not> configured w g fs then Refuse503
      else if unlocked_until mac cookie t1 t2 = None then Refuse401
      else Admit (refresh_cookie mac cookie t3 t4))"

section \<open>Attempts\<close>

text \<open>
  \<open>TryUnlock\<close>: \<open>Inr None\<close> is the wrong password, \<open>Inr (Some token)\<close> the minted token.  \<open>t1\<close> is the reading
  of the lockout check, \<open>t2\<close> the one after the verification.
\<close>

definition try_unlock ::
    "'b gate_ext \<Rightarrow> (string \<Rightarrow> string) \<Rightarrow> 'b fs \<Rightarrow> string \<Rightarrow> string \<Rightarrow> bool \<Rightarrow> time \<Rightarrow> time \<Rightarrow> gate \<Rightarrow>
       (auth_error + string option) \<times> gate" where
  "try_unlock w mac fs key plaintext busy t1 t2 g =
     (let hash = current_hash w g fs
      in if hash = [] then (Inr None, g)
         else case rate_limited (attempts g) key t1 of
           Some remaining \<Rightarrow> (Inl (ErrRateLimited remaining), g)
         | None \<Rightarrow>
             (case verify_password (kdf_fn w) busy plaintext hash of
                Inl e \<Rightarrow> (Inl (PasswordFailed e), g)
              | Inr match \<Rightarrow>
                  if \<not> match then (Inr None, g\<lparr>attempts := record_failure key t2 (attempts g)\<rparr>)
                  else (Inr (Some (issue_token mac t2)),
                        g\<lparr>attempts := record_success key (attempts g)\<rparr>)))"

definition change_password ::
    "'b gate_ext \<Rightarrow> string \<Rightarrow> string \<Rightarrow> string \<Rightarrow> string option \<Rightarrow> bool \<Rightarrow> time \<Rightarrow> time \<Rightarrow>
       gate \<times> 'b fs \<Rightarrow> (auth_error + unit) \<times> (gate \<times> 'b fs)" where
  "change_password w key current_plain new_plain salt busy t1 t2 s =
     (case s of (g, fs) \<Rightarrow>
        if env_hash g \<noteq> [] then (Inl ErrEnvPinned, s)
        else let current = current_hash w g fs
          in if current = [] then (Inl ErrNotConfigured, s)
          else case rate_limited (attempts g) key t1 of
            Some remaining \<Rightarrow> (Inl (ErrRateLimited remaining), s)
          | None \<Rightarrow>
              (case verify_password (kdf_fn w) busy current_plain current of
                 Inl e \<Rightarrow> (Inl (PasswordFailed e), s)
               | Inr match \<Rightarrow>
                   if \<not> match
                   then (Inl ErrWrongPassword, (g\<lparr>attempts := record_failure key t2 (attempts g)\<rparr>, fs))
                   else
                     let g' = g\<lparr>attempts := record_success key (attempts g)\<rparr>
                     in case hash_password (kdf_fn w) salt new_plain of
                          Inl e \<Rightarrow> (Inl (PasswordFailed e), (g', fs))
                        | Inr hash \<Rightarrow>
                            (case write_stored_hash (hash_codec w) (gate_os w) (store_path g) hash fs of
                               (r, fs') \<Rightarrow> (map_error AuthStore r, (g', fs')))))"

definition setup_password ::
    "'b gate_ext \<Rightarrow> string \<Rightarrow> string \<Rightarrow> string option \<Rightarrow> string \<Rightarrow>
       gate \<times> 'b fs \<Rightarrow> (auth_error + unit) \<times> (gate \<times> 'b fs)" where
  "setup_password w token plaintext salt random s =
     (case s of (g, fs) \<Rightarrow>
        if store_path g = [] then (Inl NoStorePath, s)
        else if configured w g fs then (Inl ErrAlreadyConfigured, s)
        else if normalize_setup_token token \<noteq> setup_token g then (Inl ErrBadSetupToken, s)
        else case hash_password (kdf_fn w) salt plaintext of
          Inl e \<Rightarrow> (Inl (PasswordFailed e), s)
        | Inr hash \<Rightarrow>
            (case write_stored_hash (hash_codec w) (gate_os w) (store_path g) hash fs of
               (Inl e, fs') \<Rightarrow> (Inl (AuthStore e), (g, fs'))
             | (Inr _, fs') \<Rightarrow>
                 (Inr (), (g\<lparr>setup_token := new_setup_token random, token_announced := False\<rparr>, fs'))))"

section \<open>The lockout schedule\<close>

lemma backoff_loop_min:
  "0 \<le> b \<Longrightarrow> i \<le> n \<Longrightarrow> min (backoff_loop i n b) lockout_max = min (b * 2 ^ (n - i)) lockout_max"
proof (induction i n b rule: backoff_loop.induct)
  case (1 i n b)
  show ?case
  proof (cases "i < n \<and> b < lockout_max")
    case True
    then have "n - i = Suc (n - (i + 1))" by (simp add: Suc_diff_Suc)
    then have e: "b * 2 * 2 ^ (n - (i + 1)) = b * 2 ^ (n - i)" by (simp only: power_Suc mult.assoc)
    have "min (backoff_loop (i + 1) n (b * 2)) lockout_max = min (b * 2 * 2 ^ (n - (i + 1))) lockout_max"
      using 1 True by simp
    then show ?thesis unfolding e using True by (simp add: backoff_loop.simps [of i])
  next
    case False
    have "b * 1 \<le> b * 2 ^ (n - i)" using 1 by (intro mult_left_mono) auto
    with False 1 show ?thesis by (auto simp: backoff_loop.simps [of i])
  qed
qed

lemma backoff_loop_bound: "b < 2 * lockout_max \<Longrightarrow> backoff_loop i n b < 2 * lockout_max"
proof (induction i n b rule: backoff_loop.induct)
  case (1 i n b)
  then show ?case by (cases "i < n \<and> b < lockout_max") (auto simp: backoff_loop.simps [of i])
qed

lemma backoff_eq: "5 \<le> n \<Longrightarrow> backoff n = min (lockout_base * 2 ^ (n - 5)) lockout_max"
  using backoff_loop_min [of lockout_base 5 n]
  by (simp add: backoff_def max_failures_before_lockout_def time_defs)

text \<open>
  From the fifth failure on the lockout is five seconds doubled with each further failure, up to
  five minutes; the loop that computes it stays below ten minutes, far from the range of a
  \<open>time.Duration\<close>, however many failures there were.
\<close>

theorem backoff_schedule:
  assumes "max_failures_before_lockout \<le> n"
  shows "backoff n = min (lockout_base * 2 ^ (n - 5)) lockout_max \<and>
    backoff_loop max_failures_before_lockout n lockout_base < 2 * lockout_max \<and>
    2 * lockout_max < 2 ^ 63"
  using backoff_eq [of n] backoff_loop_bound [of lockout_base 5 n] assms
  by (simp add: max_failures_before_lockout_def) (simp add: time_defs)

theorem backoff_schedule_witness: "backoff 8 = 40 * second \<and> backoff 1000 = lockout_max"
proof -
  have "backoff 8 = min (lockout_base * 2 ^ (8 - 5)) lockout_max"
    "backoff 1000 = min (lockout_base * 2 ^ (1000 - 5)) lockout_max"
    using backoff_schedule [of 8] backoff_schedule [of 1000] by (simp_all add: max_failures_before_lockout_def)
  moreover have "(2 :: int) ^ 6 \<le> 2 ^ (1000 - 5)" by (rule power_increasing) simp_all
  ultimately show ?thesis by (simp add: time_defs)
qed

lemma backoff_nonneg: "5 \<le> n \<Longrightarrow> 0 \<le> backoff n"
  using backoff_eq [of n] by (simp add: time_defs)

lemma backoff_max: "11 \<le> n \<Longrightarrow> backoff n = lockout_max"
proof -
  assume n: "11 \<le> n"
  then have "(2 :: int) ^ 6 \<le> 2 ^ (n - 5)" by (intro power_increasing) auto
  then have "lockout_max \<le> lockout_base * 2 ^ (n - 5)" by (simp add: time_defs)
  then show ?thesis using backoff_eq [of n] n by simp
qed

lemma rate_limited_None_iff:
  "rate_limited at k now = None \<longleftrightarrow> (\<forall>st. at k = Some st \<longrightarrow> locked_until st \<le> now)"
  by (auto simp: rate_limited_def Let_def split: option.splits)

section \<open>A guessing campaign\<close>

record attempt =
  guess_key :: string
  guess :: string
  slots_busy :: bool
  checked_at :: time
  done_at :: time

fun run_attempts ::
    "'b gate_ext \<Rightarrow> (string \<Rightarrow> string) \<Rightarrow> 'b fs \<Rightarrow> attempt list \<Rightarrow> gate \<Rightarrow>
       (attempt \<times> (auth_error + string option)) list \<times> gate" where
  "run_attempts w mac fs [] g = ([], g)"
| "run_attempts w mac fs (a # as) g =
     (case try_unlock w mac fs (guess_key a) (guess a) (slots_busy a) (checked_at a) (done_at a) g of
        (r, g1) \<Rightarrow> (case run_attempts w mac fs as g1 of (rs, g2) \<Rightarrow> ((a, r) # rs, g2)))"

fun in_order :: "time \<Rightarrow> attempt list \<Rightarrow> bool" where
  "in_order t [] = True"
| "in_order t (a # as) = (t \<le> checked_at a \<and> checked_at a \<le> done_at a \<and> in_order (done_at a) as)"

fun end_time :: "time \<Rightarrow> attempt list \<Rightarrow> time" where
  "end_time t [] = t"
| "end_time t (a # as) = end_time (done_at a) as"

text \<open>The guesses for one key that were compared with the password, all of them wrong.\<close>

definition wrong_guesses :: "string \<Rightarrow> (attempt \<times> (auth_error + string option)) list \<Rightarrow> nat" where
  "wrong_guesses k rs = length (filter (\<lambda>(a, r). guess_key a = k \<and> r = Inr None) rs)"

definition on_key :: "string \<Rightarrow> attempt list \<Rightarrow> attempt list" where
  "on_key k as = filter (\<lambda>a. guess_key a = k) as"

definition guessed :: "string \<Rightarrow> (attempt \<times> (auth_error + string option)) list \<Rightarrow> bool" where
  "guessed k rs \<longleftrightarrow> (\<exists>a token. (a, Inr (Some token)) \<in> set rs \<and> guess_key a = k)"

definition total_backoff :: "nat \<Rightarrow> time" where
  "total_backoff n = (\<Sum>i \<in> {5..<n}. backoff i)"

definition fails_of :: "(string \<Rightarrow> attempt_state option) \<Rightarrow> string \<Rightarrow> nat" where
  "fails_of at k = (case at k of None \<Rightarrow> 0 | Some st \<Rightarrow> failures st)"

lemma total_backoff_Suc: "5 \<le> n \<Longrightarrow> total_backoff (Suc n) = total_backoff n + backoff n"
  by (simp add: total_backoff_def)

lemma total_backoff_small: "n \<le> 5 \<Longrightarrow> total_backoff n = 0"
  by (simp add: total_backoff_def)

lemma total_backoff_nonneg: "0 \<le> total_backoff n"
  unfolding total_backoff_def by (rule sum_nonneg) (simp add: backoff_nonneg)

lemma total_backoff_lower: "lockout_max * (int n - 11) \<le> total_backoff n"
proof (induction n)
  case (Suc n)
  show ?case
  proof (cases "11 \<le> n")
    case True
    then show ?thesis using Suc backoff_max [OF True] by (simp add: total_backoff_Suc algebra_simps)
  next
    case False
    then have "int (Suc n) - 11 \<le> 0" by simp
    then have "lockout_max * (int (Suc n) - 11) \<le> 0"
      by (simp add: time_defs mult_nonneg_nonpos)
    then show ?thesis using total_backoff_nonneg [of "Suc n"] by linarith
  qed
qed (simp add: total_backoff_def time_defs)

lemma current_hash_attempts [simp]: "current_hash w (g\<lparr>attempts := at\<rparr>) fs = current_hash w g fs"
  by (simp add: current_hash_def)

lemma try_unlock_hash: "try_unlock w mac fs k p b t1 t2 g = (r, g') \<Longrightarrow>
    current_hash w g' fs = current_hash w g fs"
  by (auto simp: try_unlock_def Let_def split: if_splits option.splits sum.splits)

lemma try_unlock_other: "try_unlock w mac fs k p b t1 t2 g = (r, g') \<Longrightarrow> j \<noteq> k \<Longrightarrow>
    attempts g' j = attempts g j"
  by (auto simp: try_unlock_def Let_def record_failure_def record_success_def
      split: if_splits option.splits sum.splits)

lemma try_unlock_cases:
  assumes "try_unlock w mac fs k p b t1 t2 g = (r, g')" "current_hash w g fs \<noteq> []"
  obtains (wrong) "r = Inr None" "rate_limited (attempts g) k t1 = None"
      "attempts g' = record_failure k t2 (attempts g)"
  | (right) token where "r = Inr (Some token)"
  | (refused) e where "r = Inl e" "attempts g' = attempts g"
  using assms by (auto simp: try_unlock_def Let_def split: if_splits option.splits sum.splits)

text \<open>What holds between the attempts on a key of a campaign that began at \<open>t0\<close>.\<close>

definition throttled :: "time \<Rightarrow> time \<Rightarrow> (string \<Rightarrow> attempt_state option) \<Rightarrow> string \<Rightarrow> bool" where
  "throttled t0 t at k \<longleftrightarrow>
     t0 + total_backoff (fails_of at k) \<le> t \<and>
     (\<forall>st. at k = Some st \<longrightarrow> 5 \<le> failures st \<longrightarrow> t0 + total_backoff (Suc (failures st)) \<le> locked_until st)"

lemma record_failure_throttled:
  assumes "throttled t0 t at k" "t \<le> t1" "t1 \<le> t2" "rate_limited at k t1 = None"
  shows "throttled t0 t2 (record_failure k t2 at) k \<and>
    fails_of (record_failure k t2 at) k = Suc (fails_of at k)"
proof -
  define f where "f = fails_of at k"
  obtain st where st: "record_failure k t2 at k = Some st" "failures st = Suc f"
    "5 \<le> Suc f \<Longrightarrow> locked_until st = t2 + backoff (Suc f)"
    by (cases "at k")
      (auto simp: record_failure_def f_def fails_of_def Let_def max_failures_before_lockout_def)
  have e: "t0 + total_backoff (Suc f) \<le> t2"
  proof (cases "5 \<le> f")
    case True
    then obtain s where s: "at k = Some s" "failures s = f"
      by (cases "at k") (auto simp: f_def fails_of_def)
    then have "t0 + total_backoff (Suc f) \<le> locked_until s" "locked_until s \<le> t1"
      using assms(1,4) True by (auto simp: throttled_def rate_limited_None_iff)
    then show ?thesis using assms(3) by simp
  next
    case False
    then have "total_backoff (Suc f) = 0" "total_backoff f = 0" by (simp_all add: total_backoff_small)
    then show ?thesis using assms(1-3) by (simp add: throttled_def f_def [symmetric])
  qed
  moreover have "t0 + total_backoff (Suc (Suc f)) \<le> locked_until st" if "5 \<le> Suc f"
    using e st(3) [OF that] total_backoff_Suc [OF that] by simp
  ultimately show ?thesis using st(1,2) by (auto simp: throttled_def fails_of_def f_def)
qed

lemma run_attempts_throttled:
  assumes "run_attempts w mac fs as g = (rs, g')" "current_hash w g fs \<noteq> []"
    and "in_order t (on_key k as)" "\<not> guessed k rs" "throttled t0 t (attempts g) k"
  shows "throttled t0 (end_time t (on_key k as)) (attempts g') k \<and>
    fails_of (attempts g') k = fails_of (attempts g) k + wrong_guesses k rs"
  using assms
proof (induction as arbitrary: g t rs)
  case Nil
  then show ?case by (simp add: wrong_guesses_def on_key_def)
next
  case (Cons a as)
  obtain r g1 where u: "try_unlock w mac fs (guess_key a) (guess a) (slots_busy a) (checked_at a) (done_at a) g = (r, g1)"
    by fastforce
  obtain rs1 where rest: "run_attempts w mac fs as g1 = (rs1, g')" and rs: "rs = (a, r) # rs1"
    using Cons.prems(1) u by (auto split: prod.splits)
  have hash: "current_hash w g1 fs \<noteq> []" using try_unlock_hash [OF u] Cons.prems(2) by simp
  have ng: "\<not> guessed k rs1" and nr: "guess_key a = k \<Longrightarrow> r \<noteq> Inr (Some token)" for token
    using Cons.prems(4) rs by (auto simp: guessed_def)
  show ?case
  proof (cases "guess_key a = k")
    case False
    then have "attempts g1 k = attempts g k" using try_unlock_other [OF u] by simp
    then have "throttled t0 t (attempts g1) k" "fails_of (attempts g1) k = fails_of (attempts g) k"
      using Cons.prems(5) by (simp_all add: throttled_def fails_of_def)
    moreover have "on_key k (a # as) = on_key k as" using False by (simp add: on_key_def)
    ultimately show ?thesis
      using Cons.IH [OF rest hash _ ng, of t] Cons.prems(3) False by (simp add: rs wrong_guesses_def)
  next
    case True
    have key: "on_key k (a # as) = a # on_key k as" using True by (simp add: on_key_def)
    then have ord: "t \<le> checked_at a" "checked_at a \<le> done_at a" "in_order (done_at a) (on_key k as)"
      using Cons.prems(3) by simp_all
    have "throttled t0 (done_at a) (attempts g1) k \<and>
        fails_of (attempts g1) k = fails_of (attempts g) k + (if r = Inr None then 1 else 0)"
      using u Cons.prems(2)
    proof (cases rule: try_unlock_cases)
      case wrong
      then show ?thesis
        using record_failure_throttled [OF Cons.prems(5) ord(1,2)] True by simp
    next
      case (right token)
      then show ?thesis using nr [OF True] by simp
    next
      case (refused e)
      then show ?thesis using Cons.prems(5) ord(1,2) by (auto simp: throttled_def)
    qed
    then show ?thesis
      using Cons.IH [OF rest hash ord(3) ng] True key by (auto simp: rs wrong_guesses_def)
  qed
qed

text \<open>
  C7.  As long as no guess on a key is right (a success clears its counter), \<open>n\<close> wrong guesses that were
  compared with the password take at least \<open>n - 11\<close> full lockouts of five minutes.  This is for the attempts to
  unlock on a key with no failures on record, while the stored password stays as it is; the key's lock makes them
  follow one another on the clock (\<open>in_order\<close>), with any pauses, and any attempts on other keys may come in between
  or overlap them.
\<close>

theorem guess_rate_bound:
  assumes "run_attempts w mac fs as g = (rs, g')" and "current_hash w g fs \<noteq> []"
    and "in_order t (on_key k as)" and "attempts g k = None" and "\<not> guessed k rs"
  shows "lockout_max * (int (wrong_guesses k rs) - 11) \<le> end_time t (on_key k as) - t"
proof -
  have "throttled t t (attempts g) k" "fails_of (attempts g) k = 0"
    using assms(4) by (auto simp: throttled_def fails_of_def total_backoff_small)
  with run_attempts_throttled [OF assms(1-3,5)] have
    "throttled t (end_time t (on_key k as)) (attempts g') k" "fails_of (attempts g') k = wrong_guesses k rs"
    by auto
  then have "t + total_backoff (wrong_guesses k rs) \<le> end_time t (on_key k as)" by (simp add: throttled_def)
  then show ?thesis using total_backoff_lower [of "wrong_guesses k rs"] by linarith
qed


section \<open>Tokens\<close>

lemma cut_dot_token: "cut CHR ''.'' (b64_encode URLAlphabet a @ CHR ''.'' # b) = Some (b64_encode URLAlphabet a, b)"
  by (rule cut_append) (rule b64_encode_not_in, simp_all add: char_class_defs code_def)

lemma verified_encode: "verified_payload mac (Some (encode_token mac p)) = Some p"
  by (simp add: verified_payload_def encode_token_def cut_dot_token b64_decode_encode)

lemma payload_times_session:
  "payload_times (session_payload o' r) =
     (if in_int64 (unix o') \<and> in_int64 (unix r) then Some (of_unix (unix o'), of_unix (unix r)) else None)"
proof -
  have "cut CHR '':'' (session_payload o' r) = Some (itoa (unix o'), itoa (unix r))"
    unfolding session_payload_def by (rule cut_append) (rule itoa_no_colon)
  then show ?thesis by (simp add: payload_times_def parse_int_def)
qed

lemma unix_le: "of_unix (unix t) \<le> t"
  by (simp add: of_unix_def unix_def second_def)

lemma unix_gt: "t < of_unix (unix t) + second"
  by (simp add: of_unix_def unix_def second_def)

lemma unix_mono: "a \<le> b \<Longrightarrow> of_unix (unix a) \<le> of_unix (unix b)"
  by (simp add: of_unix_def unix_def second_def zdiv_mono1)

lemma token_times_mint:
  "o' \<le> r \<Longrightarrow> r \<le> now \<Longrightarrow> in_int64 (unix o') \<Longrightarrow> in_int64 (unix r) \<Longrightarrow>
   token_times mac (Some (mint_token mac o' r)) now = Some (of_unix (unix o'), of_unix (unix r))"
  using unix_le [of o'] unix_le [of r] unix_mono [of o' r]
  by (simp add: token_times_def mint_token_def verified_encode payload_times_session)

lemma unlocked_until_facts:
  "unlocked_until mac cookie t1 t2 = Some d \<Longrightarrow>
   \<exists>p o' r. verified_payload mac cookie = Some p \<and> payload_times p = Some (o', r) \<and>
     o' \<le> r \<and> r \<le> t1 \<and> t2 < d \<and> d = min (r + session_ttl) (o' + max_session_lifetime)"
  by (auto simp: unlocked_until_def token_times_def Let_def split: option.splits prod.splits if_splits)

text \<open>
  A minted token presented back under the same secret yields its two times, truncated to the
  second, from the moment it was minted on.
\<close>

theorem token_round_trip:
  assumes "o' \<le> r" "r \<le> now" "in_int64 (unix o')" "in_int64 (unix r)"
  shows "token_times mac (Some (mint_token mac o' r)) now = Some (of_unix (unix o'), of_unix (unix r))"
  by (rule token_times_mint [OF assms])

theorem token_round_trip_witness:
  "token_times rev (Some (mint_token rev 1700000000500000000 1700000100000000000)) 1700000200000000000 =
     Some (1700000000000000000, 1700000100000000000)"
  using token_round_trip [of 1700000000500000000 1700000100000000000 1700000200000000000 rev]
  by (simp add: in_int64_def time_defs)

text \<open>
  An accepted token was signed, was not issued in the future, and its deadline is ahead, at most
  fifteen minutes after its last refresh and at most twelve hours after the password was typed.
\<close>

theorem unlocked_until_sound:
  assumes "unlocked_until mac cookie t1 t2 = Some d"
  shows "\<exists>p o' r. verified_payload mac cookie = Some p \<and> payload_times p = Some (o', r) \<and>
    o' \<le> r \<and> r \<le> t1 \<and> t2 < d \<and> d = min (r + session_ttl) (o' + max_session_lifetime)"
  by (rule unlocked_until_facts [OF assms])

theorem unlocked_until_sound_witness:
  "\<exists>o' r. payload_times (session_payload 0 (1000 * second)) = Some (o', r) \<and> o' \<le> r \<and>
     1600 * second < min (r + session_ttl) (o' + max_session_lifetime)"
proof -
  have i: "in_int64 (unix 0)" "in_int64 (unix (1000 * second))"
    by (simp_all add: in_int64_def time_defs)
  have "token_times id (Some (mint_token id 0 (1000 * second))) (1600 * second) = Some (0, 1000 * second)"
    using token_times_mint [OF _ _ i, of "1600 * second" id] by (simp add: time_defs)
  then have "unlocked_until id (Some (mint_token id 0 (1000 * second))) (1600 * second) (1600 * second) =
      Some (1900 * second)"
    by (simp add: unlocked_until_def Let_def) (simp add: time_defs)
  from unlocked_until_sound [OF this] show ?thesis
    by (auto simp: mint_token_def verified_encode)
qed

section \<open>Setting and changing the password\<close>

text \<open>
  What is relied on of the externals: \<open>IDKey\<close> returns the number of bytes it was asked for, and a stored
  hash is read back as it was written.
\<close>

definition kdf_ok :: "kdf \<Rightarrow> bool" where
  "kdf_ok idkey \<longleftrightarrow> (\<forall>p s t m n len k. idkey p s t m n len = Some k \<longrightarrow> length k = len)"

definition ext_ok :: "'b gate_ext \<Rightarrow> bool" where
  "ext_ok w \<longleftrightarrow> kdf_ok (kdf_fn w) \<and> codec_ok (hash_codec w) (\<lambda>h. h)"

text \<open>The password a hash is of, up to collisions of the key derivation.\<close>

definition hash_of :: "kdf \<Rightarrow> string \<Rightarrow> string \<Rightarrow> bool" where
  "hash_of idkey p h \<longleftrightarrow> (\<exists>salt. hash_password idkey (Some salt) p = Inr h)"

lemma hash_of_verify:
  assumes "kdf_ok idkey" "hash_of idkey p h"
  shows "verify_password idkey False p h = Inr True" and "h \<noteq> []"
proof -
  obtain salt where h: "hash_password idkey (Some salt) p = Inr h" using assms(2) by (auto simp: hash_of_def)
  obtain key where k: "idkey p salt 3 65536 2 32 = Some key"
    and v: "verify_password idkey False p h =
      (if False then Inl ErrBusy
       else case idkey p salt 3 65536 2 (length key) of None \<Rightarrow> Inl KeyPanic | Some c \<Rightarrow> Inr (key = c))"
    by (rule verify_hash [OF h])
  have "length key = 32" using assms(1) k by (auto simp: kdf_ok_def)
  then show "verify_password idkey False p h = Inr True" using v k by simp
  show "h \<noteq> []" using h by (auto simp: hash_password_def split: option.splits)
qed

lemma stored_current_hash:
  assumes "codec_ok (hash_codec w) (\<lambda>h. h)" "\<not> fails (gate_os w) (ReadFile (store_path g))"
    and "write_stored_hash (hash_codec w) (gate_os w) (store_path g) h fs = (Inr (), fs')"
    and "env_hash g = []" "store_path g \<noteq> []"
  shows "current_hash w g fs' = h"
proof -
  obtain b where "marshal (hash_codec w) h = Some b" "fs' (store_path g) \<noteq> None"
    "contents (the (fs' (store_path g))) = b"
    using write_stored_hash_ok [OF assms(3)] by auto
  with assms show ?thesis
    by (auto simp: current_hash_def read_stored_hash_def read_file_def codec_ok_def)
qed

lemma setup_eq_Inr:
  "setup_password w token p salt random (g, fs) = (Inr (), (g', fs')) \<longleftrightarrow>
     store_path g \<noteq> [] \<and> \<not> configured w g fs \<and> normalize_setup_token token = setup_token g \<and>
     g' = g\<lparr>setup_token := new_setup_token random, token_announced := False\<rparr> \<and>
     (\<exists>h. hash_password (kdf_fn w) salt p = Inr h \<and>
        write_stored_hash (hash_codec w) (gate_os w) (store_path g) h fs = (Inr (), fs'))"
  by (auto simp: setup_password_def split: sum.splits prod.splits)

lemma hash_of_Inr: "hash_password idkey salt p = Inr h \<Longrightarrow> hash_of idkey p h"
  by (cases salt) (auto simp: hash_of_def hash_password_def)

text \<open>
  C31.  Where the store file can be read: a setup that succeeds found no password and was given the announced
  token; afterwards the new password unlocks (\<open>TryUnlock\<close> mints a token for every key that is not locked out),
  every further setup is refused as already configured, and once the store is cleared again the spent token is
  refused too, as the new one differs from it.  (Of the libraries: \<open>IDKey\<close> returns as many bytes as it is asked
  for, and a stored hash is read back as it was written.)
\<close>

theorem setup_single_use:
  assumes "setup_password w token p salt random (g, fs) = (Inr (), (g', fs'))"
    and ext: "ext_ok w" and read: "\<not> fails (gate_os w) (ReadFile (store_path g))"
    and fresh: "new_setup_token random \<noteq> setup_token g"
  shows "\<not> configured w g fs \<and> normalize_setup_token token = setup_token g \<and>
    hash_of (kdf_fn w) p (current_hash w g' fs') \<and>
    (rate_limited (attempts g') key t1 = None \<longrightarrow>
       fst (try_unlock w mac fs' key p False t1 t2 g') = Inr (Some (issue_token mac t2))) \<and>
    fst (setup_password w token2 p2 salt2 random2 (g', fs')) = Inl ErrAlreadyConfigured \<and>
    (\<not> configured w g' fs2 \<longrightarrow>
       fst (setup_password w token p2 salt2 random2 (g', fs2)) = Inl ErrBadSetupToken)"
proof -
  obtain h where pre: "store_path g \<noteq> []" "\<not> configured w g fs" "normalize_setup_token token = setup_token g"
    and g': "g' = g\<lparr>setup_token := new_setup_token random, token_announced := False\<rparr>"
    and h: "hash_password (kdf_fn w) salt p = Inr h"
    and wr: "write_stored_hash (hash_codec w) (gate_os w) (store_path g) h fs = (Inr (), fs')"
    using assms(1) unfolding setup_eq_Inr by blast
  have e: "env_hash g = []" using pre(2) by (auto simp: configured_def current_hash_def split: if_splits)
  have "current_hash w g fs' = h"
    using ext stored_current_hash [OF _ read wr e pre(1)] by (simp add: ext_ok_def)
  moreover have "current_hash w g' fs' = current_hash w g fs'" by (simp add: g' current_hash_def)
  ultimately have c: "current_hash w g' fs' = h" by simp
  have ho: "hash_of (kdf_fn w) p h" using h by (rule hash_of_Inr)
  have v: "verify_password (kdf_fn w) False p h = Inr True" "h \<noteq> []"
    using ext hash_of_verify [OF _ ho] by (simp_all add: ext_ok_def)
  then have "configured w g' fs'" using c by (simp add: configured_def)
  moreover have "rate_limited (attempts g') key t1 = None \<Longrightarrow>
      fst (try_unlock w mac fs' key p False t1 t2 g') = Inr (Some (issue_token mac t2))"
    using v c by (simp add: try_unlock_def Let_def)
  ultimately show ?thesis using pre ho c fresh by (simp add: setup_password_def g' configured_def)
qed

text \<open>
  C28.  A successful change had the current password, outside a lockout, and leaves a hash of the new one;
  a change that fails leaves the effective hash as it was.
\<close>

theorem change_password_spec:
  assumes "change_password w key cur new salt busy t1 t2 (g, fs) = (r, (g', fs'))"
    and ext: "ext_ok w" and read: "\<not> fails (gate_os w) (ReadFile (store_path g))"
  shows "(case r of
      Inr _ \<Rightarrow> env_hash g = [] \<and> rate_limited (attempts g) key t1 = None \<and>
        verify_password (kdf_fn w) busy cur (current_hash w g fs) = Inr True \<and>
        hash_of (kdf_fn w) new (current_hash w g' fs') \<and> attempts g' key = None
    | Inl e \<Rightarrow> current_hash w g' fs' = current_hash w g fs)"
proof (cases r)
  case (Inr u)
  then obtain h where g: "env_hash g = []" "current_hash w g fs \<noteq> []" "rate_limited (attempts g) key t1 = None"
    and v: "verify_password (kdf_fn w) busy cur (current_hash w g fs) = Inr True"
    and h: "hash_password (kdf_fn w) salt new = Inr h"
    and wr: "write_stored_hash (hash_codec w) (gate_os w) (store_path g) h fs = (Inr (), fs')"
    and g': "g' = g\<lparr>attempts := record_success key (attempts g)\<rparr>"
    using assms(1)
    by (auto simp: change_password_def Let_def res_simps split: if_splits option.splits sum.splits prod.splits)
  have sp: "store_path g \<noteq> []" using g(1,2) by (auto simp: current_hash_def)
  have "current_hash w g fs' = h"
    using ext stored_current_hash [OF _ read wr g(1) sp] by (simp add: ext_ok_def)
  then show ?thesis using Inr g v hash_of_Inr [OF h] by (simp add: g' record_success_def)
next
  case (Inl e)
  have w: "fs'' (store_path g) = fs (store_path g)"
    if "write_stored_hash (hash_codec w) (gate_os w) (store_path g) h fs = (Inl e', fs'')" for h e' fs''
    using write_stored_hash_err [OF that] by simp
  have "env_hash g' = env_hash g \<and> store_path g' = store_path g \<and> fs' (store_path g) = fs (store_path g)"
    using assms(1) Inl
    by (auto simp: change_password_def Let_def res_simps dest: w split: if_splits option.splits sum.splits prod.splits)
  then show ?thesis using Inl by (simp add: current_hash_def read_stored_hash_def read_file_def)
qed

section \<open>The properties on a concrete gate\<close>

definition toy_kdf :: kdf where
  "toy_kdf p s t m n len = Some (take len (p @ s @ replicate len CHR ''x''))"

definition sample_ext :: "string gate_ext" where
  "sample_ext = \<lparr>kdf_fn = toy_kdf, hash_codec = plain_codec (\<lambda>h. h), gate_os = quiet_os\<rparr>"

definition sample_hash :: string where
  "sample_hash = (case hash_password toy_kdf (Some ''salt'') ''pw'' of Inr h \<Rightarrow> h | Inl _ \<Rightarrow> [])"

definition file_gate :: gate where
  "file_gate = new_gate [] ''/s'' (replicate 16 CHR ''r'')"

definition hash_fs :: "string \<Rightarrow> string fs" where
  "hash_fs h = [''/s'' \<mapsto> \<lparr>contents = h, perm = 0x180\<rparr>]"

lemma toy_kdf_ok [simp]: "kdf_ok toy_kdf"
  by (auto simp: kdf_ok_def toy_kdf_def)

lemma sample_ext_ok [simp]: "ext_ok sample_ext"
  by (simp add: ext_ok_def sample_ext_def)

lemma sample_ext_simps [simp]:
  "kdf_fn sample_ext = toy_kdf" "hash_codec sample_ext = plain_codec (\<lambda>h. h)" "gate_os sample_ext = quiet_os"
  by (simp_all add: sample_ext_def)

lemma file_gate_simps [simp]:
  "env_hash file_gate = []" "store_path file_gate = ''/s''" "attempts file_gate = (\<lambda>_. None)"
  by (simp_all add: file_gate_def new_gate_def)

lemma sample_hash_eq: "hash_password toy_kdf (Some ''salt'') ''pw'' = Inr sample_hash"
  by (simp add: sample_hash_def hash_password_def toy_kdf_def)

lemma sample_hash_not_Nil [simp]: "sample_hash \<noteq> []"
  by (rule hash_of_verify(2) [OF toy_kdf_ok hash_of_Inr [OF sample_hash_eq]])

lemma sample_verify:
  "verify_password toy_kdf False q sample_hash =
     Inr (take 32 (''pwsalt'' @ replicate 32 CHR ''x'') = take 32 (q @ ''salt'' @ replicate 32 CHR ''x''))"
  by (rule verify_hash [OF sample_hash_eq, of False q]) (simp add: toy_kdf_def)

lemma hash_fs_current: "current_hash sample_ext (file_gate\<lparr>attempts := at\<rparr>) (hash_fs h) = h"
  by (simp add: current_hash_def read_stored_hash_def read_file_def hash_fs_def plain_codec_def)

lemma write_hash_quiet:
  "write_stored_hash (plain_codec (\<lambda>h. h)) quiet_os ''/s'' h' (hash_fs h) = (Inr (), hash_fs h')"
  "write_stored_hash (plain_codec (\<lambda>h. h)) quiet_os ''/s'' h' Map.empty = (Inr (), hash_fs h')"
  by (simp_all add: write_stored_hash_def plain_codec_def syscall_defs tmp_path_def hash_fs_def fun_eq_iff)

lemma sample_token: "normalize_setup_token (CHR '' '' # to_upper (setup_token file_gate)) = setup_token file_gate"
  by code_simp

theorem setup_single_use_witness:
  "\<exists>g' fs'. setup_password sample_ext (CHR '' '' # to_upper (setup_token file_gate)) ''pw'' (Some ''salt'') ''q''
       (file_gate, Map.empty) = (Inr (), (g', fs')) \<and>
     hash_of toy_kdf ''pw'' (current_hash sample_ext g' fs') \<and>
     fst (try_unlock sample_ext rev fs' ''k'' ''pw'' False 1 (7 * second) g') = Inr (Some (issue_token rev (7 * second))) \<and>
     fst (setup_password sample_ext [] ''other'' None [] (g', fs')) = Inl ErrAlreadyConfigured"
proof -
  let ?tok = "CHR '' '' # to_upper (setup_token file_gate)"
  let ?g' = "file_gate\<lparr>setup_token := new_setup_token ''q'', token_announced := False\<rparr>"
  have c: "\<not> configured sample_ext file_gate Map.empty"
    by (simp add: configured_def current_hash_def read_stored_hash_def read_file_def)
  have run: "setup_password sample_ext ?tok ''pw'' (Some ''salt'') ''q'' (file_gate, Map.empty) =
      (Inr (), (?g', hash_fs sample_hash))"
    unfolding setup_eq_Inr using c sample_token sample_hash_eq write_hash_quiet(2) [of sample_hash] by simp
  moreover have "new_setup_token ''q'' \<noteq> setup_token file_gate"
  proof -
    have "length (new_setup_token ''q'') = 2" "length (setup_token file_gate) = 32"
      by (simp_all add: new_setup_token_def file_gate_def new_gate_def length_hex_encode)
    then show ?thesis by fastforce
  qed
  ultimately show ?thesis
    using setup_single_use [OF run sample_ext_ok, of "''k''" 1 rev "7 * second"] by (auto simp: rate_limited_def)
qed

theorem change_password_spec_witness:
  "\<exists>g' fs'. change_password sample_ext ''k'' ''pw'' ''new'' (Some ''salt2'') False 0 0
       (file_gate, hash_fs sample_hash) = (Inr (), (g', fs')) \<and>
     hash_of toy_kdf ''new'' (current_hash sample_ext g' fs')"
proof -
  obtain h where h: "hash_password toy_kdf (Some ''salt2'') ''new'' = Inr h"
    by (simp add: hash_password_def toy_kdf_def)
  have "current_hash sample_ext file_gate (hash_fs sample_hash) = sample_hash"
    using hash_fs_current [of "attempts file_gate"] by simp
  then have run: "change_password sample_ext ''k'' ''pw'' ''new'' (Some ''salt2'') False 0 0
       (file_gate, hash_fs sample_hash) =
     (Inr (), (file_gate\<lparr>attempts := record_success ''k'' (attempts file_gate)\<rparr>, hash_fs h))"
    using h by (simp add: change_password_def Let_def rate_limited_def sample_verify write_hash_quiet)
  from change_password_spec [OF run sample_ext_ok] run show ?thesis by simp
qed

text \<open>
  Twelve wrong guesses on one key, each five minutes and one second after the one before, and an attempt on another
  key that overlaps them all.
\<close>

definition spaced :: "nat \<Rightarrow> attempt" where
  "spaced i = \<lparr>guess_key = ''k'', guess = ''a'', slots_busy = False,
     checked_at = 301 * second * int i, done_at = 301 * second * int i + 1\<rparr>"

definition overlapping :: attempt where
  "overlapping = \<lparr>guess_key = ''other'', guess = ''b'', slots_busy = False, checked_at = 0, done_at = 5000 * second\<rparr>"

lemma record_failure_locked:
  "record_failure k t at k = Some st \<Longrightarrow> zero_time \<le> t \<Longrightarrow>
   (\<And>st. at k = Some st \<Longrightarrow> locked_until st \<le> t) \<Longrightarrow> locked_until st \<le> t + lockout_max"
  by (cases "at k")
    (auto simp: record_failure_def Let_def backoff_def time_defs split: if_splits)

lemma spaced_run:
  assumes "current_hash sample_ext g (hash_fs sample_hash) = sample_hash"
    and "\<forall>st. attempts g ''k'' = Some st \<longrightarrow> locked_until st \<le> 301 * second * int i"
  shows "\<exists>g'. run_attempts sample_ext rev (hash_fs sample_hash) (map spaced [i..<i + n]) g =
    (map (\<lambda>j. (spaced j, Inr None)) [i..<i + n], g')"
  using assms
proof (induction n arbitrary: i g)
  case (Suc n)
  let ?g = "g\<lparr>attempts := record_failure ''k'' (done_at (spaced i)) (attempts g)\<rparr>"
  have free: "rate_limited (attempts g) ''k'' (checked_at (spaced i)) = None"
    using Suc.prems(2) by (simp add: rate_limited_None_iff spaced_def)
  have u: "try_unlock sample_ext rev (hash_fs sample_hash) (guess_key (spaced i)) (guess (spaced i)) (slots_busy (spaced i))
      (checked_at (spaced i)) (done_at (spaced i)) g = (Inr None, ?g)"
    using free Suc.prems(1) by (simp add: try_unlock_def Let_def sample_verify) (simp add: spaced_def sample_verify)
  have "locked_until st \<le> 301 * second * int (Suc i)" if "attempts ?g ''k'' = Some st" for st
    using record_failure_locked [of "''k''" "done_at (spaced i)" "attempts g" st] that Suc.prems(2)
    by (fastforce simp: spaced_def time_defs algebra_simps)
  moreover have "current_hash sample_ext ?g (hash_fs sample_hash) = sample_hash" using Suc.prems(1) by simp
  ultimately obtain g' where
    "run_attempts sample_ext rev (hash_fs sample_hash) (map spaced [Suc i..<Suc i + n]) ?g =
      (map (\<lambda>j. (spaced j, Inr None)) [Suc i..<Suc i + n], g')" using Suc.IH [of ?g "Suc i"] by blast
  then have "run_attempts sample_ext rev (hash_fs sample_hash) (map spaced (i # [Suc i..<Suc i + n])) g =
      (map (\<lambda>j. (spaced j, Inr None)) (i # [Suc i..<Suc i + n]), g')"
    using u by simp
  moreover have "i < i + Suc n" by simp
  then have "i # [Suc i..<Suc i + n] = [i..<i + Suc n]" by (simp only: upt_conv_Cons add_Suc_shift)
  ultimately show ?case by metis
qed simp

theorem guess_rate_bound_witness:
  "\<exists>rs g'. run_attempts sample_ext rev (hash_fs sample_hash) (overlapping # map spaced [0..<12]) file_gate = (rs, g') \<and>
     wrong_guesses ''k'' rs = 12 \<and> \<not> guessed ''k'' rs \<and>
     lockout_max * (12 - 11) \<le> end_time 0 (on_key ''k'' (overlapping # map spaced [0..<12])) - 0"
proof -
  have h: "current_hash sample_ext file_gate (hash_fs sample_hash) = sample_hash"
    using hash_fs_current [of "attempts file_gate"] by simp
  obtain r g1 where u: "try_unlock sample_ext rev (hash_fs sample_hash) ''other'' ''b'' False 0 (5000 * second) file_gate =
      (r, g1)" by fastforce
  have g1: "current_hash sample_ext g1 (hash_fs sample_hash) = sample_hash" "attempts g1 ''k'' = None"
    using try_unlock_hash [OF u] try_unlock_other [OF u, of "''k''"] h by simp_all
  obtain g' where "run_attempts sample_ext rev (hash_fs sample_hash) (map spaced [0..<12]) g1 =
      (map (\<lambda>j. (spaced j, Inr None)) [0..<12], g')"
    using spaced_run [of g1 0 12] g1 by auto
  then have run: "run_attempts sample_ext rev (hash_fs sample_hash) (overlapping # map spaced [0..<12]) file_gate =
      ((overlapping, r) # map (\<lambda>j. (spaced j, Inr None)) [0..<12], g')"
    using u by (simp add: overlapping_def)
  have key: "on_key ''k'' (overlapping # map spaced [0..<12]) = map spaced [0..<12]"
    by (simp add: on_key_def overlapping_def spaced_def filter_map comp_def)
  have "in_order 0 (map spaced [0..<12])"
    by (simp add: upt_rec) (simp add: spaced_def time_defs)
  moreover have "wrong_guesses ''k'' ((overlapping, r) # map (\<lambda>j. (spaced j, Inr None)) [0..<12]) = 12"
    "\<not> guessed ''k'' ((overlapping, r) # map (\<lambda>j. (spaced j, Inr None)) [0..<12])"
    by (auto simp: wrong_guesses_def guessed_def overlapping_def spaced_def filter_map comp_def)
  ultimately show ?thesis
    using guess_rate_bound [OF run, of 0 "''k''"] run key h by (intro exI conjI) (rule run, simp_all)
qed

end
