(* ===== verification/Auth_Session.thy ===== *)
theory Auth_Session
  imports Auth_Gate
begin

text \<open>
  The life of unlock sessions: a step relation whose steps are the requests a gate serves, over the
  gate, the file system and the clock.  \<open>signed\<close> collects every payload the gate put its signature on
  and \<open>typed\<close> the moments at which a password was verified.  Requests carry any cookie, except that
  nobody but the gate signs: a cookie that is a payload with the gate's MAC of it carries a payload of
  \<open>signed\<close>, which is the unforgeability of HMAC-SHA256 under a secret that never leaves the process.
\<close>

record 'b service =
  the_gate :: gate
  disk :: "'b fs"
  clock :: time
  signed :: "string set"
  typed :: "time set"

definition unforged :: "(string \<Rightarrow> string) \<Rightarrow> string set \<Rightarrow> string option \<Rightarrow> bool" where
  "unforged mac known cookie \<longleftrightarrow>
     (\<forall>a b p. cookie = Some (a @ CHR ''.'' # b) \<and> CHR ''.'' \<notin> set a \<and>
        b64_decode URLAlphabet a = Some p \<and> b64_decode URLAlphabet b = Some (mac p) \<longrightarrow> p \<in> known)"

lemma unforged_payload:
  assumes "unforged mac known cookie" "verified_payload mac cookie = Some p"
  shows "p \<in> known"
proof -
  obtain v a b where v: "cookie = Some v" "cut CHR ''.'' v = Some (a, b)"
    and d: "b64_decode URLAlphabet a = Some p" "b64_decode URLAlphabet b = Some (mac p)"
    using assms(2) by (auto simp: verified_payload_def split: option.splits if_splits)
  from cut_SomeD [OF v(2)] have "v = a @ CHR ''.'' # b" "CHR ''.'' \<notin> set a" by auto
  with v(1) d assms(1) show ?thesis unfolding unforged_def by blast
qed

lemma unforged_signed: "p \<in> known \<Longrightarrow> unforged mac known (Some (encode_token mac p))"
proof -
  assume p: "p \<in> known"
  have "cut CHR ''.'' (encode_token mac p) = Some (b64_encode URLAlphabet p, b64_encode URLAlphabet (mac p))"
    by (simp add: encode_token_def cut_dot_token)
  then have "q = p" if "encode_token mac p = a @ CHR ''.'' # b" "CHR ''.'' \<notin> set a"
      "b64_decode URLAlphabet a = Some q" for a b q
    using that by (auto simp: b64_decode_encode)
  with p show ?thesis unfolding unforged_def by blast
qed

definition after_unlock :: "(auth_error + string option) \<Rightarrow> gate \<Rightarrow> time \<Rightarrow> 'b service \<Rightarrow> 'b service" where
  "after_unlock r g' t2 s =
     (case r of
        Inr (Some _) \<Rightarrow>
          s\<lparr>the_gate := g', clock := t2, signed := insert (session_payload t2 t2) (signed s),
            typed := insert t2 (typed s)\<rparr>
      | _ \<Rightarrow> s\<lparr>the_gate := g', clock := t2\<rparr>)"

definition after_request :: "string option \<Rightarrow> time \<Rightarrow> 'b service \<Rightarrow> 'b service" where
  "after_request p t4 s =
     (case p of
        None \<Rightarrow> s\<lparr>clock := t4\<rparr>
      | Some payload \<Rightarrow> s\<lparr>clock := t4, signed := insert payload (signed s)\<rparr>)"

inductive serve_step :: "'b gate_ext \<Rightarrow> (string \<Rightarrow> string) \<Rightarrow> 'b service \<Rightarrow> 'b service \<Rightarrow> bool"
  for w mac where
  unlock:
    "clock s \<le> t1 \<Longrightarrow> t1 \<le> t2 \<Longrightarrow>
     try_unlock w mac (disk s) key pw busy t1 t2 (the_gate s) = (r, g') \<Longrightarrow>
     serve_step w mac s (after_unlock r g' t2 s)"
| change:
    "clock s \<le> t1 \<Longrightarrow> t1 \<le> t2 \<Longrightarrow>
     change_password w key cur new salt busy t1 t2 (the_gate s, disk s) = (r', (g', fs')) \<Longrightarrow>
     serve_step w mac s (s\<lparr>the_gate := g', disk := fs', clock := t2\<rparr>)"
| initial:
    "setup_password w token pw salt random (the_gate s, disk s) = (r', (g', fs')) \<Longrightarrow>
     serve_step w mac s (s\<lparr>the_gate := g', disk := fs'\<rparr>)"
| announce:
    "announce_setup_token w (disk s) (the_gate s) = (a, g') \<Longrightarrow> serve_step w mac s (s\<lparr>the_gate := g'\<rparr>)"
| admit:
    "clock s \<le> t1 \<Longrightarrow> t1 \<le> t2 \<Longrightarrow> t2 \<le> t3 \<Longrightarrow> t3 \<le> t4 \<Longrightarrow> unforged mac (signed s) cookie \<Longrightarrow>
     require_password w mac (the_gate s) (disk s) cookie t1 t2 t3 t4 = Admit c \<Longrightarrow>
     serve_step w mac s (after_request (refresh_payload mac cookie t3 t4) t4 s)"
| elsewhere:
    "clock s \<le> t \<Longrightarrow> serve_step w mac s (s\<lparr>disk := fs', clock := t\<rparr>)"

definition boot :: "gate \<Rightarrow> 'b fs \<Rightarrow> time \<Rightarrow> 'b service" where
  "boot g fs t = \<lparr>the_gate = g, disk = fs, clock = t, signed = {}, typed = {}\<rparr>"

inductive serve_reach :: "'b gate_ext \<Rightarrow> (string \<Rightarrow> string) \<Rightarrow> 'b service \<Rightarrow> bool" for w mac where
  boot: "serve_reach w mac (boot g fs t)"
| step: "serve_reach w mac s \<Longrightarrow> serve_step w mac s s' \<Longrightarrow> serve_reach w mac s'"

section \<open>Every signed payload goes back to a typed password\<close>

text \<open>
  A signed payload names a moment a password was typed, to the second, and a refresh inside that
  session's lifetime.
\<close>

definition rooted :: "time set \<Rightarrow> time \<Rightarrow> string \<Rightarrow> bool" where
  "rooted ts now p \<longleftrightarrow>
     (\<exists>t r. t \<in> ts \<and> t \<le> now \<and> r \<le> now \<and> p = session_payload t r)"

definition sessions_inv :: "'b service \<Rightarrow> bool" where
  "sessions_inv s \<longleftrightarrow> (\<forall>p \<in> signed s. rooted (typed s) (clock s) p)"

lemma rooted_mono:
  assumes "rooted ts now p" "ts \<subseteq> us" "now \<le> now'"
  shows "rooted us now' p"
proof -
  obtain t r where "t \<in> ts" "t \<le> now" "r \<le> now" "p = session_payload t r"
    using assms(1) by (auto simp: rooted_def)
  then have "t \<in> us \<and> t \<le> now' \<and> r \<le> now' \<and> p = session_payload t r" using assms(2,3) by auto
  then show ?thesis unfolding rooted_def by blast
qed

lemma session_payload_whole: "session_payload (of_unix (unix t)) r = session_payload t r"
  by (simp add: session_payload_def of_unix_def unix_def second_def)

lemma refresh_payload_rooted:
  assumes "refresh_payload mac cookie t3 t4 = Some q" "unforged mac known cookie"
    and "\<forall>p \<in> known. rooted ts now p" "now \<le> t4"
  shows "rooted ts t4 q"
proof -
  obtain o' r where tt: "token_times mac cookie t3 = Some (o', r)" and q: "q = session_payload o' t4"
    using assms(1) by (auto simp: refresh_payload_def split: option.splits prod.splits if_splits)
  then obtain p where p: "verified_payload mac cookie = Some p" "payload_times p = Some (o', r)"
    by (auto simp: token_times_def split: option.splits prod.splits if_splits)
  then have "p \<in> known" using unforged_payload [OF assms(2)] by simp
  with assms(3) obtain t r' where t: "t \<in> ts" "t \<le> now" "p = session_payload t r'"
    by (auto simp: rooted_def)
  then have "o' = of_unix (unix t)" using p(2) by (auto simp: payload_times_session split: if_splits)
  then have "q = session_payload t t4" by (simp add: q session_payload_whole)
  then show ?thesis using t assms(4) by (auto simp: rooted_def)
qed

lemma inv_serve_step: "serve_step w mac s s' \<Longrightarrow> sessions_inv s \<Longrightarrow> sessions_inv s'"
proof (induction rule: serve_step.induct)
  case (unlock s t1 t2 key pw busy r g')
  have "rooted (insert t2 (typed s)) t2 (session_payload t2 t2)" by (auto simp: rooted_def)
  with unlock show ?case
    by (auto simp: sessions_inv_def after_unlock_def split: sum.splits option.splits
        intro: rooted_mono [where ts = "typed s" and now = "clock s"])
next
  case (admit s t1 t2 t3 t4 cookie c)
  have "refresh_payload mac cookie t3 t4 = Some q \<Longrightarrow> rooted (typed s) t4 q" for q
    using admit refresh_payload_rooted [of mac cookie t3 t4 q "signed s" "typed s" "clock s"]
    by (simp add: sessions_inv_def)
  with admit show ?case
    by (auto simp: sessions_inv_def after_request_def split: option.splits
        intro: rooted_mono [where ts = "typed s" and now = "clock s"])
qed (auto simp: sessions_inv_def intro: rooted_mono)

lemma sessions_inv_reach: "serve_reach w mac s \<Longrightarrow> sessions_inv s"
  by (induction rule: serve_reach.induct) (simp_all add: inv_serve_step, simp add: sessions_inv_def boot_def)

lemma session_behind_admission:
  assumes "serve_reach w mac s" and "clock s \<le> t1" "t1 \<le> t2" and "unforged mac (signed s) cookie"
    and "require_password w mac (the_gate s) (disk s) cookie t1 t2 t3 t4 = Admit c"
  shows "configured w (the_gate s) (disk s) \<and>
    (\<exists>t. t \<in> typed s \<and> t \<le> t2 \<and> t2 < t + max_session_lifetime)"
proof -
  have cf: "configured w (the_gate s) (disk s)" and "unlocked_until mac cookie t1 t2 \<noteq> None"
    using assms(5) by (auto simp: require_password_def split: if_splits)
  then obtain d where "unlocked_until mac cookie t1 t2 = Some d" by blast
  from unlocked_until_facts [OF this] obtain p o' r where
    p: "verified_payload mac cookie = Some p" "payload_times p = Some (o', r)"
    and d: "t2 < d" "d = min (r + session_ttl) (o' + max_session_lifetime)" by blast
  have "p \<in> signed s" by (rule unforged_payload [OF assms(4) p(1)])
  then have "rooted (typed s) (clock s) p"
    using sessions_inv_reach [OF assms(1)] by (simp add: sessions_inv_def)
  then obtain t r' where t: "t \<in> typed s" "t \<le> clock s" "p = session_payload t r'"
    by (auto simp: rooted_def)
  then have "o' = of_unix (unix t)" using p(2) by (auto simp: payload_times_session split: if_splits)
  then have "o' \<le> t" using unix_le by simp
  then have "t2 < t + max_session_lifetime" using d by simp
  moreover have "t \<le> t2" using t(2) assms(2,3) by simp
  ultimately show ?thesis using cf t(1) by blast
qed

text \<open>
  C1.  Whenever the gate passes a request on, a password is configured, and a password was typed and
  verified less than twelve hours before, however often the session was refreshed since.
\<close>

theorem admitted_after_password:
  assumes "serve_reach w mac s" and "clock s \<le> t1" "t1 \<le> t2" and "unforged mac (signed s) cookie"
    and "require_password w mac (the_gate s) (disk s) cookie t1 t2 t3 t4 = Admit c"
  shows "configured w (the_gate s) (disk s) \<and>
    (\<exists>t. t \<in> typed s \<and> t \<le> t2 \<and> t2 < t + max_session_lifetime)"
  by (rule session_behind_admission [OF assms])

definition unlocked_service :: "string service" where
  "unlocked_service =
     after_unlock (Inr (Some (issue_token id second))) file_gate second
       (boot file_gate (hash_fs sample_hash) 0)"

lemma unlocked_service_reach: "serve_reach sample_ext id unlocked_service"
proof -
  have "current_hash sample_ext file_gate (hash_fs sample_hash) = sample_hash"
    using hash_fs_current [of "attempts file_gate"] by simp
  then have "try_unlock sample_ext id (hash_fs sample_hash) ''k'' ''pw'' False 0 second file_gate =
      (Inr (Some (issue_token id second)), file_gate)"
    by (simp add: try_unlock_def Let_def rate_limited_def sample_verify record_success_def)
  then have "serve_step sample_ext id (boot file_gate (hash_fs sample_hash) 0) unlocked_service"
    unfolding unlocked_service_def
    by (intro serve_step.unlock [where ?t1.0 = 0]) (simp_all add: boot_def second_def)
  then show ?thesis by (rule serve_reach.step [OF serve_reach.boot])
qed

lemma unlocked_service_simps:
  "the_gate unlocked_service = file_gate" "disk unlocked_service = hash_fs sample_hash"
  "clock unlocked_service = second" "signed unlocked_service = {session_payload second second}"
  by (simp_all add: unlocked_service_def after_unlock_def boot_def)

lemma unlocked_service_unforged: "unforged id (signed unlocked_service) (Some (issue_token id second))"
  unfolding issue_token_def mint_token_def by (rule unforged_signed) (simp add: unlocked_service_simps)

lemma unlocked_service_admits:
  "\<exists>c. require_password sample_ext id (the_gate unlocked_service) (disk unlocked_service)
      (Some (issue_token id second)) (600 * second) (600 * second) (600 * second) (600 * second) = Admit (Some c)"
proof -
  let ?tok = "Some (issue_token id second)" and ?t = "600 * second"
  have "token_times id ?tok ?t = Some (second, second)"
    using token_times_mint [of second second ?t id] by (simp add: issue_token_def in_int64_def time_defs)
  then have u: "unlocked_until id ?tok ?t ?t = Some (second + session_ttl)"
    and r: "\<exists>c. refresh_cookie id ?tok ?t ?t = Some c"
    by (simp_all add: unlocked_until_def refresh_cookie_def refresh_payload_def Let_def) (simp_all add: time_defs)
  have "configured sample_ext file_gate (hash_fs sample_hash)"
    using hash_fs_current [of "attempts file_gate"] by (simp add: configured_def)
  then show ?thesis using u r by (simp add: require_password_def unlocked_service_simps)
qed

theorem admitted_after_password_witness:
  "\<exists>c. require_password sample_ext id (the_gate unlocked_service) (disk unlocked_service)
      (Some (issue_token id second)) (600 * second) (600 * second) (600 * second) (600 * second) = Admit (Some c) \<and>
    (\<exists>t. t \<in> typed unlocked_service \<and> 600 * second < t + max_session_lifetime)"
  using unlocked_service_admits admitted_after_password [OF unlocked_service_reach, of "600 * second" "600 * second"
    "Some (issue_token id second)" "600 * second" "600 * second"] unlocked_service_unforged
  by (fastforce simp: unlocked_service_simps second_def)

end
