(* ===== verification/Router.thy ===== *)
theory Router
  imports Serve_Mux Auth_Session
begin

text \<open>
  \<open>newMux\<close> and \<open>newHandler\<close> of \<open>main.go\<close>: the table of routes, the wrapper \<open>RequirePassword\<close> on those
  that have it, and \<open>CrossOriginProtection\<close> around all of them.  A handler is named by its Go function.
\<close>

record mux_route =
  gated :: bool
  handler :: string

definition behind_gate :: "string \<Rightarrow> string \<Rightarrow> mux_route entry" where
  "behind_gate pat h = (parse_pattern pat, \<lparr>gated = True, handler = h\<rparr>)"

definition open_to_all :: "string \<Rightarrow> string \<Rightarrow> mux_route entry" where
  "open_to_all pat h = (parse_pattern pat, \<lparr>gated = False, handler = h\<rparr>)"

definition new_mux :: "mux_route entry list" where
  "new_mux =
     [open_to_all ''GET /api/system/env-version'' ''handleEnvVersion'',
      open_to_all ''GET /api/vhost-pwa/{name}/manifest'' ''handleVhostManifest'',
      open_to_all ''POST /api/system/env-version/dismiss'' ''handleDismissEnvVersion'',
      open_to_all ''POST /api/auth/unlock'' ''handleAuthUnlock'',
      open_to_all ''GET /api/auth/status'' ''handleAuthStatus'',
      open_to_all ''POST /api/auth/setup'' ''handleAuthSetup'',
      open_to_all ''POST /api/auth/change'' ''handleAuthChange'',
      open_to_all ''GET /api/tailscale/state'' ''handleTailscaleState'',
      behind_gate ''GET /api/tailscale/config'' ''handleGetTailscaleConfig'',
      behind_gate ''PUT /api/tailscale/config'' ''handlePutTailscaleConfig'',
      behind_gate ''GET /api/tailscale/forwards'' ''handleListTailscaleForwards'',
      behind_gate ''POST /api/tailscale/forwards'' ''handleAddTailscaleForward'',
      behind_gate ''PUT /api/tailscale/forwards/{name}'' ''handleUpdateTailscaleForward'',
      behind_gate ''DELETE /api/tailscale/forwards/{name}'' ''handleDeleteTailscaleForward'',
      behind_gate ''GET /api/tailscale/publish'' ''handleListTailscalePublish'',
      behind_gate ''POST /api/tailscale/publish'' ''handleAddTailscalePublish'',
      behind_gate ''PUT /api/tailscale/publish/{name}'' ''handleUpdateTailscalePublish'',
      behind_gate ''DELETE /api/tailscale/publish/{name}'' ''handleDeleteTailscalePublish'',
      behind_gate ''GET /api/tailscale/status'' ''handleTailscaleStatus'',
      behind_gate ''POST /api/tailscale/login/start'' ''handleTailscaleLoginStart'',
      behind_gate ''POST /api/tailscale/login/cancel'' ''handleTailscaleLoginCancel'',
      behind_gate ''GET /api/dev-proxy/exposes'' ''handleListDevProxyExposes'',
      behind_gate ''POST /api/dev-proxy/exposes'' ''handleCreateDevProxyExpose'',
      behind_gate ''PUT /api/dev-proxy/exposes/{name}'' ''handleUpdateDevProxyExpose'',
      behind_gate ''DELETE /api/dev-proxy/exposes/{name}'' ''handleDeleteDevProxyExpose'',
      behind_gate ''POST /api/dev-proxy/reload'' ''handleReloadDevProxy'',
      behind_gate ''GET /api/app-routes/apps'' ''handleListAppRoutes'',
      behind_gate ''POST /api/app-routes/apps'' ''handleCreateAppRoute'',
      behind_gate ''PUT /api/app-routes/apps/{name}'' ''handleUpdateAppRoute'',
      behind_gate ''DELETE /api/app-routes/apps/{name}'' ''handleDeleteAppRoute'',
      behind_gate ''POST /api/app-routes/reload'' ''handleReloadAppRoutes'',
      behind_gate ''GET /api/vnc/targets'' ''handleListVncTargets'',
      behind_gate ''POST /api/vnc/targets'' ''handleCreateVncTarget'',
      behind_gate ''PUT /api/vnc/targets/{name}'' ''handleUpdateVncTarget'',
      behind_gate ''DELETE /api/vnc/targets/{name}'' ''handleDeleteVncTarget'',
      behind_gate ''GET /api/vnc/targets/{name}/ws'' ''handleVncSocket'',
      behind_gate ''GET /api/vnc/targets/{name}/clients'' ''handleListVncClients'',
      behind_gate ''DELETE /api/vnc/targets/{name}/clients/{id}'' ''handleDeleteVncClient'',
      behind_gate ''GET /api/tinyauth/users'' ''handleListTinyauthUsers'',
      behind_gate ''POST /api/tinyauth/users'' ''handleAddTinyauthUser'',
      behind_gate ''PUT /api/tinyauth/users/{name}/password'' ''handleSetTinyauthUserPassword'',
      behind_gate ''DELETE /api/tinyauth/users/{name}'' ''handleDeleteTinyauthUser'',
      behind_gate ''GET /api/dns/blocklist-sources'' ''handleListBlocklistSources'',
      behind_gate ''POST /api/dns/blocklist-sources'' ''handleCreateBlocklistSource'',
      behind_gate ''PUT /api/dns/blocklist-sources/{name}'' ''handleUpdateBlocklistSource'',
      behind_gate ''DELETE /api/dns/blocklist-sources/{name}'' ''handleDeleteBlocklistSource'',
      behind_gate ''GET /api/dns/blocklist-sources/builtin/status'' ''handleBuiltinBlocklistStatus'',
      behind_gate ''POST /api/dns/blocklist-sources/builtin/pull'' ''handleBuiltinBlocklistPull'',
      behind_gate ''POST /api/dns/blocklist-sources/builtin/ignore'' ''handleBuiltinBlocklistIgnore'',
      behind_gate ''GET /api/dns/custom-hosts'' ''handleListCustomHosts'',
      behind_gate ''PUT /api/dns/custom-hosts'' ''handleSetCustomHosts'',
      behind_gate ''GET /api/dns/resolver'' ''handleGetResolverConfig'',
      behind_gate ''PUT /api/dns/resolver'' ''handleSetResolverConfig'',
      behind_gate ''GET /api/dns/query'' ''handleDNSQuery'',
      behind_gate ''GET /api/netgate/outbound'' ''handleListNetgateOutbound'',
      behind_gate ''PUT /api/netgate/outbound'' ''handleReplaceNetgateOutbound'',
      behind_gate ''GET /api/netgate/forwards'' ''handleListNetgateForwards'',
      behind_gate ''POST /api/netgate/forwards'' ''handleAddNetgateForward'',
      behind_gate ''DELETE /api/netgate/forwards/{hostPort}'' ''handleDeleteNetgateForward'',
      behind_gate ''GET /api/netgate/bandwidth'' ''handleGetNetgateBandwidth'',
      behind_gate ''PUT /api/netgate/bandwidth'' ''handleSetNetgateBandwidth'',
      open_to_all ''GET /novnc/{path...}'' ''novncHandler'',
      open_to_all ''GET /'' ''staticHandler'']"

datatype front_answer =
    CrossOrigin403
  | FromMux "mux_route mux_answer"
  | Refused gate_answer
  | Reached mux_route "string list" "set_cookie option"

text \<open>\<open>newHandler\<close>: what becomes of a request before a handler runs.\<close>

definition new_handler ::
    "'b gate_ext \<Rightarrow> (string \<Rightarrow> string) \<Rightarrow> gate \<Rightarrow> 'b fs \<Rightarrow> http_request \<Rightarrow>
       time \<Rightarrow> time \<Rightarrow> time \<Rightarrow> time \<Rightarrow> front_answer" where
  "new_handler w mac g fs req t1 t2 t3 t4 =
     (if \<not> cross_origin_ok req then CrossOrigin403
      else case find_handler new_mux (req_method req) (req_path req) of
        Routed e vs \<Rightarrow>
          if gated (snd e) then
            (case require_password w mac g fs (unlock_value req) t1 t2 t3 t4 of
               Admit c \<Rightarrow> Reached (snd e) vs c
             | r \<Rightarrow> Refused r)
          else Reached (snd e) vs None
      | a \<Rightarrow> FromMux a)"

section \<open>What is open\<close>

definition open_handlers :: "(string \<times> string) list" where
  "open_handlers =
     [(''GET'', ''handleEnvVersion''),
      (''GET'', ''handleVhostManifest''),
      (''POST'', ''handleDismissEnvVersion''),
      (''POST'', ''handleAuthUnlock''),
      (''GET'', ''handleAuthStatus''),
      (''POST'', ''handleAuthSetup''),
      (''POST'', ''handleAuthChange''),
      (''GET'', ''handleTailscaleState''),
      (''GET'', ''novncHandler''),
      (''GET'', ''staticHandler'')]"

lemma open_routes:
  "map (\<lambda>e. (fst (fst e), handler (snd e))) (filter (\<lambda>e. \<not> gated (snd e)) new_mux) = open_handlers"
  by code_simp

lemma gated_handlers_differ:
  "list_all (\<lambda>e. gated (snd e) \<longrightarrow> handler (snd e) \<notin> set (map snd open_handlers)) new_mux"
  by code_simp

text \<open>No two routes of a method overlap, the catch-all apart.\<close>

lemma new_mux_distinct:
  "list_all (\<lambda>m. no_overlap (filter (\<lambda>e. \<not> is_multi (fst e)) (of_method m new_mux)))
     [''GET'', ''POST'', ''PUT'', ''DELETE'']"
  by code_simp

lemma new_mux_methods:
  "list_all (\<lambda>e. fst (fst e) \<in> set [''GET'', ''POST'', ''PUT'', ''DELETE'']) new_mux"
  by code_simp

lemma new_mux_parts: "list_all (\<lambda>e. snd (fst e) \<noteq> [] \<and> hd (snd (fst e)) \<in> set [Lit ''api'', Lit ''novnc'', Multi []]) new_mux"
  by code_simp

text \<open>
  C29.  Every route of literals and names is reached by its own requests and by no mistake another's: the path
  made from its pattern and any values other than the empty one, \<open>/\<close>, \<open>.\<close> and \<open>..\<close>, each percent-escaped,
  is routed to it with exactly these values.
\<close>

theorem route_reached:
  assumes "((m, p), r) \<in> set new_mux" "plain_pattern p"
    and "length vs = wild_count p" "list_all segment_value vs"
  shows "find_handler new_mux m (path_of p vs) = Routed ((m, p), r) vs"
proof (rule find_handler_path_of)
  have "m \<in> set [''GET'', ''POST'', ''PUT'', ''DELETE'']"
    using new_mux_methods assms(1) by (fastforce simp: list_all_iff)
  then have "no_overlap (filter (\<lambda>e. \<not> is_multi (fst e)) (of_method m new_mux))"
    using new_mux_distinct by (auto simp: list_all_iff)
  then show "alone_in new_mux ((m, p), r)"
    by (rule alone_in_if) (use assms(1) plain_not_multi [OF assms(2)] in auto)
  have "p \<noteq> [] \<and> hd p \<in> {Lit ''api'', Lit ''novnc'', Multi []}"
    using new_mux_parts assms(1) by (fastforce simp: list_all_iff)
  then show "path_parts p vs \<noteq> []" using assms(2) by (cases p) auto
qed (use assms in auto)

definition escaped_name :: string where "escaped_name = ''a/b %''"

theorem route_reached_witness:
  "find_handler new_mux ''DELETE'' ''/api/netgate/forwards/a%2Fb%20%25'' =
     Routed (behind_gate ''DELETE /api/netgate/forwards/{hostPort}'' ''handleDeleteNetgateForward'') [escaped_name]"
proof -
  let ?p = "[Lit ''api'', Lit ''netgate'', Lit ''forwards'', Wild ''hostPort'']"
  let ?r = "\<lparr>gated = True, handler = ''handleDeleteNetgateForward''\<rparr>"
  have pat: "behind_gate ''DELETE /api/netgate/forwards/{hostPort}'' ''handleDeleteNetgateForward'' = ((''DELETE'', ?p), ?r)"
    and path: "path_of ?p [escaped_name] = ''/api/netgate/forwards/a%2Fb%20%25''"
    and ok: "plain_pattern ?p" "list_all segment_value [escaped_name]" "length [escaped_name] = wild_count ?p"
    by code_simp+
  have "((''DELETE'', ?p), ?r) \<in> set new_mux"
    unfolding pat [symmetric] new_mux_def by (simp del: behind_gate_def)
  from route_reached [OF this ok(1,3,2)] show ?thesis by (simp only: pat path)
qed

section \<open>What stands before a handler\<close>

definition same_origin :: "http_request \<Rightarrow> bool" where
  "same_origin r \<longleftrightarrow>
     sec_fetch_site r = ''same-origin'' \<or> sec_fetch_site r = ''none'' \<or>
     sec_fetch_site r = [] \<and> (origin_header r = [] \<or> (\<exists>sch. url_parse (origin_header r) = Some (sch, req_host r)))"

lemma cross_origin_ok_iff: "cross_origin_ok r \<longleftrightarrow> safe_method (req_method r) \<or> same_origin r"
  by (auto simp: cross_origin_ok_def same_origin_def split: option.splits)

text \<open>
  C3.  A request that reaches a handler is of one of two kinds.  Either its handler is one of the ten open
  ones, none of which serves a gated route too; or a password is configured and was typed and verified less
  than twelve hours before.  If its method is not a safe one, no browser sent it for another origin.
\<close>

theorem request_guarded:
  assumes "serve_reach w mac s" "clock s \<le> t1" "t1 \<le> t2" "unforged mac (signed s) (unlock_value req)"
    and "new_handler w mac (the_gate s) (disk s) req t1 t2 t3 t4 = Reached r vs c"
  shows "(if gated r
      then handler r \<notin> set (map snd open_handlers) \<and> configured w (the_gate s) (disk s) \<and>
        (\<exists>t. t \<in> typed s \<and> t \<le> t2 \<and> t2 < t + max_session_lifetime)
      else handler r \<in> set (map snd open_handlers)) \<and>
    (safe_method (req_method req) \<or> same_origin req)"
proof -
  have co: "cross_origin_ok req" using assms(5) by (auto simp: new_handler_def split: if_splits)
  obtain e where f: "find_handler new_mux (req_method req) (req_path req) = Routed e vs" "r = snd e"
    and g: "gated r \<Longrightarrow> require_password w mac (the_gate s) (disk s) (unlock_value req) t1 t2 t3 t4 = Admit c"
    using assms(5) co
    by (auto simp: new_handler_def split: mux_answer.splits if_splits gate_answer.splits)
  have e: "e \<in> set new_mux" using find_handler_sound [OF f(1)] by blast
  show ?thesis
  proof (cases "gated r")
    case True
    then have "handler r \<notin> set (map snd open_handlers)"
      using gated_handlers_differ e f(2) by (auto simp: list_all_iff)
    with True session_behind_admission [OF assms(1-4) g [OF True]] co show ?thesis
      by (simp add: cross_origin_ok_iff)
  next
    case False
    then have "(fst (fst e), handler r) \<in> set open_handlers"
      using e f(2) unfolding open_routes [symmetric] by force
    with False co show ?thesis by (force simp: cross_origin_ok_iff)
  qed
qed

text \<open>A request of the operator with the cookie of an unlocked session, from the page of router-manager.\<close>

definition operator_request :: http_request where
  "operator_request =
     \<lparr>req_method = ''DELETE'', req_host = ''router.example'', req_path = ''/api/netgate/forwards/8080'',
      sec_fetch_site = [], origin_header = ''https://router.example'',
      unlock_value = Some (issue_token id second)\<rparr>"

lemma operator_request_routed:
  "find_handler new_mux (req_method operator_request) (req_path operator_request) =
     Routed (behind_gate ''DELETE /api/netgate/forwards/{hostPort}'' ''handleDeleteNetgateForward'') [''8080'']"
  "cross_origin_ok operator_request" "\<not> safe_method (req_method operator_request)"
  by code_simp+

theorem request_guarded_witness:
  "\<exists>r c. new_handler sample_ext id (the_gate unlocked_service) (disk unlocked_service) operator_request
      (600 * second) (600 * second) (600 * second) (600 * second) = Reached r [''8080''] c \<and>
    handler r = ''handleDeleteNetgateForward'' \<and> same_origin operator_request \<and>
    (\<exists>t. t \<in> typed unlocked_service \<and> 600 * second < t + max_session_lifetime)"
proof -
  let ?t = "600 * second"
  have tok: "unlock_value operator_request = Some (issue_token id second)"
    by (simp add: operator_request_def)
  obtain c where "require_password sample_ext id (the_gate unlocked_service) (disk unlocked_service)
      (unlock_value operator_request) ?t ?t ?t ?t = Admit (Some c)"
    using unlocked_service_admits by (auto simp: tok)
  then have run: "new_handler sample_ext id (the_gate unlocked_service) (disk unlocked_service) operator_request ?t ?t ?t ?t =
      Reached \<lparr>gated = True, handler = ''handleDeleteNetgateForward''\<rparr> [''8080''] (Some c)"
    by (simp add: new_handler_def operator_request_routed behind_gate_def)
  show ?thesis
    using run request_guarded [OF unlocked_service_reach _ _ _ run] operator_request_routed(3) unlocked_service_unforged
    by (fastforce simp: unlocked_service_simps tok second_def)
qed

text \<open>The request for \<open>/novnc\<close> without its slash is redirected by the mux.\<close>

lemma novnc_redirected: "find_handler new_mux ''GET'' ''/novnc'' = MuxRedirect ''/novnc/''"
  by code_simp

lemma routing_samples:
  "find_handler new_mux ''GET'' ''/api//auth/./status'' = MuxRedirect ''/api/auth/status''"
  "find_handler new_mux ''POST'' ''/api/tailscale/state'' = NoRoute"
  "find_handler new_mux ''HEAD'' ''/api/auth/status'' = Routed (open_to_all ''GET /api/auth/status'' ''handleAuthStatus'') []"
  "find_handler new_mux ''GET'' ''/novnc/core/rfb.js'' = Routed (open_to_all ''GET /novnc/{path...}'' ''novncHandler'') [''core/rfb.js'']"
  by code_simp+

end
