(* ===== verification/Auth_Api.thy ===== *)
theory Auth_Api
  imports Router Http_Reply
begin

text \<open>
  \<open>handlers_auth.go\<close>: who a request is counted as, and the handlers of unlock, status, setup and change.
  A decoded request body is \<open>None\<close> when its JSON does not decode.
\<close>

section \<open>Who is asking\<close>

definition peer_key :: "string \<Rightarrow> string" where
  "peer_key remote_addr = (case split_host_port remote_addr of None \<Rightarrow> remote_addr | Some (host, _) \<Rightarrow> host)"

definition rate_limit_key :: "bool \<Rightarrow> string \<Rightarrow> string \<Rightarrow> string" where
  "rate_limit_key listener_is_unix real_ip remote_addr =
     (if listener_is_unix then
        (let ip = trim_space real_ip in if ip \<noteq> [] then ip else peer_key remote_addr)
      else peer_key remote_addr)"

definition app_origin :: "env \<Rightarrow> string" where
  "app_origin env =
     (let raw = trim_space (env ''ROUTER_APP_ORIGIN'')
      in if raw = [] then []
         else case web_url raw of
                None \<Rightarrow> []
              | Some (scheme, host) \<Rightarrow> scheme @ ''://'' @ host)"

definition trusted_hosts :: "env \<Rightarrow> string list" where
  "trusted_hosts env =
     (let raw = env ''ROUTER_MANAGER_HOSTS''
      in if raw = [] then []
         else filter (\<lambda>h. h \<noteq> []) (map trim_space (split_on CHR '','' raw)))"

section \<open>The handlers\<close>

datatype auth_message =
    AuthInvalidBody
  | IncorrectPassword
  | IncorrectCurrentPassword
  | AlreadyConfigured
  | BadSetupToken
  | PinnedByEnv
  | NotConfiguredYet
  | AuthFailed auth_error

record auth_status =
  required :: bool
  auth_source :: string
  unlocked :: bool
  unlocked_until_time :: "time option"
  trusted :: "string list"
  request_host :: string
  origin_of_app :: string

datatype auth_value = AuthOk | Unlocked set_cookie | AuthStatus auth_status

type_synonym auth_reply = "(auth_message, auth_value) reply"

text \<open>The cookie of \<open>SetCookie\<close> is part of the answer \<open>Unlocked\<close>.\<close>

definition handle_auth_unlock ::
    "'b gate_ext \<Rightarrow> (string \<Rightarrow> string) \<Rightarrow> 'b fs \<Rightarrow> string \<Rightarrow> string option \<Rightarrow> bool \<Rightarrow> time \<Rightarrow> time \<Rightarrow> gate \<Rightarrow>
       auth_reply \<times> gate" where
  "handle_auth_unlock w mac fs key body busy t1 t2 g =
     (case body of
        None \<Rightarrow> ((400, ErrorBody AuthInvalidBody), g)
      | Some password \<Rightarrow>
          (case try_unlock w mac fs key password busy t1 t2 g of
             (Inl e, g') \<Rightarrow> ((if is_rate_limited e then 429 else 500, ErrorBody (AuthFailed e)), g')
           | (Inr None, g') \<Rightarrow> ((401, ErrorBody IncorrectPassword), g')
           | (Inr (Some token), g') \<Rightarrow> ((200, Body (Unlocked (unlock_cookie token))), g')))"

text \<open>The second component is the setup token announced, if one is.\<close>

definition handle_auth_status ::
    "'b gate_ext \<Rightarrow> (string \<Rightarrow> string) \<Rightarrow> env \<Rightarrow> 'b fs \<Rightarrow> string \<Rightarrow> string option \<Rightarrow> time \<Rightarrow> time \<Rightarrow> gate \<Rightarrow>
       auth_reply \<times> string option \<times> gate" where
  "handle_auth_status w mac env fs host cookie t1 t2 g =
     (let (announced, g') = announce_setup_token w fs g;
          until = unlocked_until mac cookie t1 t2
      in ((200, Body (AuthStatus
             \<lparr>required = configured w g' fs, auth_source = gate_source w g' fs, unlocked = (until \<noteq> None),
              unlocked_until_time = until, trusted = trusted_hosts env, request_host = host,
              origin_of_app = app_origin env\<rparr>)), announced, g'))"

definition handle_auth_setup ::
    "'b gate_ext \<Rightarrow> (string \<times> string) option \<Rightarrow> string option \<Rightarrow> string \<Rightarrow> gate \<times> 'b fs \<Rightarrow>
       auth_reply \<times> string option \<times> (gate \<times> 'b fs)" where
  "handle_auth_setup w body salt random s =
     (case body of
        None \<Rightarrow> ((400, ErrorBody AuthInvalidBody), None, s)
      | Some (token, password) \<Rightarrow>
          if password = [] then ((400, ErrorBody AuthInvalidBody), None, s)
          else let (g, fs) = s; (announced, g') = announce_setup_token w fs g
            in case setup_password w token password salt random (g', fs) of
                 (Inr _, s') \<Rightarrow> ((200, Body AuthOk), announced, s')
               | (Inl e, s') \<Rightarrow>
                   ((case e of
                       ErrAlreadyConfigured \<Rightarrow> (409, ErrorBody AlreadyConfigured)
                     | ErrBadSetupToken \<Rightarrow> (403, ErrorBody BadSetupToken)
                     | _ \<Rightarrow> (500, ErrorBody (AuthFailed e))), announced, s'))"

definition handle_auth_change ::
    "'b gate_ext \<Rightarrow> string \<Rightarrow> (string \<times> string) option \<Rightarrow> string option \<Rightarrow> bool \<Rightarrow> time \<Rightarrow> time \<Rightarrow>
       gate \<times> 'b fs \<Rightarrow> auth_reply \<times> (gate \<times> 'b fs)" where
  "handle_auth_change w key body salt busy t1 t2 s =
     (case body of
        None \<Rightarrow> ((400, ErrorBody AuthInvalidBody), s)
      | Some (current, new) \<Rightarrow>
          if new = [] then ((400, ErrorBody AuthInvalidBody), s)
          else case change_password w key current new salt busy t1 t2 s of
                 (Inr _, s') \<Rightarrow> ((200, Body AuthOk), s')
               | (Inl e, s') \<Rightarrow>
                   ((if is_rate_limited e then (429, ErrorBody (AuthFailed e))
                     else case e of
                       ErrEnvPinned \<Rightarrow> (409, ErrorBody PinnedByEnv)
                     | ErrNotConfigured \<Rightarrow> (409, ErrorBody NotConfiguredYet)
                     | ErrWrongPassword \<Rightarrow> (401, ErrorBody IncorrectCurrentPassword)
                     | _ \<Rightarrow> (500, ErrorBody (AuthFailed e))), s'))"

section \<open>What the answers mean\<close>

text \<open>The origin handed to the frontend is empty or a plain one, whatever the variable holds.\<close>

lemma app_origin_plain:
  assumes "app_origin env \<noteq> []"
  shows "\<exists>sch h. app_origin env = sch @ ''://'' @ h \<and> (sch = ''http'' \<or> sch = ''https'') \<and> h \<noteq> [] \<and>
    (\<forall>c \<in> set h. c \<notin> set ''/?#@'' \<and> c \<noteq> CHR 0x5C \<and> 32 \<le> code c)"
proof -
  obtain sch h where w: "web_url (trim_space (env ''ROUTER_APP_ORIGIN'')) = Some (sch, h)"
    and o: "app_origin env = sch @ ''://'' @ h"
    using assms by (auto simp: app_origin_def Let_def split: if_splits option.splits)
  show ?thesis using web_url_sound [OF w] o by blast
qed

lemma trusted_hosts_names: "h \<in> set (trusted_hosts env) \<Longrightarrow> h \<noteq> [] \<and> CHR '','' \<notin> set h"
  using split_on_no_sep trim_space_set by (fastforce simp: trusted_hosts_def Let_def split: if_splits)

lemma unlock_200:
  assumes "handle_auth_unlock w mac fs key body busy t1 t2 g = ((200, Body (Unlocked ck)), g')"
  shows "\<exists>pw. body = Some pw \<and> verify_password (kdf_fn w) busy pw (current_hash w g fs) = Inr True" (is ?pw)
    and "ck = unlock_cookie (issue_token mac t2)" and "configured w g' fs"
proof -
  obtain pw tok where t: "body = Some pw" "try_unlock w mac fs key pw busy t1 t2 g = (Inr (Some tok), g')"
    and ck: "ck = unlock_cookie tok"
    using assms by (auto simp: handle_auth_unlock_def split: option.splits prod.splits sum.splits)
  have f: "current_hash w g fs \<noteq> []" "verify_password (kdf_fn w) busy pw (current_hash w g fs) = Inr True"
    "tok = issue_token mac t2" "g' = g\<lparr>attempts := record_success key (attempts g)\<rparr>"
    using t(2) by (auto simp: try_unlock_def Let_def split: if_splits option.splits sum.splits)
  show ?pw using t f by blast
  show "ck = unlock_cookie (issue_token mac t2)" using ck f by simp
  show "configured w g' fs" using f by (simp add: configured_def)
qed

text \<open>
  C21.  An answer 200 to an unlock carries a cookie that opens every gated route: until fifteen minutes after
  the second in which the password was verified, a request with it that is not cross-origin reaches the handler
  it is routed to.
\<close>

theorem unlock_opens_routes:
  assumes unlock: "handle_auth_unlock w mac fs key body busy t1 t2 g = ((200, Body (Unlocked ck)), g')"
    and clock: "in_int64 (unix t2)" "t2 \<le> u1" "u1 \<le> u2" "u2 < of_unix (unix t2) + session_ttl" "t2 \<le> u3"
    and req: "unlock_value req = Some (cookie_value ck)" "cross_origin_ok req"
      "find_handler new_mux (req_method req) (req_path req) = Routed e vs"
  shows "\<exists>c. new_handler w mac g' fs req u1 u2 u3 u4 = Reached (snd e) vs c"
proof -
  have tok: "unlock_value req = Some (mint_token mac t2 t2)"
    using req(1) unlock_200(2) [OF unlock] by (simp add: unlock_cookie_def issue_token_def)
  have "token_times mac (unlock_value req) u1 = Some (of_unix (unix t2), of_unix (unix t2))"
    unfolding tok by (rule token_times_mint) (use clock in auto)
  moreover have "session_ttl < max_session_lifetime" by (simp add: time_defs)
  ultimately have "unlocked_until mac (unlock_value req) u1 u2 \<noteq> None"
    using clock(4) by (simp add: unlocked_until_def Let_def)
  then have "\<exists>c. require_password w mac g' fs (unlock_value req) u1 u2 u3 u4 = Admit c"
    using unlock_200(3) [OF unlock] by (simp add: require_password_def)
  then show ?thesis using req(2,3) by (auto simp: new_handler_def)
qed

theorem unlock_opens_routes_witness:
  "\<exists>ck g'. handle_auth_unlock sample_ext id (hash_fs sample_hash) ''k'' (Some ''pw'') False 0 second file_gate =
      ((200, Body (Unlocked ck)), g') \<and>
    (\<exists>c. new_handler sample_ext id g' (hash_fs sample_hash)
       (operator_request\<lparr>unlock_value := Some (cookie_value ck)\<rparr>)
       (600 * second) (600 * second) (600 * second) (600 * second) =
       Reached \<lparr>gated = True, handler = ''handleDeleteNetgateForward''\<rparr> [''8080''] c)"
proof -
  let ?ck = "unlock_cookie (issue_token id second)" and ?t = "600 * second"
  have "current_hash sample_ext file_gate (hash_fs sample_hash) = sample_hash"
    using hash_fs_current [of "attempts file_gate"] by simp
  then have run: "handle_auth_unlock sample_ext id (hash_fs sample_hash) ''k'' (Some ''pw'') False 0 second file_gate =
      ((200, Body (Unlocked ?ck)), file_gate\<lparr>attempts := record_success ''k'' (attempts file_gate)\<rparr>)"
    by (simp add: handle_auth_unlock_def try_unlock_def Let_def rate_limited_def sample_verify)
  let ?req = "operator_request\<lparr>unlock_value := Some (cookie_value ?ck)\<rparr>"
  have "cross_origin_ok ?req" using operator_request_routed(2) by (simp add: cross_origin_ok_iff same_origin_def)
  moreover have "find_handler new_mux (req_method ?req) (req_path ?req) =
      Routed (behind_gate ''DELETE /api/netgate/forwards/{hostPort}'' ''handleDeleteNetgateForward'') [''8080'']"
    using operator_request_routed(1) by simp
  ultimately show ?thesis
    using run unlock_opens_routes [OF run, of ?t ?t ?t ?req _ _ ?t]
    by (fastforce simp: behind_gate_def in_int64_def time_defs)
qed

text \<open>Any other answer to a setup or a change leaves the effective hash, and an answer 200 to a setup had the token.\<close>

lemma write_stored_hash_keeps:
  "write_stored_hash c os p h fs = (Inl e, fs') \<Longrightarrow> fs' p = fs p"
  by (erule write_stored_hash_err) simp

lemma announce_setup_token_gate:
  "announce_setup_token w fs g = (a, g') \<Longrightarrow>
   env_hash g' = env_hash g \<and> store_path g' = store_path g \<and> setup_token g' = setup_token g \<and> attempts g' = attempts g"
  by (auto simp: announce_setup_token_def split: if_splits)

lemma current_hash_cong:
  "env_hash g' = env_hash g \<Longrightarrow> store_path g' = store_path g \<Longrightarrow> fs' (store_path g) = fs (store_path g) \<Longrightarrow>
   current_hash w g' fs' = current_hash w g fs"
  by (simp add: current_hash_def read_stored_hash_def read_file_def)

lemma auth_setup_outcomes:
  assumes "handle_auth_setup w body salt random (g, fs) = (r, a, g', fs')"
  shows "success r \<and> (\<exists>token pw h. body = Some (token, pw) \<and> normalize_setup_token token = setup_token g \<and>
       \<not> configured w g fs \<and> hash_password (kdf_fn w) salt pw = Inr h \<and>
       write_stored_hash (hash_codec w) (gate_os w) (store_path g) h fs = (Inr (), fs')) \<or>
     refusal r \<and> current_hash w g' fs' = current_hash w g fs"
proof (cases "\<exists>token pw. body = Some (token, pw) \<and> pw \<noteq> []")
  case False
  then show ?thesis using assms by (auto simp: handle_auth_setup_def split: option.splits prod.splits if_splits)
next
  case True
  then obtain token pw where b: "body = Some (token, pw)" "pw \<noteq> []" by blast
  obtain g1 where an: "announce_setup_token w fs g = (a, g1)"
    and run: "(case setup_password w token pw salt random (g1, fs) of
        (Inr _, s') \<Rightarrow> ((200, Body AuthOk), a, s')
      | (Inl e, s') \<Rightarrow>
          ((case e of
              ErrAlreadyConfigured \<Rightarrow> (409, ErrorBody AlreadyConfigured)
            | ErrBadSetupToken \<Rightarrow> (403, ErrorBody BadSetupToken)
            | _ \<Rightarrow> (500, ErrorBody (AuthFailed e))), a, s')) = (r, a, g', fs')"
    using assms b by (auto simp: handle_auth_setup_def split: prod.splits sum.splits)
  note k = announce_setup_token_gate [OF an]
  have c: "configured w g1 fs = configured w g fs" using k by (simp add: configured_def current_hash_def)
  show ?thesis
  proof -
    obtain res s1 where Pair: "setup_password w token pw salt random (g1, fs) = (res, s1)"
      by (meson surj_pair)
    show ?thesis
    proof (cases res)
      case (Inr u)
      then obtain h where "\<not> configured w g1 fs" "normalize_setup_token token = setup_token g1"
        "hash_password (kdf_fn w) salt pw = Inr h"
        "write_stored_hash (hash_codec w) (gate_os w) (store_path g1) h fs = (Inr (), snd s1)"
        using Pair by (cases s1) (auto simp: setup_eq_Inr)
      moreover have "r = (200, Body AuthOk)" "s1 = (g', fs')" using run Pair Inr by auto
      ultimately show ?thesis using k c b by auto
    next
      case (Inl e)
      have s1: "s1 = (g', fs')" and r: "refusal r"
        using run Pair Inl by (auto split: auth_error.splits)
      have "env_hash g' = env_hash g1 \<and> store_path g' = store_path g1 \<and> fs' (store_path g1) = fs (store_path g1)"
        using Pair Inl s1 by (auto simp: setup_password_def dest: write_stored_hash_keeps
            split: if_splits sum.splits prod.splits)
      then show ?thesis using k r current_hash_cong [of g' g fs' fs w] by simp
    qed
  qed
qed

end
