(* ===== verification/Semaphore.thy ===== *)
theory Semaphore
  imports Main
begin

text \<open>
  A counting semaphore made of a buffered channel, as the sources use it: the number of slots taken is
  that of the holders, of whom there are never more than the channel's capacity.
\<close>

definition sem_ok :: "nat \<Rightarrow> nat \<Rightarrow> 'a set \<Rightarrow> bool" where
  "sem_ok cap n hs \<longleftrightarrow> finite hs \<and> n = card hs \<and> n \<le> cap"

lemma sem_ok_empty: "sem_ok cap 0 {}"
  by (simp add: sem_ok_def)

lemma sem_ok_take: "sem_ok cap n hs \<Longrightarrow> i \<notin> hs \<Longrightarrow> n < cap \<Longrightarrow> sem_ok cap (Suc n) (insert i hs)"
  by (simp add: sem_ok_def)

lemma sem_ok_release: "sem_ok cap n hs \<Longrightarrow> i \<in> hs \<Longrightarrow> sem_ok cap (n - Suc 0) (hs - {i})"
  by (auto simp: sem_ok_def)

end
