(* ===== verification/Vnc_Socket.thy ===== *)
theory Vnc_Socket
  imports Caddy_Api Auth_Api Semaphore "HOL-Library.AList"
begin

text \<open>
  The socket half of \<open>handlers_vnc.go\<close>: the bridges between a viewer's WebSocket and a target's RFB port, the
  registry of the connected clients, and the window in which a disconnected one is refused.  A \<open>hub\<close> is
  the package's variables; each function that takes a mutex is one transition, and the life of one request of
  \<open>handleVncSocket\<close> is several, with the dial and the upgrade, which may fail, between them.  The bytes of a
  bridge and the WebSocket itself are not modelled.
\<close>

section \<open>The package's variables\<close>

record vnc_conn =
  vc_id :: int
  vc_ip :: string
  vc_agent :: string
  vc_connected :: time

text \<open>A target, an address and a user agent.\<close>

type_synonym kick_key = "string \<times> string \<times> string"

record hub =
  conns :: "string \<Rightarrow> (int \<times> vnc_conn) list option"
  next_conn_id :: int
  kick_until :: "kick_key \<Rightarrow> time option"
  slots_used :: nat

definition empty_hub :: hub where
  "empty_hub = \<lparr>conns = (\<lambda>_. None), next_conn_id = 0, kick_until = (\<lambda>_. None), slots_used = 0\<rparr>"

definition vnc_bridge_slots :: nat where "vnc_bridge_slots = 32"
definition vnc_kick_window :: time where "vnc_kick_window = 15 * second"

definition real_client_ip :: "string \<Rightarrow> string \<Rightarrow> string \<Rightarrow> string" where
  "real_client_ip x_real_ip x_forwarded_for remote_addr =
     (if x_real_ip \<noteq> [] then x_real_ip
      else if x_forwarded_for \<noteq> [] then
        (case cut CHR '','' x_forwarded_for of
           Some (first, _) \<Rightarrow> trim_space first
         | None \<Rightarrow> trim_space x_forwarded_for)
      else peer_key remote_addr)"

section \<open>The registry\<close>

definition conns_of :: "string \<Rightarrow> hub \<Rightarrow> (int \<times> vnc_conn) list" where
  "conns_of name h = (case conns h name of None \<Rightarrow> [] | Some m \<Rightarrow> m)"

definition register_vnc_conn :: "string \<Rightarrow> string \<Rightarrow> string \<Rightarrow> time \<Rightarrow> hub \<Rightarrow> int \<times> hub" where
  "register_vnc_conn name ip agent now h =
     (let cid = next_conn_id h + 1;
          c = \<lparr>vc_id = cid, vc_ip = ip, vc_agent = agent, vc_connected = now\<rparr>
      in (cid, h\<lparr>next_conn_id := cid, conns := (conns h)(name \<mapsto> AList.update cid c (conns_of name h))\<rparr>))"

definition deregister_vnc_conn :: "string \<Rightarrow> int \<Rightarrow> hub \<Rightarrow> hub" where
  "deregister_vnc_conn name cid h =
     (let m = AList.delete cid (conns_of name h)
      in h\<lparr>conns := (conns h)(name := (if m = [] then None else Some m))\<rparr>)"

section \<open>The kick window\<close>

definition prune_vnc_kicks :: "time \<Rightarrow> (kick_key \<Rightarrow> time option) \<Rightarrow> (kick_key \<Rightarrow> time option)" where
  "prune_vnc_kicks now m =
     (\<lambda>k. case m k of None \<Rightarrow> None | Some until \<Rightarrow> if until < now then None else Some until)"

definition kick_vnc_client :: "kick_key \<Rightarrow> time \<Rightarrow> time \<Rightarrow> hub \<Rightarrow> hub" where
  "kick_vnc_client key t1 t2 h =
     h\<lparr>kick_until := (prune_vnc_kicks t1 (kick_until h))(key \<mapsto> t2 + vnc_kick_window)\<rparr>"

definition vnc_client_kicked :: "kick_key \<Rightarrow> time \<Rightarrow> time \<Rightarrow> hub \<Rightarrow> bool \<times> hub" where
  "vnc_client_kicked key t1 t2 h =
     (let m = prune_vnc_kicks t1 (kick_until h)
      in (case m key of None \<Rightarrow> False | Some until \<Rightarrow> t2 < until, h\<lparr>kick_until := m\<rparr>))"

section \<open>The handlers\<close>

datatype socket_message =
    NoSuchTarget vnc_error
  | NotRFB string
  | TargetRefused guard_error
  | KickedOut
  | TooManyBridges
  | Unreachable
  | BadClientId
  | NoSuchClient

record client_info =
  ci_id :: int
  ci_ip :: string
  ci_agent :: string
  ci_connected :: time

definition client_info_of :: "vnc_conn \<Rightarrow> client_info" where
  "client_info_of c = \<lparr>ci_id = vc_id c, ci_ip = vc_ip c, ci_agent = vc_agent c, ci_connected = vc_connected c\<rparr>"

definition handle_list_vnc_clients :: "string \<Rightarrow> hub \<Rightarrow> (socket_message, client_info list) reply" where
  "handle_list_vnc_clients name h =
     (200, Body (sort_key ci_id (map (client_info_of \<circ> snd) (conns_of name h))))"

text \<open>
  The two halves of \<open>handleDeleteVncClient\<close>, which take different mutexes: the client that is meant, and the kick.
  In the whole handler the middle component is the connection closed with \<open>vncCloseKicked\<close>, if one is.
\<close>

definition find_vnc_client :: "string \<Rightarrow> string \<Rightarrow> hub \<Rightarrow> (socket_message, unit) reply + vnc_conn" where
  "find_vnc_client name id_text h =
     (case parse_int id_text of
        None \<Rightarrow> Inl (400, ErrorBody BadClientId)
      | Some cid \<Rightarrow>
          (case map_of (conns_of name h) cid of
             None \<Rightarrow> Inl (404, ErrorBody NoSuchClient)
           | Some c \<Rightarrow> Inr c))"

definition handle_delete_vnc_client ::
    "string \<Rightarrow> string \<Rightarrow> time \<Rightarrow> time \<Rightarrow> hub \<Rightarrow> (socket_message, unit) reply \<times> vnc_conn option \<times> hub" where
  "handle_delete_vnc_client name id_text t1 t2 h =
     (case find_vnc_client name id_text h of
        Inl r \<Rightarrow> (r, None, h)
      | Inr c \<Rightarrow> ((200, Body ()), Some c, kick_vnc_client (name, vc_ip c, vc_agent c) t1 t2 h))"

text \<open>\<open>handleVncSocket\<close>: the target, read anew.\<close>

definition socket_target ::
    "env \<Rightarrow> vnc_codec \<Rightarrow> string os \<Rightarrow> string \<Rightarrow> site \<Rightarrow> (socket_message, unit) reply + target" where
  "socket_target env cd os name s =
     (case vnc_get cd os name s of
        Inl e \<Rightarrow> Inl (if e = TargetNotFound then 404 else 500, ErrorBody (NoSuchTarget e))
      | Inr t \<Rightarrow>
          if tg_backend t \<noteq> backend_rfb then Inl (400, ErrorBody (NotRFB (tg_backend t)))
          else case validate_app_target env (tg_target t) of
                 Inl e \<Rightarrow> Inl (403, ErrorBody (TargetRefused e))
               | Inr _ \<Rightarrow> Inr t)"

text \<open>The target and the kick window; then the slot.\<close>

definition admit_viewer ::
    "env \<Rightarrow> vnc_codec \<Rightarrow> string os \<Rightarrow> site \<Rightarrow> kick_key \<Rightarrow> time \<Rightarrow> time \<Rightarrow> hub \<Rightarrow>
       ((socket_message, unit) reply + target) \<times> hub" where
  "admit_viewer env cd os s key t1 t2 h =
     (case socket_target env cd os (fst key) s of
        Inl r \<Rightarrow> (Inl r, h)
      | Inr t \<Rightarrow>
          (case vnc_client_kicked key t1 t2 h of
             (kicked, h1) \<Rightarrow> (if kicked then Inl (403, ErrorBody KickedOut) else Inr t, h1)))"

definition take_slot :: "hub \<Rightarrow> (socket_message, unit) reply option \<times> hub" where
  "take_slot h =
     (if slots_used h < vnc_bridge_slots then (None, h\<lparr>slots_used := slots_used h + 1\<rparr>)
      else (Some (503, ErrorBody TooManyBridges), h))"

definition release_slot :: "hub \<Rightarrow> hub" where
  "release_slot h = h\<lparr>slots_used := slots_used h - 1\<rparr>"

text \<open>A dial that fails answers 502 and gives the slot back; a refused upgrade gives it back too.\<close>

definition dial_failed :: "hub \<Rightarrow> (socket_message, unit) reply \<times> hub" where
  "dial_failed h = ((502, ErrorBody Unreachable), release_slot h)"

section \<open>Requests beside each other\<close>

text \<open>
  How far the requests under way have come (\<open>Admitted\<close>: past the kick window, without a slot; \<open>Closing\<close>: off the
  registry, with its slot), the disconnections that have found their client, the clock, and for the statements
  the kicks there were.  A phase keeps the key of its client and the moment it was found not to be kicked.
\<close>

datatype phase =
    Admitted kick_key time
  | Dialing kick_key time
  | Bridged kick_key int time
  | Closing kick_key time

fun phase_check :: "phase \<Rightarrow> kick_key \<times> time" where
  "phase_check (Admitted k t) = (k, t)"
| "phase_check (Dialing k t) = (k, t)"
| "phase_check (Bridged k _ t) = (k, t)"
| "phase_check (Closing k t) = (k, t)"

fun holds_slot :: "phase \<Rightarrow> bool" where
  "holds_slot (Admitted _ _) = False"
| "holds_slot _ = True"

definition holders :: "(nat \<Rightarrow> phase option) \<Rightarrow> nat set" where
  "holders m = {i. \<exists>p. m i = Some p \<and> holds_slot p}"

record sockets =
  the_hub :: hub
  under_way :: "nat \<Rightarrow> phase option"
  kicking :: "nat \<Rightarrow> (string \<times> vnc_conn) option"
  socket_clock :: time
  kicks :: "(kick_key \<times> time) set"

inductive socket_step :: "sockets \<Rightarrow> sockets \<Rightarrow> bool" where
  refuse:
    "socket_clock s \<le> t1 \<Longrightarrow> t1 \<le> t2 \<Longrightarrow> admit_viewer env cd os st key t1 t2 (the_hub s) = (Inl r, h) \<Longrightarrow>
     socket_step s (s\<lparr>the_hub := h, socket_clock := t2\<rparr>)"
| admit:
    "socket_clock s \<le> t1 \<Longrightarrow> t1 \<le> t2 \<Longrightarrow> admit_viewer env cd os st key t1 t2 (the_hub s) = (Inr t, h) \<Longrightarrow>
     under_way s i = None \<Longrightarrow>
     socket_step s (s\<lparr>the_hub := h, socket_clock := t2, under_way := (under_way s)(i \<mapsto> Admitted key t2)\<rparr>)"
| no_slot:
    "under_way s i = Some (Admitted key t) \<Longrightarrow> take_slot (the_hub s) = (Some r, h) \<Longrightarrow>
     socket_step s (s\<lparr>the_hub := h, under_way := (under_way s)(i := None)\<rparr>)"
| slot:
    "under_way s i = Some (Admitted key t) \<Longrightarrow> take_slot (the_hub s) = (None, h) \<Longrightarrow>
     socket_step s (s\<lparr>the_hub := h, under_way := (under_way s)(i \<mapsto> Dialing key t)\<rparr>)"
| unreachable:
    "under_way s i = Some (Dialing key t) \<Longrightarrow>
     socket_step s (s\<lparr>the_hub := snd (dial_failed (the_hub s)), under_way := (under_way s)(i := None)\<rparr>)"
| bridge:
    "under_way s i = Some (Dialing (name, ip, agent) t) \<Longrightarrow> socket_clock s \<le> now \<Longrightarrow>
     register_vnc_conn name ip agent now (the_hub s) = (cid, h) \<Longrightarrow>
     socket_step s (s\<lparr>the_hub := h, socket_clock := now,
       under_way := (under_way s)(i \<mapsto> Bridged (name, ip, agent) cid t)\<rparr>)"
| deregister:
    "under_way s i = Some (Bridged (name, ip, agent) cid t) \<Longrightarrow>
     socket_step s (s\<lparr>the_hub := deregister_vnc_conn name cid (the_hub s),
       under_way := (under_way s)(i \<mapsto> Closing (name, ip, agent) t)\<rparr>)"
| release:
    "under_way s i = Some (Closing key t) \<Longrightarrow>
     socket_step s (s\<lparr>the_hub := release_slot (the_hub s), under_way := (under_way s)(i := None)\<rparr>)"
| find:
    "kicking s j = None \<Longrightarrow> find_vnc_client name id_text (the_hub s) = Inr c \<Longrightarrow>
     socket_step s (s\<lparr>kicking := (kicking s)(j \<mapsto> (name, c))\<rparr>)"
| kick:
    "kicking s j = Some (name, c) \<Longrightarrow> socket_clock s \<le> t1 \<Longrightarrow> t1 \<le> t2 \<Longrightarrow>
     socket_step s (s\<lparr>the_hub := kick_vnc_client (name, vc_ip c, vc_agent c) t1 t2 (the_hub s), socket_clock := t2,
       kicking := (kicking s)(j := None), kicks := insert ((name, vc_ip c, vc_agent c), t2) (kicks s)\<rparr>)"

definition idle :: "time \<Rightarrow> sockets" where
  "idle t = \<lparr>the_hub = empty_hub, under_way = (\<lambda>_. None), kicking = (\<lambda>_. None), socket_clock = t, kicks = {}\<rparr>"

inductive socket_reach :: "sockets \<Rightarrow> bool" where
  idle: "socket_reach (idle t)"
| step: "socket_reach s \<Longrightarrow> socket_step s s' \<Longrightarrow> socket_reach s'"

section \<open>The slots\<close>

definition balanced :: "nat \<Rightarrow> (nat \<Rightarrow> phase option) \<Rightarrow> bool" where
  "balanced n m \<longleftrightarrow> sem_ok vnc_bridge_slots n (holders m)"

lemma holders_upd [simp]:
  "holders (m(i := x)) = (if \<exists>p. x = Some p \<and> holds_slot p then insert i (holders m) else holders m - {i})"
  by (auto simp: holders_def split: if_splits)

lemma holders_in: "m i = Some p \<Longrightarrow> i \<in> holders m \<longleftrightarrow> holds_slot p"
  by (simp add: holders_def)

lemma balanced_empty: "balanced 0 (\<lambda>_. None)"
  by (simp add: balanced_def holders_def sem_ok_empty)

lemma balanced_take:
  "balanced n m \<Longrightarrow> i \<notin> holders m \<Longrightarrow> holds_slot p \<Longrightarrow> n < vnc_bridge_slots \<Longrightarrow> balanced (Suc n) (m(i \<mapsto> p))"
  by (simp add: balanced_def sem_ok_take)

lemma balanced_drop: "balanced n m \<Longrightarrow> i \<in> holders m \<Longrightarrow> balanced (n - Suc 0) (m(i := None))"
  by (simp add: balanced_def sem_ok_release)

lemma balanced_change:
  "balanced n m \<Longrightarrow> i \<in> holders m \<longleftrightarrow> (\<exists>p. x = Some p \<and> holds_slot p) \<Longrightarrow> balanced n (m(i := x))"
  by (auto simp: balanced_def insert_absorb)

abbreviation slots_ok :: "sockets \<Rightarrow> bool" where
  "slots_ok s \<equiv> balanced (slots_used (the_hub s)) (under_way s)"

text \<open>What the parts of a request change of the hub.\<close>

lemma admit_viewer_cases:
  assumes "admit_viewer env cd os st key t1 t2 h = (r, h')"
  obtains (no_target) x where "r = Inl x" "h' = h"
  | (kicked) x where "r = Inl x" "h' = h\<lparr>kick_until := prune_vnc_kicks t1 (kick_until h)\<rparr>"
  | (admitted) t where "r = Inr t" "h' = h\<lparr>kick_until := prune_vnc_kicks t1 (kick_until h)\<rparr>"
      "\<And>u. prune_vnc_kicks t1 (kick_until h) key = Some u \<Longrightarrow> u \<le> t2"
proof (cases "socket_target env cd os (fst key) st")
  case (Inl x)
  then have "r = Inl x" "h' = h" using assms by (simp_all add: admit_viewer_def)
  then show thesis by (rule no_target)
next
  case (Inr t)
  let ?k = "case prune_vnc_kicks t1 (kick_until h) key of None \<Rightarrow> False | Some until \<Rightarrow> t2 < until"
  have k: "vnc_client_kicked key t1 t2 h = (?k, h\<lparr>kick_until := prune_vnc_kicks t1 (kick_until h)\<rparr>)"
    by (simp add: vnc_client_kicked_def Let_def)
  show thesis
  proof (cases ?k)
    case True
    then show thesis using assms Inr k by (intro kicked [of "(403, ErrorBody KickedOut)"]) (simp_all add: admit_viewer_def)
  next
    case False
    then show thesis using assms Inr k by (intro admitted [of t]) (auto simp: admit_viewer_def)
  qed
qed

lemma take_slot_cases:
  assumes "take_slot h = (r, h')"
  obtains (none) x where "r = Some x" "h' = h"
  | (taken) "r = None" "slots_used h < vnc_bridge_slots" "h' = h\<lparr>slots_used := slots_used h + 1\<rparr>"
  using assms by (auto simp: take_slot_def split: if_splits)

lemma hub_frame:
  "slots_used (snd (register_vnc_conn name ip agent now h)) = slots_used h"
  "kick_until (snd (register_vnc_conn name ip agent now h)) = kick_until h"
  "slots_used (deregister_vnc_conn name cid h) = slots_used h" "kick_until (deregister_vnc_conn name cid h) = kick_until h"
  "slots_used (kick_vnc_client key t1 t2 h) = slots_used h" "conns (kick_vnc_client key t1 t2 h) = conns h"
  "next_conn_id (kick_vnc_client key t1 t2 h) = next_conn_id h"
  "next_conn_id (deregister_vnc_conn name cid h) = next_conn_id h"
  by (simp_all add: register_vnc_conn_def deregister_vnc_conn_def kick_vnc_client_def Let_def)

lemma slots_ok_step: "socket_step s s' \<Longrightarrow> slots_ok s \<Longrightarrow> slots_ok s'"
proof (induction rule: socket_step.induct)
  case (refuse s t1 t2 env cd os st key r h)
  from refuse(3) show ?case by (rule admit_viewer_cases) (use refuse in simp_all)
next
  case (admit s t1 t2 env cd os st key t h i)
  then have "balanced (slots_used (the_hub s)) ((under_way s)(i \<mapsto> Admitted key t2))"
    by (intro balanced_change) (simp_all add: holders_def)
  then show ?case using admit(3) by (elim admit_viewer_cases) (simp_all add: fun_upd_def)
next
  case (no_slot s i key t r h)
  then have "balanced (slots_used (the_hub s)) ((under_way s)(i := None))"
    by (intro balanced_change) (simp_all add: holders_in)
  then show ?case using no_slot(2) by (elim take_slot_cases) (simp_all add: fun_upd_def)
next
  case (slot s i key t h)
  from slot(2) show ?case
  proof (rule take_slot_cases)
    assume h: "slots_used (the_hub s) < vnc_bridge_slots" "h = the_hub s\<lparr>slots_used := slots_used (the_hub s) + 1\<rparr>"
    have "balanced (Suc (slots_used (the_hub s))) ((under_way s)(i \<mapsto> Dialing key t))"
      using slot h(1) by (intro balanced_take) (simp_all add: holders_in)
    then show ?case by (simp add: h(2) fun_upd_def)
  qed simp
next
  case (unreachable s i key t)
  then show ?case by (simp add: dial_failed_def release_slot_def balanced_drop [unfolded fun_upd_def] holders_in)
next
  case (bridge s i name ip agent t now cid h)
  then have "balanced (slots_used (the_hub s)) ((under_way s)(i \<mapsto> Bridged (name, ip, agent) cid t))"
    by (intro balanced_change) (simp_all add: holders_in)
  then show ?case using hub_frame(1) [of name ip agent now "the_hub s"] bridge(3) by (simp add: fun_upd_def)
next
  case (deregister s i name ip agent cid t)
  then have "balanced (slots_used (the_hub s)) ((under_way s)(i \<mapsto> Closing (name, ip, agent) t))"
    by (intro balanced_change) (simp_all add: holders_in)
  then show ?case by (simp add: hub_frame fun_upd_def)
next
  case (release s i key t)
  then show ?case by (simp add: release_slot_def balanced_drop [unfolded fun_upd_def] holders_in)
qed (simp_all add: hub_frame)

lemma slots_ok_reach: "socket_reach s \<Longrightarrow> slots_ok s"
  by (induction rule: socket_reach.induct)
    (simp_all add: slots_ok_step, simp add: idle_def empty_hub_def balanced_empty)

section \<open>The registry lists the bridges\<close>

definition lookup_conn :: "hub \<Rightarrow> string \<Rightarrow> int \<Rightarrow> vnc_conn option" where
  "lookup_conn h name = map_of (conns_of name h)"

lemma conns_of_register:
  "conns_of n (snd (register_vnc_conn name ip agent now h)) =
     (if n = name then AList.update (next_conn_id h + 1)
        \<lparr>vc_id = next_conn_id h + 1, vc_ip = ip, vc_agent = agent, vc_connected = now\<rparr> (conns_of n h) else conns_of n h)"
  by (simp add: register_vnc_conn_def conns_of_def Let_def)

lemma conns_of_deregister:
  "conns_of n (deregister_vnc_conn name cid h) = (if n = name then AList.delete cid (conns_of n h) else conns_of n h)"
  by (simp add: deregister_vnc_conn_def conns_of_def Let_def)

lemma lookup_register:
  "lookup_conn (snd (register_vnc_conn name ip agent now h)) n c =
     (if n = name \<and> c = next_conn_id h + 1
      then Some \<lparr>vc_id = next_conn_id h + 1, vc_ip = ip, vc_agent = agent, vc_connected = now\<rparr>
      else lookup_conn h n c)"
  by (simp add: lookup_conn_def conns_of_register update_conv')

lemma lookup_deregister:
  "lookup_conn (deregister_vnc_conn name cid h) n c = (if n = name \<and> c = cid then None else lookup_conn h n c)"
  by (simp add: lookup_conn_def conns_of_deregister delete_conv')

definition keys_distinct :: "hub \<Rightarrow> bool" where
  "keys_distinct h \<longleftrightarrow> (\<forall>n. distinct (map fst (conns_of n h)))"

lemma keys_distinct_register: "keys_distinct h \<Longrightarrow> keys_distinct (snd (register_vnc_conn name ip agent now h))"
  by (simp add: keys_distinct_def conns_of_register distinct_update)

lemma keys_distinct_deregister: "keys_distinct h \<Longrightarrow> keys_distinct (deregister_vnc_conn name cid h)"
  by (simp add: keys_distinct_def conns_of_deregister distinct_delete)

text \<open>The registry and the requests under way, told apart from the rest of the state.\<close>

definition registry_ok ::
    "(string \<Rightarrow> int \<Rightarrow> vnc_conn option) \<Rightarrow> int \<Rightarrow> (nat \<Rightarrow> phase option) \<Rightarrow> bool" where
  "registry_ok reg hi m \<longleftrightarrow>
     (\<forall>i n ip ag c t. m i = Some (Bridged (n, ip, ag) c t) \<longrightarrow>
        c \<le> hi \<and> (\<exists>d. reg n c = Some d \<and> vc_ip d = ip \<and> vc_agent d = ag)) \<and>
     (\<forall>n c d. reg n c = Some d \<longrightarrow>
        vc_id d = c \<and> c \<le> hi \<and> (\<exists>i t. m i = Some (Bridged (n, vc_ip d, vc_agent d) c t))) \<and>
     (\<forall>i j k l c t u. m i = Some (Bridged k c t) \<and> m j = Some (Bridged l c u) \<longrightarrow> i = j)"

abbreviation conns_ok :: "sockets \<Rightarrow> bool" where
  "conns_ok s \<equiv> registry_ok (lookup_conn (the_hub s)) (next_conn_id (the_hub s)) (under_way s) \<and> keys_distinct (the_hub s)"

lemma registry_idle: "registry_ok (\<lambda>n c. None) hi (\<lambda>_. None)"
  by (simp add: registry_ok_def)

lemma registry_cong:
  "(\<And>i k c t. m' i = Some (Bridged k c t) \<longleftrightarrow> m i = Some (Bridged k c t)) \<Longrightarrow> registry_ok reg hi m' = registry_ok reg hi m"
  by (simp only: registry_ok_def)

lemma registry_other:
  "(\<And>k c t. m i \<noteq> Some (Bridged k c t)) \<Longrightarrow> (\<And>k c t. x \<noteq> Some (Bridged k c t)) \<Longrightarrow>
   registry_ok reg hi (m(i := x)) = registry_ok reg hi m"
  by (rule registry_cong) auto

lemma registry_bridge:
  assumes r: "registry_ok reg hi m" and i: "m i = Some (Dialing (n, ip, ag) t)" and d: "vc_id d = hi + 1" "vc_ip d = ip" "vc_agent d = ag"
  shows "registry_ok (\<lambda>n' c. if n' = n \<and> c = hi + 1 then Some d else reg n' c) (hi + 1)
    (m(i \<mapsto> Bridged (n, ip, ag) (hi + 1) t))"
proof -
  have le: "m j = Some (Bridged k c u) \<Longrightarrow> c \<le> hi" for j k c u
    using r unfolding registry_ok_def by (cases k) blast
  have b: "reg n' c = Some e \<Longrightarrow> c \<le> hi \<and> vc_id e = c \<and> (\<exists>j u. m j = Some (Bridged (n', vc_ip e, vc_agent e) c u))" for n' c e
    using r unfolding registry_ok_def by blast
  have f: "m j = Some (Bridged (n', ip', ag') c u) \<Longrightarrow> \<exists>e. reg n' c = Some e \<and> vc_ip e = ip' \<and> vc_agent e = ag'" for j n' ip' ag' c u
    using r unfolding registry_ok_def by blast
  have inj: "m j = Some (Bridged k c u) \<Longrightarrow> m l = Some (Bridged k' c u') \<Longrightarrow> j = l" for j l k k' c u u'
    using r unfolding registry_ok_def by blast
  show ?thesis
    unfolding registry_ok_def
  proof (intro conjI allI impI)
    fix n' c e
    assume "(if n' = n \<and> c = hi + 1 then Some d else reg n' c) = Some e"
    then consider "n' = n" "c = hi + 1" "e = d" | "reg n' c = Some e"
      by (cases "n' = n \<and> c = hi + 1") simp_all
    then show "\<exists>j u. (m(i \<mapsto> Bridged (n, ip, ag) (hi + 1) t)) j = Some (Bridged (n', vc_ip e, vc_agent e) c u)"
    proof cases
      case 1
      then show ?thesis using d by (intro exI [of _ i]) simp
    next
      case 2
      from b [OF 2] obtain j u where "m j = Some (Bridged (n', vc_ip e, vc_agent e) c u)" by blast
      then show ?thesis using i by (intro exI [of _ j] exI [of _ u]) auto
    qed
  next
    fix j n' ip' ag' c u
    assume "(m(i \<mapsto> Bridged (n, ip, ag) (hi + 1) t)) j = Some (Bridged (n', ip', ag') c u)"
    then consider "j = i" "n' = n" "ip' = ip" "ag' = ag" "c = hi + 1"
      | "m j = Some (Bridged (n', ip', ag') c u)" by (auto split: if_splits)
    note cs = this
    show "c \<le> hi + 1" using cs by cases (auto dest: le)
    show "\<exists>e. (if n' = n \<and> c = hi + 1 then Some d else reg n' c) = Some e \<and> vc_ip e = ip' \<and> vc_agent e = ag'"
      using cs by cases (use d f le in fastforce)+
  next
    fix n' c e
    assume "(if n' = n \<and> c = hi + 1 then Some d else reg n' c) = Some e"
    then show "vc_id e = c" "c \<le> hi + 1" using d b [of n' c e] by (auto split: if_splits)
  next
    fix j l k k' c u u'
    assume a: "(m(i \<mapsto> Bridged (n, ip, ag) (hi + 1) t)) j = Some (Bridged k c u) \<and>
      (m(i \<mapsto> Bridged (n, ip, ag) (hi + 1) t)) l = Some (Bridged k' c u')"
    have "\<not> c \<le> hi \<or> c \<noteq> hi + 1" by simp
    then show "j = l" using a inj [of j k c u l k' u'] le [of j k c u] le [of l k' c u'] by (auto split: if_splits)
  qed
qed

lemma registry_end:
  assumes r: "registry_ok reg hi m" and i: "m i = Some (Bridged (n, ip, ag) c t)"
  shows "registry_ok (\<lambda>n' c'. if n' = n \<and> c' = c then None else reg n' c') hi (m(i \<mapsto> Closing k t))"
proof -
  have inj: "m j = Some (Bridged k d u) \<Longrightarrow> m l = Some (Bridged k' d u') \<Longrightarrow> j = l" for j l k k' d u u'
    using r unfolding registry_ok_def by blast
  have b: "reg n' d = Some e \<Longrightarrow> d \<le> hi \<and> vc_id e = d \<and> (\<exists>j u. m j = Some (Bridged (n', vc_ip e, vc_agent e) d u))" for n' d e
    using r unfolding registry_ok_def by blast
  have f: "m j = Some (Bridged (n', ip', ag') d u) \<Longrightarrow> d \<le> hi \<and> (\<exists>e. reg n' d = Some e \<and> vc_ip e = ip' \<and> vc_agent e = ag')" for j n' ip' ag' d u
    using r unfolding registry_ok_def by blast
  show ?thesis
    unfolding registry_ok_def
  proof (intro conjI allI impI)
    fix n' d e
    assume e: "(if n' = n \<and> d = c then None else reg n' d) = Some e"
    then have "reg n' d = Some e" "\<not> (n' = n \<and> d = c)" by (auto split: if_splits)
    from b [OF this(1)] obtain j u where j: "m j = Some (Bridged (n', vc_ip e, vc_agent e) d u)" by blast
    then have "j \<noteq> i" using i \<open>\<not> (n' = n \<and> d = c)\<close> by auto
    then show "\<exists>j u. (m(i \<mapsto> Closing k t)) j = Some (Bridged (n', vc_ip e, vc_agent e) d u)" using j by auto
  next
    fix j n' ip' ag' d u
    assume "(m(i \<mapsto> Closing k t)) j = Some (Bridged (n', ip', ag') d u)"
    then have j: "m j = Some (Bridged (n', ip', ag') d u)" "j \<noteq> i" by (auto split: if_splits)
    then have "d \<noteq> c" using inj i by blast
    then show "\<exists>e. (if n' = n \<and> d = c then None else reg n' d) = Some e \<and> vc_ip e = ip' \<and> vc_agent e = ag'"
      using f [OF j(1)] by simp
    show "d \<le> hi" using f [OF j(1)] by simp
  next
    fix n' d e
    assume "(if n' = n \<and> d = c then None else reg n' d) = Some e"
    then show "vc_id e = d" "d \<le> hi" using b [of n' d e] by (auto split: if_splits)
  next
    fix j l k1 k2 d u v
    assume "(m(i \<mapsto> Closing k t)) j = Some (Bridged k1 d u) \<and> (m(i \<mapsto> Closing k t)) l = Some (Bridged k2 d v)"
    then show "j = l" using inj [of j k1 d u l k2 v] by (auto split: if_splits)
  qed
qed

lemma register_frame:
  "next_conn_id (snd (register_vnc_conn name ip agent now h)) = next_conn_id h + 1"
  "fst (register_vnc_conn name ip agent now h) = next_conn_id h + 1"
  by (simp_all add: register_vnc_conn_def Let_def)

lemma kicks_only:
  "lookup_conn (h\<lparr>kick_until := m\<rparr>) = lookup_conn h" "lookup_conn (h\<lparr>slots_used := n\<rparr>) = lookup_conn h"
  "lookup_conn (h\<lparr>kick_until := m, slots_used := n\<rparr>) = lookup_conn h"
  "keys_distinct (h\<lparr>kick_until := m\<rparr>) = keys_distinct h" "keys_distinct (h\<lparr>slots_used := n\<rparr>) = keys_distinct h"
  "keys_distinct (h\<lparr>kick_until := m, slots_used := n\<rparr>) = keys_distinct h"
  by (simp_all add: lookup_conn_def [abs_def] conns_of_def keys_distinct_def)

lemma conns_ok_step: "socket_step s s' \<Longrightarrow> conns_ok s \<Longrightarrow> conns_ok s'"
proof (induction rule: socket_step.induct)
  case (refuse s t1 t2 env cd os st key r h)
  from refuse(3) show ?case by (rule admit_viewer_cases) (use refuse in \<open>simp_all add: kicks_only\<close>)
next
  case (admit s t1 t2 env cd os st key t h i)
  then show ?case
    by (elim admit_viewer_cases) (simp_all add: kicks_only registry_other [unfolded fun_upd_def])
next
  case (no_slot s i key t r h)
  then show ?case by (elim take_slot_cases) (simp_all add: kicks_only registry_other [unfolded fun_upd_def])
next
  case (slot s i key t h)
  then show ?case by (elim take_slot_cases) (simp_all add: kicks_only registry_other [unfolded fun_upd_def])
next
  case (unreachable s i key t)
  then show ?case
    by (simp add: dial_failed_def release_slot_def kicks_only registry_other [unfolded fun_upd_def])
next
  case (bridge s i name ip agent t now cid h)
  let ?d = "\<lparr>vc_id = next_conn_id (the_hub s) + 1, vc_ip = ip, vc_agent = agent, vc_connected = now\<rparr>"
  have h: "h = snd (register_vnc_conn name ip agent now (the_hub s))" "cid = next_conn_id (the_hub s) + 1"
    using bridge(3) register_frame(2) [of name ip agent now "the_hub s"] by simp_all
  have "lookup_conn h = (\<lambda>n' c. if n' = name \<and> c = next_conn_id (the_hub s) + 1 then Some ?d else lookup_conn (the_hub s) n' c)"
    by (intro ext) (simp add: h lookup_register)
  moreover have "next_conn_id h = next_conn_id (the_hub s) + 1" by (simp add: h register_frame)
  ultimately have "registry_ok (lookup_conn h) (next_conn_id h) ((under_way s)(i \<mapsto> Bridged (name, ip, agent) cid t))"
    using registry_bridge [of "lookup_conn (the_hub s)" _ "under_way s" i name ip agent t ?d] bridge by (simp add: h(2))
  moreover have "keys_distinct h" using bridge keys_distinct_register by (simp add: h)
  ultimately show ?case by (simp add: fun_upd_def)
next
  case (deregister s i name ip agent cid t)
  have "lookup_conn (deregister_vnc_conn name cid (the_hub s)) =
      (\<lambda>n' c'. if n' = name \<and> c' = cid then None else lookup_conn (the_hub s) n' c')"
    by (intro ext) (simp add: lookup_deregister)
  then show ?case
    using registry_end [of "lookup_conn (the_hub s)" _ "under_way s" i name ip agent cid t] deregister
    by (simp add: hub_frame keys_distinct_deregister fun_upd_def)
next
  case (release s i key t)
  then show ?case by (simp add: release_slot_def kicks_only registry_other [unfolded fun_upd_def])
qed (simp_all add: kick_vnc_client_def kicks_only)

lemma empty_hub_conns: "lookup_conn empty_hub = (\<lambda>n c. None)" "keys_distinct empty_hub"
  by (simp_all add: lookup_conn_def [abs_def] conns_of_def keys_distinct_def empty_hub_def)

lemma conns_ok_reach: "socket_reach s \<Longrightarrow> conns_ok s"
proof (induction rule: socket_reach.induct)
  case (idle t)
  then show ?case by (simp add: idle_def empty_hub_conns registry_idle)
next
  case (step s s')
  then show ?case using conns_ok_step by blast
qed

lemma conns_bridged:
  assumes "socket_reach s"
  shows "distinct (map fst (conns_of name (the_hub s)))"
    and "(c, d) \<in> set (conns_of name (the_hub s)) \<Longrightarrow>
      vc_id d = c \<and> (\<exists>i t. under_way s i = Some (Bridged (name, vc_ip d, vc_agent d) c t))"
    and "under_way s i = Some (Bridged (name, ip, ag) c t) \<Longrightarrow>
      \<exists>d. (c, d) \<in> set (conns_of name (the_hub s)) \<and> vc_ip d = ip \<and> vc_agent d = ag"
proof -
  note k = conns_ok_reach [OF assms, THEN conjunct2, unfolded keys_distinct_def, rule_format, of name]
    and r = conns_ok_reach [OF assms, THEN conjunct1]
  have in_cs: "(c, d) \<in> set (conns_of name (the_hub s)) \<longleftrightarrow> lookup_conn (the_hub s) name c = Some d" for c d
    using k by (simp add: lookup_conn_def)
  show "distinct (map fst (conns_of name (the_hub s)))" by (rule k)
  show "(c, d) \<in> set (conns_of name (the_hub s)) \<Longrightarrow>
      vc_id d = c \<and> (\<exists>i t. under_way s i = Some (Bridged (name, vc_ip d, vc_agent d) c t))"
    and "under_way s i = Some (Bridged (name, ip, ag) c t) \<Longrightarrow>
      \<exists>d. (c, d) \<in> set (conns_of name (the_hub s)) \<and> vc_ip d = ip \<and> vc_agent d = ag"
    unfolding in_cs using r unfolding registry_ok_def by blast+
qed

lemma conns_image:
  assumes "socket_reach s"
  shows "(\<lambda>(c, d). (vc_id d, vc_ip d, vc_agent d)) ` set (conns_of name (the_hub s)) =
    {(c, ip, ag). \<exists>i t. under_way s i = Some (Bridged (name, ip, ag) c t)}" (is "?L = ?R")
proof
  show "?L \<subseteq> ?R" using conns_bridged(2) [OF assms] by fastforce
  show "?R \<subseteq> ?L"
  proof clarify
    fix c ip ag i t assume "under_way s i = Some (Bridged (name, ip, ag) c t)"
    from conns_bridged(3) [OF assms this] obtain d where
      d: "(c, d) \<in> set (conns_of name (the_hub s))" "vc_ip d = ip" "vc_agent d = ag" by blast
    moreover have "vc_id d = c" using conns_bridged(2) [OF assms d(1)] by simp
    ultimately show "(c, ip, ag) \<in> ?L" by force
  qed
qed

lemma conns_bound:
  assumes "socket_reach s"
  shows "length (conns_of name (the_hub s)) \<le> vnc_bridge_slots"
proof -
  note b = slots_ok_reach [OF assms, unfolded balanced_def sem_ok_def holders_def]
    and k = conns_bridged(1) [OF assms, of name]
  have "fst ` set (conns_of name (the_hub s)) \<subseteq>
      (\<lambda>i. case under_way s i of Some (Bridged _ c _) \<Rightarrow> c | _ \<Rightarrow> 0) ` {i. \<exists>p. under_way s i = Some p \<and> holds_slot p}"
    using conns_bridged(2) [OF assms] by (force simp: image_iff)
  then have "card (fst ` set (conns_of name (the_hub s))) \<le> card {i. \<exists>p. under_way s i = Some p \<and> holds_slot p}"
    using b by (meson card_image_le card_mono finite_imageI le_trans)
  then show ?thesis using b by (simp add: distinct_card [OF k, symmetric, simplified])
qed

text \<open>
  C18.  At every moment at most thirty-two requests hold a slot, each request that dials, is bridged or closes holds
  one, and the list of a target's clients is exactly that of its bridges: each once, in the order
  of their ids, with the address and the user agent its request came with.
\<close>

theorem vnc_clients_listed:
  assumes "socket_reach s"
  shows "slots_used (the_hub s) = card {i. \<exists>p. under_way s i = Some p \<and> holds_slot p} \<and>
    slots_used (the_hub s) \<le> vnc_bridge_slots \<and>
    (\<exists>list. handle_list_vnc_clients name (the_hub s) = (200, Body list) \<and> sorted_wrt (<) (map ci_id list) \<and>
       (\<lambda>c. (ci_id c, ci_ip c, ci_agent c)) ` set list =
         {(cid, ip, agent). \<exists>i t. under_way s i = Some (Bridged (name, ip, agent) cid t)} \<and>
       length list \<le> vnc_bridge_slots)"
proof -
  note b = slots_ok_reach [OF assms, unfolded balanced_def sem_ok_def holders_def]
  let ?cs = "conns_of name (the_hub s)"
  define list where "list = sort_key ci_id (map (client_info_of \<circ> snd) ?cs)"
  have "(\<lambda>c. (ci_id c, ci_ip c, ci_agent c)) ` set list = (\<lambda>(c, d). (vc_id d, vc_ip d, vc_agent d)) ` set ?cs"
    by (simp add: list_def image_image client_info_of_def case_prod_unfold)
  also have "\<dots> = {(c, ip, ag). \<exists>i t. under_way s i = Some (Bridged (name, ip, ag) c t)}"
    by (rule conns_image [OF assms])
  finally have set: "(\<lambda>c. (ci_id c, ci_ip c, ci_agent c)) ` set list =
      {(c, ip, ag). \<exists>i t. under_way s i = Some (Bridged (name, ip, ag) c t)}" .
  have ids: "map ci_id (map (client_info_of \<circ> snd) ?cs) = map fst ?cs"
    using conns_bridged(2) [OF assms, where name = name] by (fastforce simp: client_info_of_def)
  have "distinct (map ci_id list)"
    using conns_bridged(1) [OF assms, of name]
    unfolding list_def ids [symmetric] distinct_map [of ci_id] distinct_sort set_sort .
  then have sorted: "sorted_wrt (<) (map ci_id list)" by (simp add: strict_sorted_iff list_def)
  have "length list \<le> vnc_bridge_slots" using conns_bound [OF assms, of name] by (simp add: list_def)
  with b set sorted show ?thesis
    by (auto simp: handle_list_vnc_clients_def list_def)
qed

section \<open>The kick window\<close>

definition in_force :: "(kick_key \<Rightarrow> time option) \<Rightarrow> time \<Rightarrow> (kick_key \<times> time) set \<Rightarrow> bool" where
  "in_force m now ks \<longleftrightarrow>
     (\<forall>key k. (key, k) \<in> ks \<longrightarrow> k \<le> now \<and> (now < k + vnc_kick_window \<longrightarrow> (\<exists>u. m key = Some u \<and> k + vnc_kick_window \<le> u)))"

definition outside :: "(nat \<Rightarrow> phase option) \<Rightarrow> time \<Rightarrow> (kick_key \<times> time) set \<Rightarrow> bool" where
  "outside ph now ks \<longleftrightarrow>
     (\<forall>i p. ph i = Some p \<longrightarrow> snd (phase_check p) \<le> now \<and>
        (\<forall>k. (fst (phase_check p), k) \<in> ks \<longrightarrow>
           snd (phase_check p) \<le> k \<or> k + vnc_kick_window \<le> snd (phase_check p)))"

definition kicks_ok :: "(kick_key \<Rightarrow> time option) \<Rightarrow> (nat \<Rightarrow> phase option) \<Rightarrow> time \<Rightarrow> (kick_key \<times> time) set \<Rightarrow> bool" where
  "kicks_ok m ph now ks \<longleftrightarrow> in_force m now ks \<and> outside ph now ks"

abbreviation window_ok :: "sockets \<Rightarrow> bool" where
  "window_ok s \<equiv> kicks_ok (kick_until (the_hub s)) (under_way s) (socket_clock s) (kicks s)"

lemma in_force_later: "in_force m now ks \<Longrightarrow> now \<le> t \<Longrightarrow> in_force m t ks"
  by (force simp: in_force_def)

lemma outside_later: "outside ph now ks \<Longrightarrow> now \<le> t \<Longrightarrow> outside ph t ks"
  by (force simp: outside_def)

lemma kicks_later: "kicks_ok m ph now ks \<Longrightarrow> now \<le> t \<Longrightarrow> kicks_ok m ph t ks"
  unfolding kicks_ok_def by (blast intro: in_force_later outside_later)

lemma in_force_pruned:
  assumes "in_force m t ks"
  shows "in_force (prune_vnc_kicks t m) t ks"
  unfolding in_force_def
proof (intro allI impI)
  fix key k assume "(key, k) \<in> ks"
  with assms have k: "k \<le> t" "t < k + vnc_kick_window \<Longrightarrow> \<exists>u. m key = Some u \<and> k + vnc_kick_window \<le> u"
    unfolding in_force_def by blast+
  then show "k \<le> t \<and> (t < k + vnc_kick_window \<longrightarrow>
      (\<exists>u. prune_vnc_kicks t m key = Some u \<and> k + vnc_kick_window \<le> u))"
    by (auto simp: prune_vnc_kicks_def)
qed

lemma kicks_pruned: "kicks_ok m ph now ks \<Longrightarrow> now \<le> t \<Longrightarrow> kicks_ok (prune_vnc_kicks t m) ph t ks"
  unfolding kicks_ok_def by (blast intro: in_force_later in_force_pruned outside_later)

lemma kicks_taken:
  assumes k: "kicks_ok m ph now ks" and u: "\<And>u. m key = Some u \<Longrightarrow> u \<le> now"
  shows "kicks_ok m (ph(i \<mapsto> Admitted key now)) now ks"
proof -
  have past: "k + vnc_kick_window \<le> now" if kk: "(key, k) \<in> ks" for k
  proof (rule ccontr)
    assume n: "\<not> k + vnc_kick_window \<le> now"
    then have "now < k + vnc_kick_window" by simp
    moreover have "in_force m now ks" using k by (simp add: kicks_ok_def)
    ultimately obtain v where "m key = Some v" "k + vnc_kick_window \<le> v"
      using kk unfolding in_force_def by blast
    with u [OF this(1)] n show False by simp
  qed
  have "outside ph now ks" using k by (simp add: kicks_ok_def)
  then have "outside (ph(i \<mapsto> Admitted key now)) now ks" using past by (simp add: outside_def)
  then show ?thesis using k by (simp add: kicks_ok_def)
qed

lemma kicks_ended: "kicks_ok m ph now ks \<Longrightarrow> kicks_ok m (ph(i := None)) now ks"
  by (simp add: kicks_ok_def outside_def)

lemma kicks_bridged:
  "kicks_ok m ph now ks \<Longrightarrow> ph i = Some p \<Longrightarrow> phase_check q = phase_check p \<Longrightarrow> kicks_ok m (ph(i \<mapsto> q)) now ks"
  by (simp add: kicks_ok_def outside_def)

lemma kicks_added:
  assumes "kicks_ok m ph now ks" "now \<le> t1" "t1 \<le> t2"
  shows "kicks_ok ((prune_vnc_kicks t1 m)(key \<mapsto> t2 + vnc_kick_window)) ph t2 (insert (key, t2) ks)"
proof -
  have p: "in_force (prune_vnc_kicks t1 m) t2 ks" "outside ph t2 ks"
    using kicks_later [OF kicks_pruned [OF assms(1,2)] assms(3)] by (simp_all add: kicks_ok_def)
  have "in_force ((prune_vnc_kicks t1 m)(key \<mapsto> t2 + vnc_kick_window)) t2 (insert (key, t2) ks)"
    using p(1) by (auto simp: in_force_def)
  moreover have "outside ph t2 (insert (key, t2) ks)" using p(2) by (auto simp: outside_def)
  ultimately show ?thesis by (simp add: kicks_ok_def)
qed

lemma window_ok_step: "socket_step s s' \<Longrightarrow> window_ok s \<Longrightarrow> window_ok s'"
proof (induction rule: socket_step.induct)
  case (refuse s t1 t2 env cd os st key r h)
  have "t1 \<le> t2" "socket_clock s \<le> t1" by fact+
  then have "kicks_ok (prune_vnc_kicks t1 (kick_until (the_hub s))) (under_way s) t2 (kicks s)"
    "kicks_ok (kick_until (the_hub s)) (under_way s) t2 (kicks s)"
    using refuse kicks_later kicks_pruned by (meson order.trans)+
  with refuse(3) show ?case by (elim admit_viewer_cases) simp_all
next
  case (admit s t1 t2 env cd os st key t h i)
  note p = kicks_later [OF kicks_pruned [OF admit(5,1)] admit(2)]
  from admit(3) show ?case
  proof (rule admit_viewer_cases)
    assume "h = the_hub s\<lparr>kick_until := prune_vnc_kicks t1 (kick_until (the_hub s))\<rparr>"
      and "\<And>u. prune_vnc_kicks t1 (kick_until (the_hub s)) key = Some u \<Longrightarrow> u \<le> t2"
    with kicks_taken [OF p] show ?case by (simp add: fun_upd_def)
  qed simp_all
next
  case (no_slot s i key t r h)
  then show ?case by (elim take_slot_cases) (simp_all add: kicks_ended [unfolded fun_upd_def])
next
  case (slot s i key t h)
  then show ?case
    by (elim take_slot_cases) (simp_all add: kicks_bridged [unfolded fun_upd_def, where p = "Admitted key t"])
next
  case (unreachable s i key t)
  then show ?case by (simp add: dial_failed_def release_slot_def kicks_ended [unfolded fun_upd_def])
next
  case (bridge s i name ip agent t now cid h)
  have "kick_until h = kick_until (the_hub s)"
    using hub_frame(2) [of name ip agent now "the_hub s"] bridge(3) by simp
  then show ?case
    using kicks_bridged [OF kicks_later [OF bridge(4,2)] bridge(1), of "Bridged (name, ip, agent) cid t"]
    by (simp add: fun_upd_def)
next
  case (deregister s i name ip agent cid t)
  then show ?case
    using kicks_bridged [OF deregister(2,1), of "Closing (name, ip, agent) t"] by (simp add: hub_frame fun_upd_def)
next
  case (release s i key t)
  then show ?case by (simp add: release_slot_def kicks_ended [unfolded fun_upd_def])
next
  case (find s j name id_text c)
  then show ?case by simp
next
  case (kick s j name c t1 t2)
  then show ?case using kicks_added [OF kick(4,2,3)] by (simp add: kick_vnc_client_def fun_upd_def)
qed

lemma window_ok_reach: "socket_reach s \<Longrightarrow> window_ok s"
proof (induction rule: socket_reach.induct)
  case (idle t)
  then show ?case by (simp add: idle_def kicks_ok_def in_force_def outside_def)
next
  case (step s s')
  then show ?case using window_ok_step by blast
qed

text \<open>
  C11.  No bridge, and no request on its way to one, comes from inside a kick window: whatever else happened since an
  operator disconnected a client, a request with its address and user agent for that target was let past
  the check before the kick, or fifteen seconds after it at the earliest.
\<close>

theorem kicked_stay_out:
  assumes "socket_reach s" "under_way s i = Some p" "phase_check p = (key, checked)" "(key, k) \<in> kicks s"
  shows "checked \<le> k \<or> k + vnc_kick_window \<le> checked"
  using window_ok_reach [OF assms(1)] assms(2-4) unfolding kicks_ok_def outside_def by fastforce

section \<open>The properties on a concrete run\<close>

definition rfb_target :: target where
  "rfb_target =
     \<lparr>tg_name = ''desk'', tg_label = ''Desk'', tg_target = ''code-docker:5900'', tg_backend = ''rfb'',
      tg_auth = False, tg_resize = []\<rparr>"

definition rfb_codec :: vnc_codec where
  "rfb_codec = \<lparr>marshal = (\<lambda>_. None), unmarshal = (\<lambda>_. Some [rfb_target])\<rparr>"

definition rfb_site :: site where
  "rfb_site = site_of [vnc_store_path \<mapsto> \<lparr>contents = ''x'', perm = 0x1A4\<rparr>]"

definition viewer :: kick_key where
  "viewer = (''desk'', ''10.0.0.9'', ''Firefox'')"

lemma rfb_target_ok: "socket_target (\<lambda>_. []) rfb_codec quiet_os ''desk'' rfb_site = Inr rfb_target"
proof -
  have "validate_app_target (\<lambda>_. []) ''code-docker:5900'' = Inr ()" by code_simp
  then show ?thesis
    by (simp add: socket_target_def vnc_get_def vnc_load_def load_doc_def read_file_def rfb_site_def rfb_codec_def
        rfb_target_def index_of_def backend_rfb_def)
qed

lemma viewer_admitted:
  assumes "kick_until h viewer = None \<or> (\<exists>u. kick_until h viewer = Some u \<and> t1 \<le> u \<and> u \<le> t2)"
  shows "admit_viewer (\<lambda>_. []) rfb_codec quiet_os rfb_site viewer t1 t2 h =
    (Inr rfb_target, h\<lparr>kick_until := prune_vnc_kicks t1 (kick_until h)\<rparr>)"
proof -
  have "fst viewer = ''desk''" by (simp add: viewer_def)
  then show ?thesis
    using assms by (auto simp: admit_viewer_def rfb_target_ok vnc_client_kicked_def Let_def prune_vnc_kicks_def)
qed

definition one_dialing :: sockets where
  "one_dialing = (idle 0)\<lparr>the_hub := empty_hub\<lparr>slots_used := 1\<rparr>, under_way := [0 \<mapsto> Dialing viewer 0]\<rparr>"

definition one_bridged :: sockets where
  "one_bridged = one_dialing
     \<lparr>the_hub := snd (register_vnc_conn ''desk'' ''10.0.0.9'' ''Firefox'' second (empty_hub\<lparr>slots_used := 1\<rparr>)),
      socket_clock := second, under_way := [0 \<mapsto> Bridged viewer 1 0]\<rparr>"

lemma one_bridged_reach: "socket_reach one_bridged"
proof -
  let ?a = "(idle 0)\<lparr>under_way := [0 \<mapsto> Admitted viewer 0]\<rparr>"
  have "empty_hub\<lparr>kick_until := prune_vnc_kicks 0 (kick_until empty_hub)\<rparr> = empty_hub"
    by (simp add: empty_hub_def prune_vnc_kicks_def)
  then have "admit_viewer (\<lambda>_. []) rfb_codec quiet_os rfb_site viewer 0 0 (the_hub (idle 0)) = (Inr rfb_target, empty_hub)"
    using viewer_admitted [of empty_hub 0 0] by (simp add: empty_hub_def idle_def)
  from socket_step.admit [OF _ _ this, of 0] have "socket_step (idle 0) ?a"
    by (simp add: idle_def)
  moreover have "socket_step ?a one_dialing"
    using socket_step.slot [of ?a 0 viewer 0 "empty_hub\<lparr>slots_used := 1\<rparr>"]
    by (simp add: one_dialing_def idle_def take_slot_def vnc_bridge_slots_def empty_hub_def)
  moreover have "socket_step one_dialing one_bridged"
    using socket_step.bridge [of one_dialing 0 "''desk''" "''10.0.0.9''" "''Firefox''" 0 second 1
      "snd (register_vnc_conn ''desk'' ''10.0.0.9'' ''Firefox'' second (empty_hub\<lparr>slots_used := 1\<rparr>))"]
    by (simp add: one_bridged_def one_dialing_def idle_def viewer_def second_def register_vnc_conn_def empty_hub_def Let_def)
  ultimately show ?thesis by (meson socket_reach.intros)
qed

theorem vnc_clients_listed_witness:
  "\<exists>list. handle_list_vnc_clients ''desk'' (the_hub one_bridged) = (200, Body list) \<and>
    (\<lambda>c. (ci_id c, ci_ip c, ci_agent c)) ` set list = {(1, ''10.0.0.9'', ''Firefox'')} \<and> slots_used (the_hub one_bridged) = 1"
proof -
  have "{(cid, ip, agent). \<exists>i t. under_way one_bridged i = Some (Bridged (''desk'', ip, agent) cid t)} =
      {(1, ''10.0.0.9'', ''Firefox'')}"
    by (auto simp: one_bridged_def viewer_def)
  moreover have "slots_used (the_hub one_bridged) = 1" by (simp add: one_bridged_def hub_frame)
  ultimately show ?thesis using vnc_clients_listed [OF one_bridged_reach, of "''desk''"] by auto
qed

definition kicked_hub :: hub where
  "kicked_hub = kick_vnc_client viewer (2 * second) (2 * second) (the_hub one_bridged)"

definition kicked_once :: sockets where
  "kicked_once = one_bridged\<lparr>the_hub := kicked_hub, socket_clock := 2 * second, kicks := {(viewer, 2 * second)}\<rparr>"

lemma kicked_once_reach: "socket_reach kicked_once"
proof -
  let ?c = "\<lparr>vc_id = 1, vc_ip = ''10.0.0.9'', vc_agent = ''Firefox'', vc_connected = second\<rparr>"
  let ?f = "one_bridged\<lparr>kicking := [0 \<mapsto> (''desk'', ?c)]\<rparr>"
  have "conns_of ''desk'' (the_hub one_bridged) = [(1, ?c)]"
    by (simp add: one_bridged_def conns_of_register) (simp add: conns_of_def empty_hub_def)
  moreover have "parse_int ''1'' = Some 1" by code_simp
  ultimately have "find_vnc_client ''desk'' ''1'' (the_hub one_bridged) = Inr ?c"
    by (simp add: find_vnc_client_def)
  from socket_step.find [OF _ this, of 0] have "socket_step one_bridged ?f"
    by (simp add: one_bridged_def one_dialing_def idle_def)
  moreover have "socket_step ?f kicked_once"
    using socket_step.kick [of ?f 0 "''desk''" ?c "2 * second" "2 * second"]
    by (simp add: kicked_once_def kicked_hub_def one_bridged_def one_dialing_def idle_def viewer_def second_def)
  ultimately show ?thesis using one_bridged_reach by (meson socket_reach.intros)
qed

theorem kicked_stay_out_witness:
  "\<exists>s. socket_reach s \<and> under_way s 1 = Some (Admitted viewer (17 * second)) \<and> (viewer, 2 * second) \<in> kicks s \<and>
    (17 * second \<le> 2 * second \<or> 2 * second + vnc_kick_window \<le> 17 * second)"
proof -
  let ?t = "17 * second"
  let ?h = "kicked_hub\<lparr>kick_until := prune_vnc_kicks ?t (kick_until kicked_hub)\<rparr>"
  let ?s = "kicked_once\<lparr>the_hub := ?h, socket_clock := ?t, under_way := (under_way kicked_once)(1 \<mapsto> Admitted viewer ?t)\<rparr>"
  have "kick_until kicked_hub viewer = Some ?t"
    by (simp add: kicked_hub_def kick_vnc_client_def vnc_kick_window_def second_def)
  then have "admit_viewer (\<lambda>_. []) rfb_codec quiet_os rfb_site viewer ?t ?t kicked_hub = (Inr rfb_target, ?h)"
    by (intro viewer_admitted) auto
  then have "socket_step kicked_once ?s"
    by (intro socket_step.admit) (simp_all add: kicked_once_def one_bridged_def second_def)
  then have r: "socket_reach ?s" by (rule socket_reach.step [OF kicked_once_reach])
  have "under_way ?s 1 = Some (Admitted viewer ?t)" "(viewer, 2 * second) \<in> kicks ?s"
    by (simp_all add: kicked_once_def)
  with kicked_stay_out [OF r this(1) _ this(2)] r show ?thesis by (intro exI [of _ ?s]) simp
qed

end
