(* ===== verification/Tailscale_Config.thy ===== *)
theory Tailscale_Config
  imports Target_Guard Config_Store Go_Regexp Go_Strconv Go_URL
begin

text \<open>
  \<open>internal/tailscale/config.go\<close>: the forwards and publishes of the tailnet, kept in one YAML document.
  The operations run under the package's mutex, each one transition of the file system.
\<close>

record ts_forward =
  tf_name :: string
  tf_local_port :: int
  tf_remote_host :: string
  tf_remote_port :: int
  tf_retry :: int

record publish =
  pb_name :: string
  pb_tailscale_port :: int
  pb_target_host :: string
  pb_local_port :: int
  pb_mode :: string

record ts_global =
  gl_socks :: string
  gl_retry :: int
  gl_login :: string

record ts_config =
  ts_socks :: string
  ts_retry :: int
  ts_login :: string
  ts_forwards :: "ts_forward slice"
  ts_publish :: "publish slice"

definition empty_ts_config :: ts_config where
  "empty_ts_config =
     \<lparr>ts_socks = [], ts_retry = 0, ts_login = [], ts_forwards = None, ts_publish = None\<rparr>"

datatype ts_error =
    TsNameRequired
  | TsBadHost string
  | TsSelfHost string string
  | TsGuard guard_error
  | TsBadSocks
  | TsBadLogin
  | TsBadPort string
  | TsForwardExists
  | TsForwardNotFound
  | TsPublishExists
  | TsPublishNotFound
  | TsInvalidMode
  | TsStore store_error

type_synonym 'a ts_checked = "ts_error + 'a"

section \<open>Validation\<close>

definition ts_validate_host :: "string \<Rightarrow> string \<Rightarrow> unit ts_checked" where
  "ts_validate_host field host =
     (if host = [] \<or> \<not> rx_match plain_host_re host then Inl (TsBadHost field)
      else if is_self_host host then Inl (TsSelfHost field host)
      else Inr ())"

definition publish_allowed_hosts :: "env \<Rightarrow> string set" where
  "publish_allowed_hosts env = default_allowed_hosts env"

definition validate_publish_target :: "env \<Rightarrow> publish \<Rightarrow> unit ts_checked" where
  "validate_publish_target env p =
     res_bind (ts_validate_host ''targetHost'' (pb_target_host p)) (\<lambda>_.
     map_error TsGuard
       (validate_host env (pb_target_host p) (itoa (pb_local_port p)) (publish_allowed_hosts env) []
          ''tailscale publish''))"

text \<open>\<open>^[a-zA-Z0-9]([a-zA-Z0-9.-]*[a-zA-Z0-9])?:[0-9]{1,5}$\<close>\<close>

definition socks_addr_re :: rx where
  "socks_addr_re =
     RSeq plain_host_re (RSeq (RChr CHR '':'') (RSeq (RCls is_digit) (RUpto 4 (RCls is_digit))))"

definition validate_socks_address :: "string \<Rightarrow> unit ts_checked" where
  "validate_socks_address addr =
     (if addr = [] \<or> \<not> rx_match socks_addr_re addr then Inl TsBadSocks else Inr ())"

definition validate_login_server :: "string \<Rightarrow> unit ts_checked" where
  "validate_login_server server =
     (if server = [] then Inr ()
      else if web_url server = None then Inl TsBadLogin
      else Inr ())"

definition ts_validate_port :: "string \<Rightarrow> int \<Rightarrow> unit ts_checked" where
  "ts_validate_port field port = (if port < 1 \<or> port > 65535 then Inl (TsBadPort field) else Inr ())"

section \<open>The document\<close>

type_synonym 'b ts_codec = "(ts_config, 'b) codec"

definition ts_load :: "'b ts_codec \<Rightarrow> 'b os \<Rightarrow> string \<Rightarrow> 'b fs \<Rightarrow> ts_config ts_checked" where
  "ts_load cd os path fs = map_error TsStore (load_doc cd empty_ts_config path os fs)"

definition ts_save :: "'b ts_codec \<Rightarrow> 'b os \<Rightarrow> string \<Rightarrow> ts_config \<Rightarrow> 'b fs \<Rightarrow> unit ts_checked \<times> 'b fs" where
  "ts_save cd os path cfg fs = apfst (map_error TsStore) (save_doc cd 0x1A4 path os cfg fs)"

interpretation ts: config_store
  "ts_load cd os path" "ts_save cd os path" "stored_doc cd empty_ts_config path" "reread_doc cd"
  for cd os path
  unfolding ts_load_def [abs_def] ts_save_def [abs_def] by (rule config_store_doc)

section \<open>The global part\<close>

definition get_global_config :: "'b ts_codec \<Rightarrow> 'b os \<Rightarrow> string \<Rightarrow> 'b fs \<Rightarrow> ts_global ts_checked" where
  "get_global_config cd os path fs =
     res_bind (ts_load cd os path fs)
       (\<lambda>c. Inr \<lparr>gl_socks = ts_socks c, gl_retry = ts_retry c, gl_login = ts_login c\<rparr>)"

definition check_global :: "ts_global \<Rightarrow> unit ts_checked" where
  "check_global g =
     res_bind (validate_socks_address (gl_socks g)) (\<lambda>_. validate_login_server (gl_login g))"

definition put_global :: "ts_global \<Rightarrow> ts_config \<Rightarrow> (ts_config \<times> unit) ts_checked" where
  "put_global g c = Inr (c\<lparr>ts_socks := gl_socks g, ts_retry := gl_retry g, ts_login := gl_login g\<rparr>, ())"

definition set_global_config ::
    "'b ts_codec \<Rightarrow> 'b os \<Rightarrow> string \<Rightarrow> ts_global \<Rightarrow> 'b fs \<Rightarrow> unit ts_checked \<times> 'b fs" where
  "set_global_config cd os path g =
     checked_modify (check_global g) (ts_load cd os path) (ts_save cd os path) (put_global g)"

definition login_server_pinned :: "env \<Rightarrow> bool" where
  "login_server_pinned env \<longleftrightarrow> env ''TAILSCALE_LOGIN_SERVER'' \<noteq> []"

definition effective_login_server :: "env \<Rightarrow> 'b ts_codec \<Rightarrow> 'b os \<Rightarrow> string \<Rightarrow> 'b fs \<Rightarrow> string ts_checked" where
  "effective_login_server env cd os path fs =
     (if env ''TAILSCALE_LOGIN_SERVER'' \<noteq> [] then Inr (env ''TAILSCALE_LOGIN_SERVER'')
      else res_bind (get_global_config cd os path fs) (\<lambda>g. Inr (gl_login g)))"

section \<open>Forwards\<close>

definition ts_list_forwards :: "'b ts_codec \<Rightarrow> 'b os \<Rightarrow> string \<Rightarrow> 'b fs \<Rightarrow> ts_forward slice ts_checked" where
  "ts_list_forwards cd os path fs = res_bind (ts_load cd os path fs) (\<lambda>c. Inr (non_nil (ts_forwards c)))"

definition check_forward_fields :: "ts_forward \<Rightarrow> unit ts_checked" where
  "check_forward_fields f =
     res_bind (ts_validate_port ''localPort'' (tf_local_port f)) (\<lambda>_.
     res_bind (ts_validate_host ''remoteHost'' (tf_remote_host f)) (\<lambda>_.
     ts_validate_port ''remotePort'' (tf_remote_port f)))"

definition check_new_forward :: "ts_forward \<Rightarrow> unit ts_checked" where
  "check_new_forward f = (if tf_name f = [] then Inl TsNameRequired else check_forward_fields f)"

definition ts_put_forward :: "ts_forward \<Rightarrow> ts_config \<Rightarrow> (ts_config \<times> ts_forward) ts_checked" where
  "ts_put_forward f c =
     (case insert_entry tf_name f (elems (ts_forwards c)) of
        None \<Rightarrow> Inl TsForwardExists
      | Some xs \<Rightarrow> Inr (c\<lparr>ts_forwards := Some xs\<rparr>, f))"

definition ts_replace_forward :: "string \<Rightarrow> ts_forward \<Rightarrow> ts_config \<Rightarrow> (ts_config \<times> ts_forward) ts_checked" where
  "ts_replace_forward name f c =
     (case replace_key tf_name name f (elems (ts_forwards c)) of
        None \<Rightarrow> Inl TsForwardNotFound
      | Some xs \<Rightarrow> Inr (c\<lparr>ts_forwards := Some xs\<rparr>, f))"

definition ts_drop_forward :: "string \<Rightarrow> ts_config \<Rightarrow> (ts_config \<times> unit) ts_checked" where
  "ts_drop_forward name c =
     (case remove_entry tf_name name (elems (ts_forwards c)) of
        None \<Rightarrow> Inl TsForwardNotFound
      | Some xs \<Rightarrow> Inr (c\<lparr>ts_forwards := Some xs\<rparr>, ()))"

definition ts_add_forward ::
    "'b ts_codec \<Rightarrow> 'b os \<Rightarrow> string \<Rightarrow> ts_forward \<Rightarrow> 'b fs \<Rightarrow> ts_forward ts_checked \<times> 'b fs" where
  "ts_add_forward cd os path f =
     checked_modify (check_new_forward f) (ts_load cd os path) (ts_save cd os path) (ts_put_forward f)"

definition ts_update_forward ::
    "'b ts_codec \<Rightarrow> 'b os \<Rightarrow> string \<Rightarrow> string \<Rightarrow> ts_forward \<Rightarrow> 'b fs \<Rightarrow> ts_forward ts_checked \<times> 'b fs" where
  "ts_update_forward cd os path name f0 =
     (let f = f0\<lparr>tf_name := name\<rparr>
      in checked_modify (check_forward_fields f) (ts_load cd os path) (ts_save cd os path)
           (ts_replace_forward name f))"

definition ts_delete_forward ::
    "'b ts_codec \<Rightarrow> 'b os \<Rightarrow> string \<Rightarrow> string \<Rightarrow> 'b fs \<Rightarrow> unit ts_checked \<times> 'b fs" where
  "ts_delete_forward cd os path name =
     modify_doc (ts_load cd os path) (ts_save cd os path) (ts_drop_forward name)"

section \<open>Publishes\<close>

definition list_publish :: "'b ts_codec \<Rightarrow> 'b os \<Rightarrow> string \<Rightarrow> 'b fs \<Rightarrow> publish slice ts_checked" where
  "list_publish cd os path fs = res_bind (ts_load cd os path fs) (\<lambda>c. Inr (non_nil (ts_publish c)))"

definition fill_publish :: "publish \<Rightarrow> publish" where
  "fill_publish p =
     p\<lparr>pb_mode := (if pb_mode p = [] then ''tcp'' else pb_mode p),
       pb_target_host := (if pb_target_host p = [] then ''code-docker'' else pb_target_host p)\<rparr>"

definition check_mode :: "publish \<Rightarrow> unit ts_checked" where
  "check_mode p =
     (if pb_mode p \<noteq> ''tcp'' \<and> pb_mode p \<noteq> ''tls-terminated-tcp'' then Inl TsInvalidMode else Inr ())"

definition check_publish_fields :: "env \<Rightarrow> publish \<Rightarrow> unit ts_checked" where
  "check_publish_fields env p =
     res_bind (validate_publish_target env p) (\<lambda>_.
     res_bind (ts_validate_port ''tailscalePort'' (pb_tailscale_port p)) (\<lambda>_.
     ts_validate_port ''localPort'' (pb_local_port p)))"

definition check_new_publish :: "env \<Rightarrow> publish \<Rightarrow> unit ts_checked" where
  "check_new_publish env p =
     res_bind (check_mode p) (\<lambda>_.
     if pb_name p = [] then Inl TsNameRequired else check_publish_fields env p)"

definition check_changed_publish :: "env \<Rightarrow> publish \<Rightarrow> unit ts_checked" where
  "check_changed_publish env p = res_bind (check_mode p) (\<lambda>_. check_publish_fields env p)"

definition put_publish :: "publish \<Rightarrow> ts_config \<Rightarrow> (ts_config \<times> publish) ts_checked" where
  "put_publish p c =
     (case insert_entry pb_name p (elems (ts_publish c)) of
        None \<Rightarrow> Inl TsPublishExists
      | Some xs \<Rightarrow> Inr (c\<lparr>ts_publish := Some xs\<rparr>, p))"

definition replace_publish :: "string \<Rightarrow> publish \<Rightarrow> ts_config \<Rightarrow> (ts_config \<times> publish) ts_checked" where
  "replace_publish name p c =
     (case replace_key pb_name name p (elems (ts_publish c)) of
        None \<Rightarrow> Inl TsPublishNotFound
      | Some xs \<Rightarrow> Inr (c\<lparr>ts_publish := Some xs\<rparr>, p))"

definition drop_publish :: "string \<Rightarrow> ts_config \<Rightarrow> (ts_config \<times> unit) ts_checked" where
  "drop_publish name c =
     (case remove_entry pb_name name (elems (ts_publish c)) of
        None \<Rightarrow> Inl TsPublishNotFound
      | Some xs \<Rightarrow> Inr (c\<lparr>ts_publish := Some xs\<rparr>, ()))"

definition add_publish ::
    "env \<Rightarrow> 'b ts_codec \<Rightarrow> 'b os \<Rightarrow> string \<Rightarrow> publish \<Rightarrow> 'b fs \<Rightarrow> publish ts_checked \<times> 'b fs" where
  "add_publish env cd os path p0 =
     (let p = fill_publish p0
      in checked_modify (check_new_publish env p) (ts_load cd os path) (ts_save cd os path) (put_publish p))"

definition update_publish ::
    "env \<Rightarrow> 'b ts_codec \<Rightarrow> 'b os \<Rightarrow> string \<Rightarrow> string \<Rightarrow> publish \<Rightarrow> 'b fs \<Rightarrow> publish ts_checked \<times> 'b fs" where
  "update_publish env cd os path name p0 =
     (let p = fill_publish (p0\<lparr>pb_name := name\<rparr>)
      in checked_modify (check_changed_publish env p) (ts_load cd os path) (ts_save cd os path)
           (replace_publish name p))"

definition delete_publish ::
    "'b ts_codec \<Rightarrow> 'b os \<Rightarrow> string \<Rightarrow> string \<Rightarrow> 'b fs \<Rightarrow> unit ts_checked \<times> 'b fs" where
  "delete_publish cd os path name =
     modify_doc (ts_load cd os path) (ts_save cd os path) (drop_publish name)"

interpretation ts_fwd: updatable_entries tf_name "insert_entry tf_name" "remove_entry tf_name" "replace_key tf_name"
  by (rule updatable_entries_list)

interpretation ts_pub: updatable_entries pb_name "insert_entry pb_name" "remove_entry pb_name" "replace_key pb_name"
  by (rule updatable_entries_list)

section \<open>What every history keeps\<close>

definition ts_ok :: "env \<Rightarrow> ts_config \<Rightarrow> bool" where
  "ts_ok env c \<longleftrightarrow>
     unique_keys tf_name (elems (ts_forwards c)) \<and>
     (\<forall>f \<in> set (elems (ts_forwards c)). check_new_forward f = Inr ()) \<and>
     unique_keys pb_name (elems (ts_publish c)) \<and>
     (\<forall>p \<in> set (elems (ts_publish c)). check_new_publish env p = Inr ())"

text \<open>The YAML codec writes a \<open>nil\<close> list as an empty one.\<close>

definition norm_ts_config :: "ts_config \<Rightarrow> ts_config" where
  "norm_ts_config c = c\<lparr>ts_forwards := non_nil (ts_forwards c), ts_publish := non_nil (ts_publish c)\<rparr>"

lemma norm_ts_config_simps [simp]:
  "elems (ts_forwards (norm_ts_config c)) = elems (ts_forwards c)"
  "elems (ts_publish (norm_ts_config c)) = elems (ts_publish c)"
  "ts_ok env (norm_ts_config c) = ts_ok env c"
  by (simp_all add: norm_ts_config_def ts_ok_def)

datatype ts_request =
    SetGlobal ts_global
  | AddTsForward ts_forward
  | UpdateTsForward string ts_forward
  | DeleteTsForward string
  | AddPublish publish
  | UpdatePublish string publish
  | DeletePublish string

definition answer :: "'e + 'a \<Rightarrow> 'e option" where
  "answer r = (case r of Inl e \<Rightarrow> Some e | Inr _ \<Rightarrow> None)"

fun ts_serve ::
    "env \<Rightarrow> 'b ts_codec \<Rightarrow> string \<Rightarrow> 'b os \<Rightarrow> ts_request \<Rightarrow> 'b fs \<Rightarrow> ts_error option \<times> 'b fs" where
  "ts_serve env cd path os (SetGlobal g) fs = apfst answer (set_global_config cd os path g fs)"
| "ts_serve env cd path os (AddTsForward f) fs = apfst answer (ts_add_forward cd os path f fs)"
| "ts_serve env cd path os (UpdateTsForward n f) fs = apfst answer (ts_update_forward cd os path n f fs)"
| "ts_serve env cd path os (DeleteTsForward n) fs = apfst answer (ts_delete_forward cd os path n fs)"
| "ts_serve env cd path os (AddPublish p) fs = apfst answer (add_publish env cd os path p fs)"
| "ts_serve env cd path os (UpdatePublish n p) fs = apfst answer (update_publish env cd os path n p fs)"
| "ts_serve env cd path os (DeletePublish n) fs = apfst answer (delete_publish cd os path n fs)"

fun ts_history ::
    "env \<Rightarrow> 'b ts_codec \<Rightarrow> string \<Rightarrow> ('b os \<times> ts_request) list \<Rightarrow> 'b fs \<Rightarrow> 'b fs" where
  "ts_history env cd path [] fs = fs"
| "ts_history env cd path ((os, req) # rest) fs =
     ts_history env cd path rest (snd (ts_serve env cd path os req fs))"

lemma check_new_forward_fields: "check_new_forward f = Inr () \<longleftrightarrow> tf_name f \<noteq> [] \<and> check_forward_fields f = Inr ()"
  by (simp add: check_new_forward_def)

lemma check_new_publish_fields:
  "check_new_publish env p = Inr () \<longleftrightarrow> pb_name p \<noteq> [] \<and> check_changed_publish env p = Inr ()"
  by (auto simp: check_new_publish_def check_changed_publish_def res_simps)

text \<open>Each change keeps the invariant, given what was checked before it.\<close>

lemma put_forward_keeps:
  "check_new_forward f = Inr () \<Longrightarrow> ts_ok env c \<Longrightarrow> ts_put_forward f c = Inr (c', r) \<Longrightarrow> ts_ok env c'"
  by (auto simp: ts_ok_def ts_put_forward_def split: option.splits dest: ts_fwd.add_unique)
    (auto simp: ts_fwd.add_Some_iff)

lemma replace_forward_keeps:
  assumes "check_forward_fields f = Inr ()" "tf_name f = n" "ts_ok env c"
    and "ts_replace_forward n f c = Inr (c', r)"
  shows "ts_ok env c'"
proof -
  obtain xs where xs: "replace_key tf_name n f (elems (ts_forwards c)) = Some xs"
    and c': "c' = c\<lparr>ts_forwards := Some xs\<rparr>"
    using assms(4) by (auto simp: ts_replace_forward_def split: option.splits)
  have "n \<in> tf_name ` set (elems (ts_forwards c))"
    using xs replace_key_None_iff [of tf_name n f "elems (ts_forwards c)"] by auto
  then have "n \<noteq> []" using assms(3) by (auto simp: ts_ok_def check_new_forward_fields)
  then show ?thesis
    using assms replace_key_set [OF xs] ts_fwd.upd_unique [OF xs assms(2)]
    by (auto simp: ts_ok_def c' check_new_forward_fields)
qed

lemma drop_forward_keeps:
  "ts_ok env c \<Longrightarrow> ts_drop_forward n c = Inr (c', r) \<Longrightarrow> ts_ok env c'"
  by (auto simp: ts_ok_def ts_drop_forward_def split: option.splits dest: ts_fwd.del_unique)
    (auto simp: ts_fwd.del_Some_iff)

lemma put_publish_keeps:
  "check_new_publish env p = Inr () \<Longrightarrow> ts_ok env c \<Longrightarrow> put_publish p c = Inr (c', r) \<Longrightarrow> ts_ok env c'"
  by (auto simp: ts_ok_def put_publish_def split: option.splits dest: ts_pub.add_unique)
    (auto simp: ts_pub.add_Some_iff)

lemma replace_publish_keeps:
  assumes "check_changed_publish env p = Inr ()" "pb_name p = n" "ts_ok env c"
    and "replace_publish n p c = Inr (c', r)"
  shows "ts_ok env c'"
proof -
  obtain xs where xs: "replace_key pb_name n p (elems (ts_publish c)) = Some xs"
    and c': "c' = c\<lparr>ts_publish := Some xs\<rparr>"
    using assms(4) by (auto simp: replace_publish_def split: option.splits)
  have "n \<in> pb_name ` set (elems (ts_publish c))"
    using xs replace_key_None_iff [of pb_name n p "elems (ts_publish c)"] by auto
  then have "n \<noteq> []" using assms(3) by (auto simp: ts_ok_def check_new_publish_fields)
  then show ?thesis
    using assms replace_key_set [OF xs] ts_pub.upd_unique [OF xs assms(2)]
    by (auto simp: ts_ok_def c' check_new_publish_fields)
qed

lemma drop_publish_keeps:
  "ts_ok env c \<Longrightarrow> drop_publish n c = Inr (c', r) \<Longrightarrow> ts_ok env c'"
  by (auto simp: ts_ok_def drop_publish_def split: option.splits dest: ts_pub.del_unique)
    (auto simp: ts_pub.del_Some_iff)

lemma put_global_keeps: "ts_ok env c \<Longrightarrow> put_global g c = Inr (c', r) \<Longrightarrow> ts_ok env c'"
  by (auto simp: ts_ok_def put_global_def)

lemma ts_checked_keeps:
  assumes "apfst answer (checked_modify chk (ts_load cd os path) (ts_save cd os path) change fs) = (a, fs')"
    and "codec_ok cd norm_ts_config"
    and "\<And>c. stored_doc cd empty_ts_config path fs = Some c \<Longrightarrow> ts_ok env c"
    and "\<And>c c' r. chk = Inr () \<Longrightarrow> ts_ok env c \<Longrightarrow> change c = Inr (c', r) \<Longrightarrow> ts_ok env c'"
    and "stored_doc cd empty_ts_config path fs' = Some d"
  shows "ts_ok env d"
proof -
  obtain x where run: "checked_modify chk (ts_load cd os path) (ts_save cd os path) change fs = (x, fs')"
    using assms(1) by (auto simp: apfst_def map_prod_def split: prod.splits)
  show ?thesis
  proof (rule ts.checked_invariant [OF run, where I = "ts_ok env"])
    fix c c' r e
    assume "chk = Inr ()" "ts_ok env c" "change c = Inr (c', r)" "reread_doc cd c' = Some e"
    then show "ts_ok env e" using assms(4) reread_codec_ok [OF assms(2)] by fastforce
  qed (use assms(3,5) in auto)
qed

lemma ts_serve_keeps:
  assumes "ts_serve env cd path os req fs = (a, fs')" and "codec_ok cd norm_ts_config"
    and "\<And>c. stored_doc cd empty_ts_config path fs = Some c \<Longrightarrow> ts_ok env c"
    and "stored_doc cd empty_ts_config path fs' = Some d"
  shows "ts_ok env d"
proof (cases req)
  case (SetGlobal g)
  with assms(1) have "apfst answer (checked_modify (check_global g) (ts_load cd os path) (ts_save cd os path)
      (put_global g) fs) = (a, fs')" by (simp add: set_global_config_def)
  then show ?thesis by (rule ts_checked_keeps [OF _ assms(2,3) _ assms(4)]) (assumption, rule put_global_keeps, assumption+)
next
  case (AddTsForward f)
  with assms(1) have "apfst answer (checked_modify (check_new_forward f) (ts_load cd os path) (ts_save cd os path)
      (ts_put_forward f) fs) = (a, fs')" by (simp add: ts_add_forward_def)
  then show ?thesis by (rule ts_checked_keeps [OF _ assms(2,3) _ assms(4)]) (assumption, rule put_forward_keeps, assumption+)
next
  case (UpdateTsForward n f)
  with assms(1) have "apfst answer (checked_modify (check_forward_fields (f\<lparr>tf_name := n\<rparr>)) (ts_load cd os path)
      (ts_save cd os path) (ts_replace_forward n (f\<lparr>tf_name := n\<rparr>)) fs) = (a, fs')"
    by (simp add: ts_update_forward_def Let_def)
  then show ?thesis
    by (rule ts_checked_keeps [OF _ assms(2,3) _ assms(4)]) (assumption, rule replace_forward_keeps, assumption, simp, assumption+)
next
  case (DeleteTsForward n)
  with assms(1) have "apfst answer (checked_modify (Inr ()) (ts_load cd os path) (ts_save cd os path)
      (ts_drop_forward n) fs) = (a, fs')" by (simp add: ts_delete_forward_def modify_is_checked)
  then show ?thesis by (rule ts_checked_keeps [OF _ assms(2,3) _ assms(4)]) (assumption, rule drop_forward_keeps, assumption+)
next
  case (AddPublish p)
  with assms(1) have "apfst answer (checked_modify (check_new_publish env (fill_publish p)) (ts_load cd os path)
      (ts_save cd os path) (put_publish (fill_publish p)) fs) = (a, fs')" by (simp add: add_publish_def Let_def)
  then show ?thesis by (rule ts_checked_keeps [OF _ assms(2,3) _ assms(4)]) (assumption, rule put_publish_keeps, assumption+)
next
  case (UpdatePublish n p)
  let ?p = "fill_publish (p\<lparr>pb_name := n\<rparr>)"
  from UpdatePublish assms(1) have "apfst answer (checked_modify (check_changed_publish env ?p) (ts_load cd os path)
      (ts_save cd os path) (replace_publish n ?p) fs) = (a, fs')" by (simp add: update_publish_def Let_def)
  then show ?thesis
    by (rule ts_checked_keeps [OF _ assms(2,3) _ assms(4)])
      (assumption, rule replace_publish_keeps, assumption, simp add: fill_publish_def, assumption+)
next
  case (DeletePublish n)
  with assms(1) have "apfst answer (checked_modify (Inr ()) (ts_load cd os path) (ts_save cd os path)
      (drop_publish n) fs) = (a, fs')" by (simp add: delete_publish_def modify_is_checked)
  then show ?thesis by (rule ts_checked_keeps [OF _ assms(2,3) _ assms(4)]) (assumption, rule drop_publish_keeps, assumption+)
qed

lemma ts_validate_host_eq_Inr [res_simps]:
  "ts_validate_host f h = Inr u \<longleftrightarrow> rx_match plain_host_re h \<and> \<not> is_self_host h"
  by (auto simp: ts_validate_host_def plain_host_re_iff)

lemma ts_validate_port_eq_Inr [res_simps]: "ts_validate_port f p = Inr u \<longleftrightarrow> 1 \<le> p \<and> p \<le> 65535"
  by (auto simp: ts_validate_port_def)

lemma docker_ports: "itoa 2375 = ''2375''" "itoa 2376 = ''2376''"
  by code_simp+

definition publish_safe :: "env \<Rightarrow> publish \<Rightarrow> bool" where
  "publish_safe env p \<longleftrightarrow>
     to_lower (pb_target_host p) \<in> default_allowed_hosts env \<and> \<not> is_self_host (to_lower (pb_target_host p)) \<and>
     (to_lower (pb_target_host p) = ''dind'' \<longrightarrow> pb_local_port p \<notin> {2375, 2376}) \<and>
     pb_local_port p \<in> {1..65535} \<and> pb_tailscale_port p \<in> {1..65535} \<and>
     pb_mode p \<in> {''tcp'', ''tls-terminated-tcp''}"

definition ts_forward_safe :: "ts_forward \<Rightarrow> bool" where
  "ts_forward_safe f \<longleftrightarrow>
     \<not> is_self_host (tf_remote_host f) \<and> (\<forall>c \<in> set (tf_remote_host f). host_char c) \<and>
     tf_local_port f \<in> {1..65535} \<and> tf_remote_port f \<in> {1..65535}"

lemma check_publish_safe: "check_new_publish env p = Inr () \<Longrightarrow> publish_safe env p"
  using docker_ports
  by (auto simp: check_new_publish_def check_publish_fields_def validate_publish_target_def check_mode_def
      publish_safe_def publish_allowed_hosts_def denied_targets_def res_simps split: if_splits)

lemma check_forward_safe: "check_new_forward f = Inr () \<Longrightarrow> ts_forward_safe f"
  by (auto simp: check_new_forward_fields check_forward_fields_def ts_forward_safe_def plain_host_re_iff res_simps)

text \<open>
  C19.  From a well-formed document, every history of mutations, whatever calls fail in it, leaves one
  with unique names in which every publish reaches an allowlisted service that is neither router nor the
  Docker API, and no forward leads back to router.
\<close>

theorem ts_history_safe:
  assumes "codec_ok cd norm_ts_config"
    and "stored_doc cd empty_ts_config path fs = Some c" "ts_ok env c"
    and "stored_doc cd empty_ts_config path (ts_history env cd path reqs fs) = Some d"
  shows "unique_keys tf_name (elems (ts_forwards d)) \<and> unique_keys pb_name (elems (ts_publish d)) \<and>
    (\<forall>p \<in> set (elems (ts_publish d)). publish_safe env p) \<and>
    (\<forall>f \<in> set (elems (ts_forwards d)). ts_forward_safe f)"
proof -
  have "ts_ok env d"
    if "\<And>c. stored_doc cd empty_ts_config path fs = Some c \<Longrightarrow> ts_ok env c"
      "stored_doc cd empty_ts_config path (ts_history env cd path reqs fs) = Some d" for fs
    using that
  proof (induction reqs arbitrary: fs)
    case (Cons q rest)
    obtain os req where q: "q = (os, req)" by (cases q)
    obtain a fs' where run: "ts_serve env cd path os req fs = (a, fs')" by fastforce
    show ?case
      by (rule Cons.IH [of fs'])
        (use ts_serve_keeps [OF run assms(1) Cons.prems(1)] Cons.prems(2) q run in auto)
  qed simp
  from this [OF _ assms(4)] have "ts_ok env d" using assms(2,3) by simp
  then show ?thesis
    using check_publish_safe check_forward_safe by (auto simp: ts_ok_def)
qed

text \<open>
  An updated publish is found under its name with the fields the code fills in, every other one is
  as before, and the order of the names is kept.
\<close>

theorem update_publish_lookup:
  assumes "codec_ok cd norm_ts_config"
    and "update_publish env cd os path n p fs = (Inr q, fs')"
    and "stored_doc cd empty_ts_config path fs' = Some d"
  shows "q = fill_publish (p\<lparr>pb_name := n\<rparr>) \<and>
    (\<exists>c. stored_doc cd empty_ts_config path fs = Some c \<and>
      lookup_key pb_name n (elems (ts_publish c)) \<noteq> None \<and>
      (\<forall>m. lookup_key pb_name m (elems (ts_publish d)) =
        (if m = n then Some q else lookup_key pb_name m (elems (ts_publish c)))) \<and>
      map pb_name (elems (ts_publish d)) = map pb_name (elems (ts_publish c)) \<and>
      elems (ts_forwards d) = elems (ts_forwards c))"
proof -
  let ?p = "fill_publish (p\<lparr>pb_name := n\<rparr>)"
  have "checked_modify (check_changed_publish env ?p) (ts_load cd os path) (ts_save cd os path)
      (replace_publish n ?p) fs = (Inr q, fs')"
    using assms(2) by (simp add: update_publish_def Let_def)
  from ts.checked_ok [OF this] obtain c c' where c:
    "stored_doc cd empty_ts_config path fs = Some c" "replace_publish n ?p c = Inr (c', q)"
    "stored_doc cd empty_ts_config path fs' = reread_doc cd c'" by (elim exE conjE) (rule that)
  obtain xs where xs: "replace_key pb_name n ?p (elems (ts_publish c)) = Some xs"
    and c': "c' = c\<lparr>ts_publish := Some xs\<rparr>" and q: "q = ?p"
    using c(2) by (auto simp: replace_publish_def split: option.splits)
  have d: "d = norm_ts_config c'" using reread_codec_ok [OF assms(1)] c(3) assms(3) by simp
  have "n \<in> pb_name ` set (elems (ts_publish c))"
    using xs replace_key_None_iff [of pb_name n ?p "elems (ts_publish c)"] by auto
  moreover have "pb_name ?p = n" by (simp add: fill_publish_def)
  ultimately show ?thesis
    using c(1) ts_pub.upd_lookup [OF xs] ts_pub.upd_keys [OF xs]
    by (simp add: d c' q lookup_key_None_iff)
qed

section \<open>The SOCKS address\<close>

lemma socks_address_sound:
  assumes "validate_socks_address a = Inr ()"
  shows "\<exists>h p. a = h @ CHR '':'' # p \<and> rx_match plain_host_re h \<and> p \<noteq> [] \<and> length p \<le> 5 \<and>
    (\<forall>c \<in> set p. is_digit c)"
proof -
  have "a \<in> rx_lang socks_addr_re"
    using assms by (simp add: validate_socks_address_def rx_match_iff split: if_splits del: rx_match.simps)
  then obtain h d p where "a = h @ CHR '':'' # d # p" "h \<in> rx_lang plain_host_re" "is_digit d"
    "length p \<le> 4" "\<forall>c \<in> set p. is_digit c"
    by (auto simp: socks_addr_re_def RChr_def upto_cls simp del: RUpto.simps)
  then show ?thesis by (intro exI [of _ h] exI [of _ "d # p"]) (auto simp: rx_match_iff simp del: rx_match.simps)
qed

section \<open>Concrete runs\<close>

definition sample_publish :: publish where
  "sample_publish =
     \<lparr>pb_name = ''web'', pb_tailscale_port = 80, pb_target_host = [], pb_local_port = 8080, pb_mode = []\<rparr>"

definition published :: "publish slice \<Rightarrow> ts_config" where
  "published ps = \<lparr>ts_socks = [], ts_retry = 0, ts_login = [], ts_forwards = Some [], ts_publish = ps\<rparr>"

lemma sample_publish_ok: "check_new_publish (\<lambda>_. []) (fill_publish sample_publish) = Inr ()"
  "check_changed_publish (\<lambda>_. []) (fill_publish (sample_publish\<lparr>pb_name := ''web''\<rparr>)) = Inr ()"
  by code_simp+

lemma sample_add_publish:
  obtains fs' where "add_publish (\<lambda>_. []) (plain_codec norm_ts_config) quiet_os path sample_publish Map.empty =
      (Inr (fill_publish sample_publish), fs')"
    "stored_doc (plain_codec norm_ts_config) empty_ts_config path fs' = Some (published (Some [fill_publish sample_publish]))"
proof (rule checked_modify_quiet [of norm_ts_config empty_ts_config path Map.empty empty_ts_config
      "put_publish (fill_publish sample_publish)" "empty_ts_config\<lparr>ts_publish := Some [fill_publish sample_publish]\<rparr>"
      "fill_publish sample_publish" TsStore "0x1A4"])
qed (auto simp: stored_doc_def put_publish_def insert_entry_def empty_ts_config_def norm_ts_config_def
    published_def add_publish_def sample_publish_ok ts_load_def [abs_def] ts_save_def [abs_def] intro!: that)

theorem ts_history_safe_witness:
  "\<exists>d. stored_doc (plain_codec norm_ts_config) empty_ts_config ''/c''
      (ts_history (\<lambda>_. []) (plain_codec norm_ts_config) ''/c'' [(quiet_os, AddPublish sample_publish)] Map.empty) = Some d \<and>
    elems (ts_publish d) = [fill_publish sample_publish] \<and> list_all (publish_safe (\<lambda>_. [])) (elems (ts_publish d))"
proof -
  obtain fs' where run: "add_publish (\<lambda>_. []) (plain_codec norm_ts_config) quiet_os ''/c'' sample_publish Map.empty =
      (Inr (fill_publish sample_publish), fs')"
    and st: "stored_doc (plain_codec norm_ts_config) empty_ts_config ''/c'' fs' =
      Some (published (Some [fill_publish sample_publish]))" by (rule sample_add_publish)
  have "stored_doc (plain_codec norm_ts_config) empty_ts_config ''/c'' Map.empty = Some empty_ts_config"
    by (simp add: stored_doc_def)
  moreover have "ts_ok (\<lambda>_. []) empty_ts_config" by (simp add: ts_ok_def empty_ts_config_def unique_keys_def)
  moreover have "stored_doc (plain_codec norm_ts_config) empty_ts_config ''/c''
      (ts_history (\<lambda>_. []) (plain_codec norm_ts_config) ''/c'' [(quiet_os, AddPublish sample_publish)] Map.empty) =
      Some (published (Some [fill_publish sample_publish]))" using run st by simp
  ultimately show ?thesis
    using ts_history_safe [OF codec_ok_plain] by (fastforce simp: published_def list_all_iff)
qed

theorem update_publish_lookup_witness:
  "\<exists>fs fs' d. update_publish (\<lambda>_. []) (plain_codec norm_ts_config) quiet_os ''/c'' ''web'' (sample_publish\<lparr>pb_name := ''x''\<rparr>) fs =
      (Inr (fill_publish sample_publish), fs') \<and>
    stored_doc (plain_codec norm_ts_config) empty_ts_config ''/c'' fs' = Some d \<and>
    lookup_key pb_name ''web'' (elems (ts_publish d)) = Some (fill_publish sample_publish)"
proof -
  obtain fs where st: "stored_doc (plain_codec norm_ts_config) empty_ts_config ''/c'' fs =
      Some (published (Some [fill_publish sample_publish]))" by (rule sample_add_publish)
  have ch: "replace_publish ''web'' (fill_publish sample_publish) (published (Some [fill_publish sample_publish])) =
      Inr (published (Some [fill_publish sample_publish]), fill_publish sample_publish)"
    by (simp add: replace_publish_def published_def fill_publish_def sample_publish_def)
  have same: "fill_publish (sample_publish\<lparr>pb_name := ''x''\<rparr>\<lparr>pb_name := ''web''\<rparr>) = fill_publish sample_publish"
    by (simp add: fill_publish_def sample_publish_def)
  obtain fs' where run: "update_publish (\<lambda>_. []) (plain_codec norm_ts_config) quiet_os ''/c'' ''web''
      (sample_publish\<lparr>pb_name := ''x''\<rparr>) fs = (Inr (fill_publish sample_publish), fs')"
    and st': "stored_doc (plain_codec norm_ts_config) empty_ts_config ''/c'' fs' =
      Some (norm_ts_config (published (Some [fill_publish sample_publish])))"
  proof (rule checked_modify_quiet [OF st, where f = TsStore and m = "0x1A4" and
      change = "replace_publish ''web'' (fill_publish sample_publish)", OF ch])
  qed (use sample_publish_ok(2) same in \<open>auto simp: update_publish_def ts_load_def [abs_def] ts_save_def [abs_def]
      check_changed_publish_def sample_publish_def intro!: that\<close>)
  from update_publish_lookup [OF codec_ok_plain run st']
  have "lookup_key pb_name ''web''
      (elems (ts_publish (norm_ts_config (published (Some [fill_publish sample_publish]))))) =
    Some (fill_publish sample_publish)" by auto
  with run st' show ?thesis by blast
qed

end
