(* ===== verification/Tailscale_Client.thy ===== *)
theory Tailscale_Client
  imports Go_Prelude "HOL-Library.Multiset" "HOL-Library.List_Lexorder" "HOL-Library.Char_ord"
begin

text \<open>
  The parts of \<open>internal/tailscale\<close> that run the \<open>tailscale\<close> command: \<open>enabled.go\<close>, \<open>state.go\<close>,
  \<open>status.go\<close> and the login manager of \<open>login.go\<close>.  The output of the command and the JSON decoder are
  parameters; the processes the login manager starts are a step relation.
\<close>

section \<open>State and status\<close>

definition enabled :: "env \<Rightarrow> bool" where
  "enabled env \<longleftrightarrow> env ''TAILSCALE_ENABLED'' \<noteq> ''false''"

datatype client_error = ExecFailed | BadJson

record ts_state =
  st_backend :: string
  st_auth_url :: "string option"
  st_enabled :: bool

record raw_state =
  rs_backend :: string
  rs_auth_url :: string

text \<open>\<open>out\<close> is what \<open>tailscale status --json\<close> printed, \<open>None\<close> when it failed or ran out of time.\<close>

definition get_state :: "env \<Rightarrow> (string \<Rightarrow> raw_state option) \<Rightarrow> string option \<Rightarrow> client_error + ts_state" where
  "get_state env decode out =
     (if \<not> enabled env then Inr \<lparr>st_backend = ''Disabled'', st_auth_url = None, st_enabled = False\<rparr>
      else case out of
             None \<Rightarrow> Inl ExecFailed
           | Some d \<Rightarrow>
               (case decode d of
                  None \<Rightarrow> Inl BadJson
                | Some raw \<Rightarrow>
                    Inr \<lparr>st_backend = rs_backend raw,
                         st_auth_url = (if rs_auth_url raw \<noteq> [] then Some (rs_auth_url raw) else None),
                         st_enabled = True\<rparr>))"

record peer_raw =
  pr_host_name :: string
  pr_dns_name :: string
  pr_ips :: "string slice"
  pr_relay :: string
  pr_cur_addr :: string
  pr_online :: bool
  pr_tags :: "string slice"
  pr_os :: string

record peer_info =
  pe_host_name :: string
  pe_dns_name :: string
  pe_ips :: "string slice"
  pe_relay :: string
  pe_direct :: bool
  pe_online :: bool
  pe_tags :: "string slice"
  pe_os :: string

definition to_peer_info :: "peer_raw \<Rightarrow> peer_info" where
  "to_peer_info r =
     \<lparr>pe_host_name = pr_host_name r, pe_dns_name = pr_dns_name r, pe_ips = non_nil (pr_ips r),
      pe_relay = pr_relay r, pe_direct = (pr_cur_addr r \<noteq> []), pe_online = pr_online r,
      pe_tags = non_nil (pr_tags r), pe_os = pr_os r\<rparr>"

text \<open>
  The \<open>Peer\<close> map is the list of its entries in the order the loop over it visits them; the sort by host
  name then leaves entries with one name in that order, which stands for any order of theirs.
\<close>

record status_raw =
  sr_backend :: string
  sr_auth_url :: string
  sr_tailnet :: "string option"
  sr_self :: "peer_raw option"
  sr_peers :: "(string \<times> peer_raw) list"

record status =
  ss_backend :: string
  ss_auth_url :: string
  ss_tailnet :: string
  ss_self :: "peer_info option"
  ss_peers :: "peer_info list"

definition get_status :: "(string \<Rightarrow> status_raw option) \<Rightarrow> string option \<Rightarrow> client_error + status" where
  "get_status decode out =
     (case out of
        None \<Rightarrow> Inl ExecFailed
      | Some d \<Rightarrow>
          (case decode d of
             None \<Rightarrow> Inl BadJson
           | Some raw \<Rightarrow>
               Inr \<lparr>ss_backend = sr_backend raw, ss_auth_url = sr_auth_url raw,
                    ss_tailnet = (case sr_tailnet raw of None \<Rightarrow> [] | Some n \<Rightarrow> n),
                    ss_self = map_option to_peer_info (sr_self raw),
                    ss_peers = map (\<lambda>(id, r). to_peer_info r)
                      (sort_key (\<lambda>(id, r). pr_host_name r) (sr_peers raw))\<rparr>))"

text \<open>Every peer is listed once, by host name, with no \<open>nil\<close> list.\<close>

lemma get_status_peers:
  assumes "get_status decode (Some d) = Inr st" "decode d = Some raw"
  shows "mset (ss_peers st) = mset (map (\<lambda>(id, r). to_peer_info r) (sr_peers raw)) \<and>
    sorted (map pe_host_name (ss_peers st)) \<and>
    (\<forall>p \<in> set (ss_peers st). pe_ips p \<noteq> None \<and> pe_tags p \<noteq> None)"
proof -
  have p: "ss_peers st = map (\<lambda>(id, r). to_peer_info r) (sort_key (\<lambda>(id, r). pr_host_name r) (sr_peers raw))"
    using assms by (auto simp: get_status_def)
  have "map pe_host_name (ss_peers st) = map (\<lambda>(id, r). pr_host_name r) (sort_key (\<lambda>(id, r). pr_host_name r) (sr_peers raw))"
    by (simp add: p to_peer_info_def comp_def case_prod_unfold)
  then have "sorted (map pe_host_name (ss_peers st))" by simp
  moreover have "\<forall>p \<in> set (ss_peers st). pe_ips p \<noteq> None \<and> pe_tags p \<noteq> None"
    by (auto simp: p to_peer_info_def)
  moreover have "mset (ss_peers st) = mset (map (\<lambda>(id, r). to_peer_info r) (sr_peers raw))"
    by (simp only: p mset_map mset_sort)
  ultimately show ?thesis by blast
qed

section \<open>The login manager\<close>

text \<open>
  The manager's fields, and beside them the processes: which \<open>tailscale up\<close> still run, and which have a
  goroutine waiting for them.  A process is a number, fresh for each start.
\<close>

record login =
  lm_cmd :: "nat option"
  lm_running :: bool
  alive :: "nat set"
  waiting :: "nat set"
  next_pid :: nat

definition new_login_manager :: login where
  "new_login_manager = \<lparr>lm_cmd = None, lm_running = False, alive = {}, waiting = {}, next_pid = 0\<rparr>"

definition login_args :: "string \<Rightarrow> string \<Rightarrow> bool \<Rightarrow> string list" where
  "login_args server hostname force =
     [''up''] @ (if server \<noteq> [] then [''--login-server='' @ server] else []) @
     (if hostname \<noteq> [] then [''--hostname='' @ hostname] else []) @
     (if force then [''--force-reauth''] else [])"

text \<open>\<open>spawns args\<close>: whether \<open>cmd.Start\<close> succeeds.  The answer tells whether \<open>Start\<close> returned an error.\<close>

definition login_start ::
    "(string list \<Rightarrow> bool) \<Rightarrow> string \<Rightarrow> string \<Rightarrow> bool \<Rightarrow> login \<Rightarrow> (client_error + unit) \<times> login" where
  "login_start spawns server hostname force m =
     (if lm_running m then (Inr (), m)
      else if \<not> spawns (login_args server hostname force) then (Inl ExecFailed, m)
      else (Inr (), m\<lparr>lm_cmd := Some (next_pid m), lm_running := True, alive := insert (next_pid m) (alive m),
                     waiting := insert (next_pid m) (waiting m), next_pid := Suc (next_pid m)\<rparr>))"

text \<open>The goroutine after \<open>cmd.Wait\<close> returned for its process.\<close>

definition login_reap :: "nat \<Rightarrow> login \<Rightarrow> login" where
  "login_reap p m =
     (let m' = m\<lparr>waiting := waiting m - {p}\<rparr>
      in if lm_cmd m' = Some p then m'\<lparr>lm_running := False\<rparr> else m')"

text \<open>Which process \<open>Cancel\<close> sends the kill signal to.\<close>

definition login_cancel :: "login \<Rightarrow> nat option" where
  "login_cancel m = (if \<not> lm_running m then None else lm_cmd m)"

inductive login_step :: "login \<Rightarrow> login \<Rightarrow> bool" where
  start: "login_start spawns server hostname force m = (r, m') \<Longrightarrow> login_step m m'"
| exit: "p \<in> alive m \<Longrightarrow> login_step m (m\<lparr>alive := alive m - {p}\<rparr>)"
| reap: "p \<in> waiting m \<Longrightarrow> p \<notin> alive m \<Longrightarrow> login_step m (login_reap p m)"

inductive_cases login_stepE: "login_step m m'"

definition login_reachable :: "login \<Rightarrow> bool" where
  "login_reachable m \<longleftrightarrow> login_step\<^sup>*\<^sup>* new_login_manager m"

definition login_ok :: "login \<Rightarrow> bool" where
  "login_ok m \<longleftrightarrow>
     (\<forall>p \<in> alive m. lm_running m \<and> lm_cmd m = Some p) \<and> alive m \<subseteq> waiting m \<and>
     (\<forall>p \<in> waiting m. p < next_pid m) \<and>
     (lm_running m \<longrightarrow> (\<exists>p \<in> waiting m. lm_cmd m = Some p))"

lemma login_ok_step: "login_step m m' \<Longrightarrow> login_ok m \<Longrightarrow> login_ok m'"
proof (erule login_stepE)
  fix spawns server hostname force r
  assume "login_start spawns server hostname force m = (r, m')" "login_ok m"
  then show ?thesis by (auto simp: login_start_def login_ok_def less_Suc_eq split: if_splits)
next
  fix p
  assume "m' = m\<lparr>alive := alive m - {p}\<rparr>" "login_ok m"
  then show ?thesis by (auto simp: login_ok_def)
next
  fix p
  assume "m' = login_reap p m" "p \<notin> alive m" "login_ok m"
  then show ?thesis by (auto simp: login_ok_def login_reap_def Let_def)
qed

lemma login_ok_reachable: "login_reachable m \<Longrightarrow> login_ok m"
  unfolding login_reachable_def
proof (induction rule: rtranclp_induct)
  case base
  show ?case by (simp add: login_ok_def new_login_manager_def)
next
  case (step m m')
  from step(2,3) show ?case by (rule login_ok_step)
qed

text \<open>
  C27.  However starts, exits and reaps interleave, at most one \<open>tailscale up\<close> runs; while one runs a
  start changes nothing and a cancel reaches it; and a manager that says it is busy is one the waiting
  goroutine will free.
\<close>

theorem login_one_at_a_time:
  assumes "login_reachable m"
  shows "(\<forall>p \<in> alive m. \<forall>q \<in> alive m. p = q) \<and>
    (\<forall>p \<in> alive m. login_cancel m = Some p \<and>
      (\<forall>spawns server hostname force. login_start spawns server hostname force m = (Inr (), m))) \<and>
    (lm_running m \<longrightarrow> (\<exists>p \<in> waiting m. \<not> lm_running (login_reap p m)))"
proof -
  have ok: "login_ok m" by (rule login_ok_reachable) (rule assms)
  then have "\<exists>p \<in> waiting m. \<not> lm_running (login_reap p m)" if "lm_running m"
    using that by (auto simp: login_ok_def login_reap_def Let_def)
  moreover have "\<forall>p \<in> alive m. lm_running m \<and> lm_cmd m = Some p" using ok by (simp add: login_ok_def)
  moreover from this have "\<forall>p \<in> alive m. \<forall>q \<in> alive m. p = q" by (metis option.inject)
  ultimately show ?thesis unfolding login_cancel_def login_start_def by simp
qed

theorem login_one_at_a_time_witness:
  "\<exists>m. login_reachable m \<and> alive m = {0} \<and> login_cancel m = Some 0 \<and>
     login_start (\<lambda>_. True) [] [] True m = (Inr (), m)"
proof -
  let ?m = "snd (login_start (\<lambda>_. True) [] [] False new_login_manager)"
  have "login_step new_login_manager ?m"
    by (rule login_step.start [of "\<lambda>_. True" "[]" "[]" False]) (rule surjective_pairing)
  then have "login_reachable ?m" unfolding login_reachable_def by blast
  moreover have "alive ?m = {0}" by (simp add: login_start_def new_login_manager_def)
  ultimately show ?thesis using login_one_at_a_time by fastforce
qed

end
