(* ===== verification/Tailscale_Api.thy ===== *)
theory Tailscale_Api
  imports Tailscale_Config Tailscale_Client Http_Reply
begin

text \<open>
  \<open>handlers_tailscale.go\<close>: the HTTP layer over \<open>internal/tailscale\<close>.  A request carries its decoded JSON
  body, \<open>None\<close> when decoding failed; the world is the file system and the supervisor's state.
\<close>

definition ts_config_path :: string where
  "ts_config_path = ''/var/lib/code-docker-router/tailscale/config.yaml''"

datatype ts_message =
    TsInvalidBody
  | TsNotFoundMsg
  | TsFailed ts_error
  | TsLoggedIn
  | TsClientFailed client_error

datatype ts_value =
    GlobalValue ts_global bool
  | ForwardValue ts_forward
  | ForwardsValue "ts_forward slice"
  | PublishValue publish
  | PublishesValue "publish slice"
  | StatusValue bool bool "status option"
  | StateValue ts_state
  | OkValue

type_synonym ts_reply = "(ts_message, ts_value) reply"
type_synonym ('b, 's) ts_world = "'b fs \<times> 's"

text \<open>\<open>errors.Is(err, tailscale.ErrValidation)\<close>\<close>

definition is_validation :: "ts_error \<Rightarrow> bool" where
  "is_validation e \<longleftrightarrow>
     (case e of TsNameRequired \<Rightarrow> True | TsBadHost _ \<Rightarrow> True | TsSelfHost _ _ \<Rightarrow> True | TsGuard _ \<Rightarrow> True
      | TsBadSocks \<Rightarrow> True | TsBadLogin \<Rightarrow> True | TsBadPort _ \<Rightarrow> True | _ \<Rightarrow> False)"

definition validation_status :: "ts_error \<Rightarrow> ts_reply" where
  "validation_status e = (if is_validation e then 400 else 500, ErrorBody (TsFailed e))"

section \<open>The global configuration\<close>

definition handle_get_tailscale_config :: "env \<Rightarrow> 'b ts_codec \<Rightarrow> 'b os \<Rightarrow> 'b fs \<Rightarrow> ts_reply" where
  "handle_get_tailscale_config env cd os fs =
     (case get_global_config cd os ts_config_path fs of
        Inl e \<Rightarrow> (500, ErrorBody (TsFailed e))
      | Inr cfg \<Rightarrow>
          (let pinned = login_server_pinned env;
               shown = (if pinned then cfg\<lparr>gl_login := env ''TAILSCALE_LOGIN_SERVER''\<rparr> else cfg)
           in (200, Body (GlobalValue shown pinned))))"

definition handle_put_tailscale_config ::
    "env \<Rightarrow> 'b ts_codec \<Rightarrow> 'b os \<Rightarrow> ('b fs \<Rightarrow> 's wire) \<Rightarrow> ts_global option \<Rightarrow> ('b, 's) ts_world \<Rightarrow>
       ts_reply \<times> ('b, 's) ts_world" where
  "handle_put_tailscale_config env cd os w req =
     (\<lambda>(fs, s).
       case req of
         None \<Rightarrow> ((400, ErrorBody TsInvalidBody), fs, s)
       | Some body \<Rightarrow>
           (let pinned = login_server_pinned env
            in case (if pinned then get_global_config cd os ts_config_path fs else Inr body) of
                 Inl e \<Rightarrow> ((500, ErrorBody (TsFailed e)), fs, s)
               | Inr existing \<Rightarrow>
                   (let body1 = (if pinned then body\<lparr>gl_login := gl_login existing\<rparr> else body);
                        shown = (if pinned then body1\<lparr>gl_login := env ''TAILSCALE_LOGIN_SERVER''\<rparr> else body1)
                    in change_and_restart w ''tailscale-forward'' validation_status
                         (\<lambda>_. (200, Body (GlobalValue shown pinned)))
                         (set_global_config cd os ts_config_path body1) (fs, s))))"

section \<open>Forwards\<close>

definition handle_list_tailscale_forwards :: "'b ts_codec \<Rightarrow> 'b os \<Rightarrow> 'b fs \<Rightarrow> ts_reply" where
  "handle_list_tailscale_forwards cd os fs =
     (case ts_list_forwards cd os ts_config_path fs of
        Inl e \<Rightarrow> (500, ErrorBody (TsFailed e))
      | Inr xs \<Rightarrow> (200, Body (ForwardsValue xs)))"

definition handle_add_tailscale_forward ::
    "'b ts_codec \<Rightarrow> 'b os \<Rightarrow> ('b fs \<Rightarrow> 's wire) \<Rightarrow> ts_forward option \<Rightarrow> ('b, 's) ts_world \<Rightarrow>
       ts_reply \<times> ('b, 's) ts_world" where
  "handle_add_tailscale_forward cd os w req =
     (\<lambda>(fs, s).
       case req of
         None \<Rightarrow> ((400, ErrorBody TsInvalidBody), fs, s)
       | Some body \<Rightarrow>
           change_and_restart w ''tailscale-forward''
             (\<lambda>e. if e = TsForwardExists then (409, ErrorBody (TsFailed e)) else validation_status e)
             (\<lambda>f. (201, Body (ForwardValue f)))
             (ts_add_forward cd os ts_config_path body) (fs, s))"

definition handle_update_tailscale_forward ::
    "'b ts_codec \<Rightarrow> 'b os \<Rightarrow> ('b fs \<Rightarrow> 's wire) \<Rightarrow> string \<Rightarrow> ts_forward option \<Rightarrow> ('b, 's) ts_world \<Rightarrow>
       ts_reply \<times> ('b, 's) ts_world" where
  "handle_update_tailscale_forward cd os w name req =
     (\<lambda>(fs, s).
       case req of
         None \<Rightarrow> ((400, ErrorBody TsInvalidBody), fs, s)
       | Some body \<Rightarrow>
           change_and_restart w ''tailscale-forward''
             (\<lambda>e. if e = TsForwardNotFound then (404, ErrorBody TsNotFoundMsg) else validation_status e)
             (\<lambda>f. (200, Body (ForwardValue f)))
             (ts_update_forward cd os ts_config_path name body) (fs, s))"

definition handle_delete_tailscale_forward ::
    "'b ts_codec \<Rightarrow> 'b os \<Rightarrow> ('b fs \<Rightarrow> 's wire) \<Rightarrow> string \<Rightarrow> ('b, 's) ts_world \<Rightarrow>
       ts_reply \<times> ('b, 's) ts_world" where
  "handle_delete_tailscale_forward cd os w name =
     change_and_restart w ''tailscale-forward''
       (\<lambda>e. if e = TsForwardNotFound then (404, ErrorBody TsNotFoundMsg) else (500, ErrorBody (TsFailed e)))
       (\<lambda>_. (204, NoBody)) (ts_delete_forward cd os ts_config_path name)"

section \<open>Publishes\<close>

definition publish_status :: "ts_error \<Rightarrow> ts_reply" where
  "publish_status e = (if is_validation e \<or> e = TsInvalidMode then 400 else 500, ErrorBody (TsFailed e))"

definition handle_list_tailscale_publish :: "'b ts_codec \<Rightarrow> 'b os \<Rightarrow> 'b fs \<Rightarrow> ts_reply" where
  "handle_list_tailscale_publish cd os fs =
     (case list_publish cd os ts_config_path fs of
        Inl e \<Rightarrow> (500, ErrorBody (TsFailed e))
      | Inr xs \<Rightarrow> (200, Body (PublishesValue xs)))"

definition handle_add_tailscale_publish ::
    "env \<Rightarrow> 'b ts_codec \<Rightarrow> 'b os \<Rightarrow> ('b fs \<Rightarrow> 's wire) \<Rightarrow> publish option \<Rightarrow> ('b, 's) ts_world \<Rightarrow>
       ts_reply \<times> ('b, 's) ts_world" where
  "handle_add_tailscale_publish env cd os w req =
     (\<lambda>(fs, s).
       case req of
         None \<Rightarrow> ((400, ErrorBody TsInvalidBody), fs, s)
       | Some body \<Rightarrow>
           change_and_restart w ''tailscale-publish''
             (\<lambda>e. if e = TsPublishExists then (409, ErrorBody (TsFailed e)) else publish_status e)
             (\<lambda>p. (201, Body (PublishValue p)))
             (add_publish env cd os ts_config_path body) (fs, s))"

definition handle_update_tailscale_publish ::
    "env \<Rightarrow> 'b ts_codec \<Rightarrow> 'b os \<Rightarrow> ('b fs \<Rightarrow> 's wire) \<Rightarrow> string \<Rightarrow> publish option \<Rightarrow> ('b, 's) ts_world \<Rightarrow>
       ts_reply \<times> ('b, 's) ts_world" where
  "handle_update_tailscale_publish env cd os w name req =
     (\<lambda>(fs, s).
       case req of
         None \<Rightarrow> ((400, ErrorBody TsInvalidBody), fs, s)
       | Some body \<Rightarrow>
           change_and_restart w ''tailscale-publish''
             (\<lambda>e. if e = TsPublishNotFound then (404, ErrorBody TsNotFoundMsg) else publish_status e)
             (\<lambda>p. (200, Body (PublishValue p)))
             (update_publish env cd os ts_config_path name body) (fs, s))"

definition handle_delete_tailscale_publish ::
    "'b ts_codec \<Rightarrow> 'b os \<Rightarrow> ('b fs \<Rightarrow> 's wire) \<Rightarrow> string \<Rightarrow> ('b, 's) ts_world \<Rightarrow>
       ts_reply \<times> ('b, 's) ts_world" where
  "handle_delete_tailscale_publish cd os w name =
     change_and_restart w ''tailscale-publish''
       (\<lambda>e. if e = TsPublishNotFound then (404, ErrorBody TsNotFoundMsg) else (500, ErrorBody (TsFailed e)))
       (\<lambda>_. (204, NoBody)) (delete_publish cd os ts_config_path name)"

section \<open>Status and login\<close>

definition handle_tailscale_status :: "env \<Rightarrow> (string \<Rightarrow> status_raw option) \<Rightarrow> string option \<Rightarrow> ts_reply" where
  "handle_tailscale_status env decode out =
     (if \<not> enabled env then (200, Body (StatusValue False False None))
      else case get_status decode out of
             Inl _ \<Rightarrow> (200, Body (StatusValue False True None))
           | Inr st \<Rightarrow> (200, Body (StatusValue True True (Some st))))"

definition handle_tailscale_state :: "env \<Rightarrow> (string \<Rightarrow> raw_state option) \<Rightarrow> string option \<Rightarrow> ts_reply" where
  "handle_tailscale_state env decode out =
     (case get_state env decode out of
        Inl e \<Rightarrow> (503, ErrorBody (TsClientFailed e))
      | Inr st \<Rightarrow> (200, Body (StateValue st)))"

text \<open>A body that is missing or does not decode reads as \<open>forceReauth: false\<close>.\<close>

definition handle_tailscale_login_start ::
    "env \<Rightarrow> 'b ts_codec \<Rightarrow> 'b os \<Rightarrow> 'b fs \<Rightarrow> (string \<Rightarrow> status_raw option) \<Rightarrow> string option \<Rightarrow>
       (string list \<Rightarrow> bool) \<Rightarrow> bool option \<Rightarrow> login \<Rightarrow> ts_reply \<times> login" where
  "handle_tailscale_login_start env cd os fs decode out spawns req m =
     (let force = (case req of Some b \<Rightarrow> b | None \<Rightarrow> False);
          start = (case effective_login_server env cd os ts_config_path fs of
                     Inl e \<Rightarrow> ((500, ErrorBody (TsFailed e)), m)
                   | Inr server \<Rightarrow>
                       (case login_start spawns server (env ''TAILSCALE_HOSTNAME'') force m of
                          (Inl e, m') \<Rightarrow> ((500, ErrorBody (TsClientFailed e)), m')
                        | (Inr _, m') \<Rightarrow> ((200, Body OkValue), m')))
      in if force then start
         else case get_status decode out of
                Inl _ \<Rightarrow> start
              | Inr st \<Rightarrow>
                  if ss_backend st = ''Running'' then ((409, ErrorBody TsLoggedIn), m)
                  else if ss_auth_url st \<noteq> [] then ((200, Body OkValue), m)
                  else start)"

definition handle_tailscale_login_cancel :: "login \<Rightarrow> ts_reply \<times> nat option" where
  "handle_tailscale_login_cancel m = ((200, Body OkValue), login_cancel m)"

section \<open>Every change\<close>

datatype ts_http =
    PutConfig "ts_global option"
  | PostForward "ts_forward option"
  | PutForward string "ts_forward option"
  | RemoveForward string
  | PostPublish "publish option"
  | PutPublish string "publish option"
  | RemovePublish string

fun ts_api ::
    "env \<Rightarrow> 'b ts_codec \<Rightarrow> 'b os \<Rightarrow> ('b fs \<Rightarrow> 's wire) \<Rightarrow> ts_http \<Rightarrow> ('b, 's) ts_world \<Rightarrow>
       ts_reply \<times> ('b, 's) ts_world" where
  "ts_api env cd os w (PutConfig b) = handle_put_tailscale_config env cd os w b"
| "ts_api env cd os w (PostForward b) = handle_add_tailscale_forward cd os w b"
| "ts_api env cd os w (PutForward n b) = handle_update_tailscale_forward cd os w n b"
| "ts_api env cd os w (RemoveForward n) = handle_delete_tailscale_forward cd os w n"
| "ts_api env cd os w (PostPublish b) = handle_add_tailscale_publish env cd os w b"
| "ts_api env cd os w (PutPublish n b) = handle_update_tailscale_publish env cd os w n b"
| "ts_api env cd os w (RemovePublish n) = handle_delete_tailscale_publish cd os w n"

fun ts_program :: "ts_http \<Rightarrow> string" where
  "ts_program (PostPublish b) = ''tailscale-publish''"
| "ts_program (PutPublish n b) = ''tailscale-publish''"
| "ts_program (RemovePublish n) = ''tailscale-publish''"
| "ts_program _ = ''tailscale-forward''"

text \<open>The change a request asks for, on a document \<open>c\<close>: a pinned login server is kept.\<close>

fun ts_change :: "env \<Rightarrow> ts_config \<Rightarrow> ts_http \<Rightarrow> ts_request option" where
  "ts_change env c (PutConfig b) =
     map_option (\<lambda>g. SetGlobal (if login_server_pinned env then g\<lparr>gl_login := ts_login c\<rparr> else g)) b"
| "ts_change env c (PostForward b) = map_option AddTsForward b"
| "ts_change env c (PutForward n b) = map_option (UpdateTsForward n) b"
| "ts_change env c (RemoveForward n) = Some (DeleteTsForward n)"
| "ts_change env c (PostPublish b) = map_option AddPublish b"
| "ts_change env c (PutPublish n b) = map_option (UpdatePublish n) b"
| "ts_change env c (RemovePublish n) = Some (DeletePublish n)"

lemma refused_statuses [simp]:
  "refusal (validation_status e)" "refusal (publish_status e)"
  by (simp_all add: validation_status_def publish_status_def)

lemma answer_simps [simp]: "answer (Inl e) = Some e" "answer (Inr v) = None"
  by (simp_all add: answer_def)

lemma get_global_stored:
  assumes "get_global_config cd os path fs = Inr g" "stored_doc cd empty_ts_config path fs = Some c"
  shows "gl_login g = ts_login c"
  using assms by (auto simp: get_global_config_def res_simps dest!: ts.load_stored)

lemmas tailscale_handlers =
  handle_add_tailscale_forward_def handle_update_tailscale_forward_def handle_delete_tailscale_forward_def
  handle_add_tailscale_publish_def handle_update_tailscale_publish_def handle_delete_tailscale_publish_def

lemma ts_api_cases:
  assumes "ts_api env cd os w req (fs, s) = (r, fs', s')"
    and "stored_doc cd empty_ts_config ts_config_path fs = Some c"
  obtains (refused) "refusal r" "fs' = fs" "s' = s"
  | (failed) q e where "ts_change env c req = Some q" "ts_serve env cd ts_config_path os q fs = (Some e, fs')"
      "refusal r" "s' = s"
  | (accepted) q where "ts_change env c req = Some q" "ts_serve env cd ts_config_path os q fs = (None, fs')"
      "success r" "restarted w (ts_program req) fs' s'"
  | (saved) q e where "ts_change env c req = Some q" "ts_serve env cd ts_config_path os q fs = (None, fs')"
      "r = write_supervisor_err e"
proof (cases req)
  case (PutConfig b)
  show ?thesis
  proof (cases b)
    case None
    then show ?thesis using assms PutConfig by (auto simp: handle_put_tailscale_config_def intro: refused)
  next
    case (Some g)
    show ?thesis
    proof (cases "login_server_pinned env")
      case True
      show ?thesis
      proof (cases "get_global_config cd os ts_config_path fs")
        case (Inl e)
        then show ?thesis using assms PutConfig Some True
          by (auto simp: handle_put_tailscale_config_def intro: refused)
      next
        case (Inr g0)
        from get_global_stored [OF this assms(2)] show ?thesis
          using assms PutConfig Some True Inr
          by (auto simp: handle_put_tailscale_config_def elim!: change_and_restart_cases intro: failed accepted saved)
      qed
    next
      case False
      then show ?thesis using assms PutConfig Some
        by (auto simp: handle_put_tailscale_config_def elim!: change_and_restart_cases intro: failed accepted saved)
    qed
  qed
qed (insert assms, auto simp: tailscale_handlers elim!: change_and_restart_cases
    intro: refused failed accepted saved split: if_splits option.splits)

lemma apfst_answer [simp]:
  "apfst answer x = (Some e, s') \<longleftrightarrow> x = (Inl e, s')"
  "apfst answer x = (None, s') \<longleftrightarrow> (\<exists>v. x = (Inr v, s'))"
  by (cases x; cases "fst x"; auto)+

lemma ts_serve_failed:
  "ts_serve env cd path os q fs = (Some e, fs') \<Longrightarrow>
     stored_doc cd empty_ts_config path fs' = stored_doc cd empty_ts_config path fs"
  by (cases q) (auto simp: set_global_config_def ts_add_forward_def ts_update_forward_def ts_delete_forward_def
      add_publish_def update_publish_def delete_publish_def Let_def dest: ts.checked_failed ts.modify_failed)

definition keeps_login :: "(ts_config \<Rightarrow> (ts_config \<times> 'r) ts_checked) \<Rightarrow> bool" where
  "keeps_login change \<longleftrightarrow> (\<forall>c c' v. change c = Inr (c', v) \<longrightarrow> ts_login c' = ts_login c)"

lemma keeps_login_changes:
  "keeps_login (ts_put_forward f)" "keeps_login (ts_replace_forward n f)" "keeps_login (ts_drop_forward n)"
  "keeps_login (put_publish p)" "keeps_login (replace_publish n p)" "keeps_login (drop_publish n)"
  by (auto simp: keeps_login_def ts_put_forward_def ts_replace_forward_def ts_drop_forward_def put_publish_def
      replace_publish_def drop_publish_def split: option.splits)

lemma checked_keeps_login:
  assumes "checked_modify chk (ts_load cd os path) (ts_save cd os path) change fs = (Inr v, fs')"
    and "keeps_login change" "codec_ok cd norm_ts_config" "stored_doc cd empty_ts_config path fs = Some c"
    and "stored_doc cd empty_ts_config path fs' = Some d"
  shows "ts_login d = ts_login c"
proof -
  from ts.checked_ok [OF assms(1)] assms(4) obtain c' where
    "change c = Inr (c', v)" "stored_doc cd empty_ts_config path fs' = reread_doc cd c'" by auto
  then show ?thesis
    using assms(2,5) reread_codec_ok [OF assms(3), of c' d]
    by (auto simp: keeps_login_def norm_ts_config_def)
qed

lemma ts_serve_login:
  assumes "ts_change env c req = Some q" "login_server_pinned env"
    and "ts_serve env cd path os q fs = (None, fs')" "codec_ok cd norm_ts_config"
    and "stored_doc cd empty_ts_config path fs = Some c" "stored_doc cd empty_ts_config path fs' = Some d"
  shows "ts_login d = ts_login c"
proof (cases q)
  case (SetGlobal g)
  then obtain v where run: "checked_modify (check_global g) (ts_load cd os path) (ts_save cd os path) (put_global g) fs = (Inr v, fs')"
    using assms(3) by (auto simp: set_global_config_def)
  have "gl_login g = ts_login c" using assms(1,2) SetGlobal by (cases req) auto
  with ts.checked_ok [OF run] reread_codec_ok [OF assms(4)] assms(5,6) show ?thesis
    by (fastforce simp: put_global_def norm_ts_config_def)
qed (use assms(3) in \<open>auto simp: ts_add_forward_def ts_update_forward_def ts_delete_forward_def
      add_publish_def update_publish_def delete_publish_def Let_def modify_is_checked
      dest!: keeps_login_changes [THEN checked_keeps_login [rotated], OF assms(4-6)]\<close>)

text \<open>
  C20.  Every change over HTTP ends in one of three ways: success, the document is the changed one and the
  program that reads it was started on it; the answer that says the change was saved but the restart
  failed, with the document changed; or a 4xx or 5xx with the document and the programs as before.
  A login server pinned by the environment is never written over.
\<close>

theorem ts_api_contract:
  assumes "ts_api env cd os w req (fs, s) = (r, fs', s')"
    and "stored_doc cd empty_ts_config ts_config_path fs = Some c" and "codec_ok cd norm_ts_config"
  shows "(if refusal r
      then s' = s \<and> stored_doc cd empty_ts_config ts_config_path fs' = Some c
      else (\<exists>q. ts_change env c req = Some q \<and> ts_serve env cd ts_config_path os q fs = (None, fs')) \<and>
        (success r \<and> restarted w (ts_program req) fs' s' \<or> (\<exists>e. r = write_supervisor_err e))) \<and>
    (login_server_pinned env \<longrightarrow>
      (\<forall>d. stored_doc cd empty_ts_config ts_config_path fs' = Some d \<longrightarrow> ts_login d = ts_login c))"
  using assms(1,2)
proof (cases rule: ts_api_cases)
  case refused
  then show ?thesis using assms(2) by simp
next
  case (failed q e)
  from ts_serve_failed [OF failed(2)] show ?thesis using failed assms(2) by simp
next
  case (accepted q)
  then show ?thesis using ts_serve_login [OF _ _ _ assms(3,2)] by simp
next
  case (saved q e)
  then show ?thesis using ts_serve_login [OF _ _ _ assms(3,2)] by auto
qed

theorem ts_api_contract_witness:
  "\<exists>fs'. ts_api (\<lambda>_. []) (plain_codec norm_ts_config) quiet_os (\<lambda>_. calm_wire) (PostPublish (Some sample_publish))
      (Map.empty, ()) = ((201, Body (PublishValue (fill_publish sample_publish))), fs', ()) \<and>
    ts_serve (\<lambda>_. []) (plain_codec norm_ts_config) ts_config_path quiet_os (AddPublish sample_publish) Map.empty = (None, fs') \<and>
    restarted (\<lambda>_. calm_wire) ''tailscale-publish'' fs' ()"
proof -
  obtain fs' where "add_publish (\<lambda>_. []) (plain_codec norm_ts_config) quiet_os ts_config_path sample_publish Map.empty =
      (Inr (fill_publish sample_publish), fs')" by (rule sample_add_publish)
  then have run: "ts_api (\<lambda>_. []) (plain_codec norm_ts_config) quiet_os (\<lambda>_. calm_wire) (PostPublish (Some sample_publish))
      (Map.empty, ()) = ((201, Body (PublishValue (fill_publish sample_publish))), fs', ())"
    by (simp add: handle_add_tailscale_publish_def change_and_restart_def restart_and_reply_def)
  have "stored_doc (plain_codec norm_ts_config) empty_ts_config ts_config_path Map.empty = Some empty_ts_config"
    by (simp add: stored_doc_def)
  from ts_api_contract [OF run this codec_ok_plain] run show ?thesis
    by (auto simp: refusal_def write_supervisor_err_def)
qed

end
