(* ===== verification/Tinyauth_Users.thy ===== *)
theory Tinyauth_Users
  imports Http_Reply Go_Regexp
begin

text \<open>
  \<open>internal/tinyauthusers/store.go\<close> and \<open>handlers_tinyauth.go\<close>: the users of tinyauth, kept as JSON,
  rendered to a shell file tinyauth's start script sources.  \<open>bcrypt.GenerateFromPassword\<close> is the
  parameter \<open>bc\<close> (a result per call, so the salt is its choice), the JSON codec is a parameter.  The package
  takes no lock: an operation here is one request run alone, and \<open>overlapping_additions_lose\<close> shows what
  two overlapping ones can do.
\<close>

section \<open>The store\<close>

definition tu_store_path :: string where
  "tu_store_path = ''/var/lib/code-docker-router/tinyauth-users/users.json''"

definition env_file_path :: string where
  "env_file_path = ''/var/lib/code-docker-router/tinyauth-users/env''"

text \<open>\<open>^[A-Za-z0-9_.@-]+$\<close>\<close>

definition name_char :: "char \<Rightarrow> bool" where
  "name_char c \<longleftrightarrow> is_alnum c \<or> c = CHR ''_'' \<or> c = CHR ''.'' \<or> c = CHR ''@'' \<or> c = CHR ''-''"

definition tu_name_re :: rx where
  "tu_name_re = RPlus (RCls name_char)"

record tu_user =
  tu_name :: string
  tu_hash :: string

datatype tu_error =
    TuRequired
  | TuPasswordRequired
  | TuBadName
  | TuUserExists
  | TuUserNotFound
  | TuBcrypt
  | TuStore store_error

type_synonym 'a tu_checked = "tu_error + 'a"

definition tu_validate_name :: "string \<Rightarrow> unit tu_checked" where
  "tu_validate_name name = (if \<not> rx_match tu_name_re name then Inl TuBadName else Inr ())"

definition squote :: char where
  "squote = CHR 0x27"

definition shell_quote :: "string \<Rightarrow> string" where
  "shell_quote s = [squote] @ replace_char squote [squote, CHR 0x5C, squote, squote] s @ [squote]"

type_synonym tu_codec = "(tu_user list, string) codec"

definition tu_load :: "tu_codec \<Rightarrow> string os \<Rightarrow> string \<Rightarrow> string fs \<Rightarrow> tu_user list tu_checked" where
  "tu_load cd os path fs = map_error TuStore (load_doc cd [] path os fs)"

definition tu_save :: "tu_codec \<Rightarrow> string os \<Rightarrow> string \<Rightarrow> tu_user list \<Rightarrow> string fs \<Rightarrow> unit tu_checked \<times> string fs" where
  "tu_save cd os path users fs =
     (case mkdir_all os (path_dir path) fs of
        (Inl e, fs1) \<Rightarrow> (Inl (TuStore (StoreIO e)), fs1)
      | (Inr _, fs1) \<Rightarrow>
          (case marshal cd users of
             None \<Rightarrow> (Inl (TuStore MarshalFailed), fs1)
           | Some data \<Rightarrow>
               apfst (map_error (\<lambda>e. TuStore (StoreIO e)))
                 (run_acts [write_file os (tmp_path path) data 0x180, rename os (tmp_path path) path] fs1)))"

definition list_users :: "tu_codec \<Rightarrow> string os \<Rightarrow> string \<Rightarrow> string fs \<Rightarrow> tu_user list tu_checked" where
  "list_users cd os path fs = tu_load cd os path fs"

definition check_new_user :: "string \<Rightarrow> string \<Rightarrow> unit tu_checked" where
  "check_new_user name plaintext =
     (if name = [] \<or> plaintext = [] then Inl TuRequired else tu_validate_name name)"

definition put_user ::
    "(string \<Rightarrow> string option) \<Rightarrow> string \<Rightarrow> string \<Rightarrow> tu_user list \<Rightarrow> (tu_user list \<times> unit) tu_checked" where
  "put_user bc name plaintext users =
     (if key_taken tu_name name users then Inl TuUserExists
      else case bc plaintext of
             None \<Rightarrow> Inl TuBcrypt
           | Some h \<Rightarrow> Inr (users @ [\<lparr>tu_name = name, tu_hash = h\<rparr>], ()))"

definition rehash_user ::
    "(string \<Rightarrow> string option) \<Rightarrow> string \<Rightarrow> string \<Rightarrow> tu_user list \<Rightarrow> (tu_user list \<times> unit) tu_checked" where
  "rehash_user bc name plaintext users =
     (case find_index (\<lambda>u. tu_name u = name) users of
        None \<Rightarrow> Inl TuUserNotFound
      | Some i \<Rightarrow>
          (case bc plaintext of
             None \<Rightarrow> Inl TuBcrypt
           | Some h \<Rightarrow> Inr (users[i := (users ! i)\<lparr>tu_hash := h\<rparr>], ())))"

definition drop_user :: "string \<Rightarrow> tu_user list \<Rightarrow> (tu_user list \<times> unit) tu_checked" where
  "drop_user name users =
     (case remove_entry tu_name name users of
        None \<Rightarrow> Inl TuUserNotFound
      | Some kept \<Rightarrow> Inr (kept, ()))"

definition add_user ::
    "(string \<Rightarrow> string option) \<Rightarrow> tu_codec \<Rightarrow> string os \<Rightarrow> string \<Rightarrow> string \<Rightarrow> string \<Rightarrow> string fs \<Rightarrow>
       unit tu_checked \<times> string fs" where
  "add_user bc cd os path name plaintext =
     checked_modify (check_new_user name plaintext) (tu_load cd os path) (tu_save cd os path)
       (put_user bc name plaintext)"

definition set_password ::
    "(string \<Rightarrow> string option) \<Rightarrow> tu_codec \<Rightarrow> string os \<Rightarrow> string \<Rightarrow> string \<Rightarrow> string \<Rightarrow> string fs \<Rightarrow>
       unit tu_checked \<times> string fs" where
  "set_password bc cd os path name plaintext =
     checked_modify (if plaintext = [] then Inl TuPasswordRequired else Inr ())
       (tu_load cd os path) (tu_save cd os path) (rehash_user bc name plaintext)"

definition delete_user ::
    "tu_codec \<Rightarrow> string os \<Rightarrow> string \<Rightarrow> string \<Rightarrow> string fs \<Rightarrow> unit tu_checked \<times> string fs" where
  "delete_user cd os path name =
     modify_doc (tu_load cd os path) (tu_save cd os path) (drop_user name)"

definition env_pairs :: "tu_user list \<Rightarrow> string list" where
  "env_pairs users = [tu_name u @ '':'' @ tu_hash u. u \<leftarrow> users, tu_hash u \<noteq> []]"

definition env_line :: "tu_user list \<Rightarrow> string" where
  "env_line users = ''TINYAUTH_AUTH_USERS='' @ shell_quote (join '','' (env_pairs users)) @ [NL]"

definition render_env_file :: "string os \<Rightarrow> string \<Rightarrow> tu_user list \<Rightarrow> string act" where
  "render_env_file os path users = credential_write os path (env_line users) 0x180"

section \<open>The handlers\<close>

datatype tu_message =
    Pinned
  | InvalidBody
  | UserNotFound
  | OpFailed tu_error
  | RenderFailed io_error

datatype tu_value =
    UserList bool "(string \<times> bool) list"
  | UserAnswer string bool

type_synonym tu_reply = "(tu_message, tu_value) reply"
type_synonym 's tu_world = "string fs \<times> 's"

definition tinyauth_pinned :: "env \<Rightarrow> bool" where
  "tinyauth_pinned env \<longleftrightarrow> env ''TINYAUTH_AUTH_USERS'' \<noteq> []"

definition apply_tinyauth_users ::
    "tu_codec \<Rightarrow> string os \<Rightarrow> (string fs \<Rightarrow> 's wire) \<Rightarrow> tu_reply \<Rightarrow> 's tu_world \<Rightarrow> tu_reply \<times> 's tu_world" where
  "apply_tinyauth_users cd os w done_reply =
     (\<lambda>(fs, s).
       case list_users cd os tu_store_path fs of
         Inl e \<Rightarrow> ((500, ErrorBody (OpFailed e)), fs, s)
       | Inr users \<Rightarrow>
           (case render_env_file os env_file_path users fs of
              (Inl e, fs') \<Rightarrow> ((500, ErrorBody (RenderFailed e)), fs', s)
            | (Inr _, fs') \<Rightarrow> restart_and_reply w ''tinyauth'' done_reply (fs', s)))"

definition handle_list_tinyauth_users :: "env \<Rightarrow> tu_codec \<Rightarrow> string os \<Rightarrow> string fs \<Rightarrow> tu_reply" where
  "handle_list_tinyauth_users env cd os fs =
     (case list_users cd os tu_store_path fs of
        Inl e \<Rightarrow> (500, ErrorBody (OpFailed e))
      | Inr users \<Rightarrow>
          (200, Body (UserList (tinyauth_pinned env) (map (\<lambda>u. (tu_name u, tu_hash u = [])) users))))"

definition handle_add_tinyauth_user ::
    "env \<Rightarrow> (string \<Rightarrow> string option) \<Rightarrow> tu_codec \<Rightarrow> string os \<Rightarrow> (string fs \<Rightarrow> 's wire) \<Rightarrow>
       (string \<times> string) option \<Rightarrow> 's tu_world \<Rightarrow> tu_reply \<times> 's tu_world" where
  "handle_add_tinyauth_user env bc cd os w req =
     (\<lambda>(fs, s).
       if tinyauth_pinned env then ((409, ErrorBody Pinned), fs, s)
       else case req of
              None \<Rightarrow> ((400, ErrorBody InvalidBody), fs, s)
            | Some (name, password) \<Rightarrow>
                (case add_user bc cd os tu_store_path name password fs of
                   (Inl e, fs') \<Rightarrow> ((if e = TuUserExists then 409 else 400, ErrorBody (OpFailed e)), fs', s)
                 | (Inr _, fs') \<Rightarrow> apply_tinyauth_users cd os w (201, Body (UserAnswer name False)) (fs', s)))"

definition handle_set_tinyauth_user_password ::
    "env \<Rightarrow> (string \<Rightarrow> string option) \<Rightarrow> tu_codec \<Rightarrow> string os \<Rightarrow> (string fs \<Rightarrow> 's wire) \<Rightarrow> string \<Rightarrow>
       string option \<Rightarrow> 's tu_world \<Rightarrow> tu_reply \<times> 's tu_world" where
  "handle_set_tinyauth_user_password env bc cd os w name req =
     (\<lambda>(fs, s).
       if tinyauth_pinned env then ((409, ErrorBody Pinned), fs, s)
       else case req of
              None \<Rightarrow> ((400, ErrorBody InvalidBody), fs, s)
            | Some password \<Rightarrow>
                (case set_password bc cd os tu_store_path name password fs of
                   (Inl e, fs') \<Rightarrow>
                     (if e = TuUserNotFound then ((404, ErrorBody UserNotFound), fs', s)
                      else ((400, ErrorBody (OpFailed e)), fs', s))
                 | (Inr _, fs') \<Rightarrow> apply_tinyauth_users cd os w (200, Body (UserAnswer name False)) (fs', s)))"

definition handle_delete_tinyauth_user ::
    "env \<Rightarrow> tu_codec \<Rightarrow> string os \<Rightarrow> (string fs \<Rightarrow> 's wire) \<Rightarrow> string \<Rightarrow> 's tu_world \<Rightarrow> tu_reply \<times> 's tu_world" where
  "handle_delete_tinyauth_user env cd os w name =
     (\<lambda>(fs, s).
       if tinyauth_pinned env then ((409, ErrorBody Pinned), fs, s)
       else case delete_user cd os tu_store_path name fs of
              (Inl e, fs') \<Rightarrow>
                (if e = TuUserNotFound then ((404, ErrorBody UserNotFound), fs', s)
                 else ((500, ErrorBody (OpFailed e)), fs', s))
            | (Inr _, fs') \<Rightarrow> apply_tinyauth_users cd os w (204, NoBody) (fs', s))"

datatype tu_request =
    AddTuUser "(string \<times> string) option"
  | SetTuPassword string "string option"
  | DeleteTuUser string

fun tu_serve ::
    "env \<Rightarrow> (string \<Rightarrow> string option) \<Rightarrow> tu_codec \<Rightarrow> string os \<Rightarrow> (string fs \<Rightarrow> 's wire) \<Rightarrow> tu_request \<Rightarrow>
       's tu_world \<Rightarrow> tu_reply \<times> 's tu_world" where
  "tu_serve env bc cd os w (AddTuUser req) = handle_add_tinyauth_user env bc cd os w req"
| "tu_serve env bc cd os w (SetTuPassword n req) = handle_set_tinyauth_user_password env bc cd os w n req"
| "tu_serve env bc cd os w (DeleteTuUser n) = handle_delete_tinyauth_user env cd os w n"

section \<open>The store contract\<close>

lemma tu_save_eq:
  "marshal cd users = Some data \<Longrightarrow>
     tu_save cd os path users fs = apfst (map_error (\<lambda>e. TuStore (StoreIO e))) (credential_write os path data 0x180 fs)"
  by (simp add: tu_save_def credential_write_def credential_write_acts_def split: prod.splits sum.splits)

lemma tu_save_unencoded:
  "marshal cd users = None \<Longrightarrow> tu_save cd os path users fs = (r, fs') \<Longrightarrow> is_err r \<and> fs' = fs"
  by (auto simp: tu_save_def mkdir_all_def split: if_splits)

lemma tu_save_ok: "tu_save cd os path users fs = (Inr u, fs') \<Longrightarrow> stored_doc cd [] path fs' = reread_doc cd users"
  by (cases "marshal cd users")
    (auto simp: tu_save_eq stored_doc_def reread_doc_def res_simps apfst_def map_prod_def
      dest!: tu_save_unencoded credential_write_ok split: prod.splits)

lemma tu_save_failed: "tu_save cd os path users fs = (Inl e, fs') \<Longrightarrow> stored_doc cd [] path fs' = stored_doc cd [] path fs"
  by (cases "marshal cd users")
    (auto simp: tu_save_eq stored_doc_def res_simps apfst_def map_prod_def
      dest!: tu_save_unencoded credential_write_err [where q = path] split: prod.splits)

interpretation tu: config_store "tu_load cd os path" "tu_save cd os path" "stored_doc cd [] path" "reread_doc cd"
  for cd os path
  by unfold_locales
    (auto simp: tu_load_def res_simps intro: load_doc_stored tu_save_ok tu_save_failed)

interpretation tu_keys: keyed_entries tu_name "insert_entry tu_name" "remove_entry tu_name"
  by (rule keyed_entries_list)

section \<open>The rendered file\<close>

text \<open>
  What a POSIX shell makes of a word written with single quotes and backslashes only: inside quotes every
  byte is literal, outside a backslash makes the next one literal; anything else outside is not such a word.
\<close>

fun shell_word :: "bool \<Rightarrow> string \<Rightarrow> string option" where
  "shell_word quoted [] = (if quoted then None else Some [])"
| "shell_word True (c # cs) =
     (if c = squote then shell_word False cs else map_option ((#) c) (shell_word True cs))"
| "shell_word False (c # cs) =
     (if c = squote then shell_word True cs
      else if code c = 0x5C then (case cs of [] \<Rightarrow> None | d # ds \<Rightarrow> map_option ((#) d) (shell_word False ds))
      else None)"

text \<open>Sourcing the file: the users tinyauth is given, \<open>name:hash\<close> pairs separated by commas.\<close>

definition sourced_users :: "string \<Rightarrow> (string \<times> string) list option" where
  "sourced_users file =
     (if has_prefix file ''TINYAUTH_AUTH_USERS='' \<and> has_suffix file [NL] then
        (case shell_word False (trim_suffix (trim_prefix file ''TINYAUTH_AUTH_USERS='') [NL]) of
           None \<Rightarrow> None
         | Some v \<Rightarrow> if v = [] then Some [] else those (map (cut CHR '':'') (split_on CHR '','' v)))
      else None)"

lemma shell_word_quoted:
  "shell_word True (replace_char squote [squote, CHR 0x5C, squote, squote] s @ [squote]) = Some s"
  by (induction s) (simp_all add: replace_char_def squote_def code_def)

lemma shell_word_quote: "shell_word False (shell_quote s) = Some s"
  using shell_word_quoted [of s] by (simp add: shell_quote_def)

definition users_ok :: "tu_user list \<Rightarrow> bool" where
  "users_ok users \<longleftrightarrow>
     unique_keys tu_name users \<and>
     (\<forall>u \<in> set users. rx_match tu_name_re (tu_name u) \<and> CHR '','' \<notin> set (tu_hash u))"

definition credentials :: "tu_user list \<Rightarrow> (string \<times> string) list" where
  "credentials users = [(tu_name u, tu_hash u). u \<leftarrow> users, tu_hash u \<noteq> []]"

lemma tu_name_re_iff: "rx_match tu_name_re s \<longleftrightarrow> s \<noteq> [] \<and> (\<forall>c \<in> set s. name_char c)"
  by (simp add: tu_name_re_def match_plus_cls)

lemma users_ok_name:
  assumes "users_ok users" "u \<in> set users"
  shows "CHR '','' \<notin> set (tu_name u) \<and> CHR '':'' \<notin> set (tu_name u) \<and> CHR '','' \<notin> set (tu_hash u)"
proof -
  have "\<not> name_char CHR '',''" "\<not> name_char CHR '':''" by (simp_all add: name_char_def char_class_defs code_def)
  moreover have "\<forall>c \<in> set (tu_name u). name_char c"
    using assms by (simp add: users_ok_def tu_name_re_iff)
  moreover have "CHR '','' \<notin> set (tu_hash u)" using assms by (simp add: users_ok_def)
  ultimately show ?thesis by blast
qed

lemma those_map: "(\<And>x. x \<in> set xs \<Longrightarrow> f x = Some (g x)) \<Longrightarrow> those (map f xs) = Some (map g xs)"
  by (induction xs) auto


lemma sourced_env_line:
  assumes "users_ok users"
  shows "sourced_users (env_line users) = Some (credentials users)"
proof -
  let ?pairs = "env_pairs users"
  have no_comma: "CHR '','' \<notin> set x" if "x \<in> set ?pairs" for x
    using that users_ok_name [OF assms] by (auto simp: env_pairs_def)
  have bdy: "trim_suffix (trim_prefix (env_line users) ''TINYAUTH_AUTH_USERS='') [NL] =
      shell_quote (join '','' ?pairs)"
    unfolding env_line_def trim_prefix_append by (rule trim_suffix_append)
  have shape: "has_prefix (env_line users) ''TINYAUTH_AUTH_USERS='' \<and> has_suffix (env_line users) [NL]"
    by (auto simp: env_line_def str_simps)
  have cuts: "cut CHR '':'' (tu_name u @ '':'' @ tu_hash u) = Some (tu_name u, tu_hash u)" if "u \<in> set users" for u
  proof -
    have "CHR '':'' \<notin> set (tu_name u)"
      using users_ok_name [OF assms that] by blast
    then show ?thesis using cut_append [of "CHR '':''" "tu_name u" "tu_hash u"] by simp
  qed
  show ?thesis
  proof (cases "?pairs = []")
    case True
    then have "credentials users = []" by (auto simp: env_pairs_def credentials_def)
    then show ?thesis using shape bdy True by (simp add: sourced_users_def shell_word_quote)
  next
    case False
    have "join '','' ?pairs \<noteq> []"
    proof -
      obtain x xs where xs: "?pairs = x # xs" using False by (cases ?pairs) auto
      then have "x \<in> set ?pairs" by simp
      then have "x \<noteq> []" by (auto simp: env_pairs_def)
      then show ?thesis unfolding xs by (cases xs) simp_all
    qed
    moreover have "split_on CHR '','' (join '','' ?pairs) = ?pairs"
      by (rule split_on_join [OF False no_comma])
    moreover have "those (map (cut CHR '':'') ?pairs) = Some (credentials users)"
      using cuts by (induction users) (auto simp: env_pairs_def credentials_def)
    ultimately show ?thesis using shape bdy by (simp add: sourced_users_def shell_word_quote)
  qed
qed

section \<open>What every history keeps\<close>

definition bcrypt_ok :: "(string \<Rightarrow> string option) \<Rightarrow> bool" where
  "bcrypt_ok bc \<longleftrightarrow> (\<forall>p h. bc p = Some h \<longrightarrow> CHR '','' \<notin> set h)"

lemma users_ok_snoc:
  "users_ok (us @ [u]) \<longleftrightarrow> users_ok us \<and> tu_name u \<notin> tu_name ` set us \<and>
     rx_match tu_name_re (tu_name u) \<and> CHR '','' \<notin> set (tu_hash u)"
  unfolding users_ok_def unique_keys_def by (simp del: rx_match.simps) blast

lemma put_user_keeps:
  assumes "check_new_user n p = Inr ()" "bcrypt_ok bc" "users_ok us" "put_user bc n p us = Inr (us', r)"
  shows "users_ok us'"
proof -
  obtain h where h: "bc p = Some h" and n: "n \<notin> tu_name ` set us"
    and us': "us' = us @ [\<lparr>tu_name = n, tu_hash = h\<rparr>]"
    using assms(4) by (auto simp: put_user_def split: if_splits option.splits)
  have "rx_match tu_name_re n"
    using assms(1) by (simp add: check_new_user_def tu_validate_name_def split: if_splits del: rx_match.simps)
  then show ?thesis
    unfolding us' users_ok_snoc using assms(2,3) h n by (simp add: bcrypt_ok_def del: rx_match.simps)
qed

lemma rehash_user_keeps:
  assumes "bcrypt_ok bc" "users_ok us" "rehash_user bc n p us = Inr (us', r)"
  shows "users_ok us'"
proof -
  obtain i h where i: "find_index (\<lambda>u. tu_name u = n) us = Some i" and h: "bc p = Some h"
    and us': "us' = us[i := (us ! i)\<lparr>tu_hash := h\<rparr>]"
    using assms(3) by (auto simp: rehash_user_def split: option.splits)
  have "i < length us" using find_index_SomeD [OF i] by blast
  then have "map tu_name us' = map tu_name us" "us ! i \<in> set us"
    by (simp_all add: us' map_update list_update_same_conv)
  moreover have "set us' \<subseteq> insert ((us ! i)\<lparr>tu_hash := h\<rparr>) (set us)"
    unfolding us' by (rule set_update_subset_insert)
  moreover have "CHR '','' \<notin> set h" using assms(1) h by (simp add: bcrypt_ok_def)
  ultimately have "\<forall>u \<in> set us'. rx_match tu_name_re (tu_name u) \<and> CHR '','' \<notin> set (tu_hash u)"
    using assms(2) by (auto simp: users_ok_def simp del: rx_match.simps)
  with \<open>map tu_name us' = map tu_name us\<close> assms(2) show ?thesis by (simp add: users_ok_def unique_keys_def)
qed

lemma drop_user_keeps: "users_ok us \<Longrightarrow> drop_user n us = Inr (us', r) \<Longrightarrow> users_ok us'"
  by (auto simp: drop_user_def users_ok_def tu_keys.del_Some_iff split: option.splits dest: tu_keys.del_unique)
    (auto simp: unique_keys_def distinct_map_filter)

lemma tu_paths_distinct: "tu_store_path \<noteq> env_file_path" "tu_store_path \<noteq> tmp_path env_file_path"
  by (simp_all add: tu_store_path_def env_file_path_def tmp_path_def)

lemma render_env_file_frame:
  "render_env_file os env_file_path us fs = (r, fs') \<Longrightarrow>
     stored_doc cd z tu_store_path fs' = stored_doc cd z tu_store_path fs"
  using tu_paths_distinct
  by (cases r) (auto simp: render_env_file_def stored_doc_def
      dest!: credential_write_ok credential_write_err [where q = tu_store_path])

lemma apply_tinyauth_users_spec:
  assumes "apply_tinyauth_users cd os w d (fs, s) = (r, fs', s')"
  shows "stored_doc cd [] tu_store_path fs' = stored_doc cd [] tu_store_path fs \<and>
    (success r \<longrightarrow> (\<exists>us file. stored_doc cd [] tu_store_path fs' = Some us \<and>
      fs' env_file_path = Some file \<and> contents file = env_line us \<and> restarted w ''tinyauth'' fs' s'))"
proof (cases "list_users cd os tu_store_path fs")
  case (Inl e)
  then show ?thesis using assms by (auto simp: apply_tinyauth_users_def)
next
  case (Inr us)
  have st: "stored_doc cd [] tu_store_path fs = Some us"
    using Inr by (auto simp: list_users_def intro: tu.load_stored)
  obtain a fs1 where ren: "render_env_file os env_file_path us fs = (a, fs1)" by fastforce
  have st1: "stored_doc cd [] tu_store_path fs1 = Some us" using render_env_file_frame [OF ren, of cd "[]"] st by simp
  show ?thesis
  proof (cases a)
    case (Inl e)
    then show ?thesis using assms ren st st1 \<open>list_users _ _ _ _ = _\<close> by (auto simp: apply_tinyauth_users_def)
  next
    case (Inr u)
    then have ok: "render_env_file os env_file_path us fs = (Inr (), fs1)" using ren by simp
    then have "\<exists>file. fs1 env_file_path = Some file \<and> contents file = env_line us"
      using credential_write_ok [OF ok [unfolded render_env_file_def]] by simp
    moreover have "restart_and_reply w ''tinyauth'' d (fs1, s) = (r, fs', s')"
      using assms ok \<open>list_users _ _ _ _ = _\<close> by (simp add: apply_tinyauth_users_def)
    ultimately show ?thesis using st st1 by (auto elim!: restart_and_reply_cases)
  qed
qed

text \<open>The operation behind each request.\<close>

fun tu_operation ::
    "(string \<Rightarrow> string option) \<Rightarrow> tu_codec \<Rightarrow> string os \<Rightarrow> tu_request \<Rightarrow> string fs \<Rightarrow> unit tu_checked \<times> string fs" where
  "tu_operation bc cd os (AddTuUser (Some (n, p))) fs = add_user bc cd os tu_store_path n p fs"
| "tu_operation bc cd os (SetTuPassword n (Some p)) fs = set_password bc cd os tu_store_path n p fs"
| "tu_operation bc cd os (DeleteTuUser n) fs = delete_user cd os tu_store_path n fs"
| "tu_operation bc cd os _ fs = (Inl TuRequired, fs)"

lemma tu_operation_keeps:
  assumes "tu_operation bc cd os req fs = (x, fs')" "codec_ok cd (\<lambda>us. us)" "bcrypt_ok bc"
    and "\<And>us. stored_doc cd [] tu_store_path fs = Some us \<Longrightarrow> users_ok us"
    and "stored_doc cd [] tu_store_path fs' = Some us"
  shows "users_ok us"
proof -
  have keep: "users_ok us"
    if "checked_modify chk (tu_load cd os tu_store_path) (tu_save cd os tu_store_path) change fs = (x, fs')"
      "\<And>us us' r. chk = Inr () \<Longrightarrow> users_ok us \<Longrightarrow> change us = Inr (us', r) \<Longrightarrow> users_ok us'"
    for chk and change :: "tu_user list \<Rightarrow> (tu_user list \<times> unit) tu_checked"
  proof (rule tu.checked_invariant [OF that(1), where I = users_ok])
    fix c c' r e
    assume "chk = Inr ()" "users_ok c" "change c = Inr (c', r)" "reread_doc cd c' = Some e"
    then show "users_ok e" using that(2) reread_codec_ok [OF assms(2)] by blast
  qed (use assms(4,5) in auto)
  consider n p where "req = AddTuUser (Some (n, p))" | n p where "req = SetTuPassword n (Some p)"
    | n where "req = DeleteTuUser n" | "fs' = fs"
    using assms(1) by (cases "(bc, cd, os, req, fs)" rule: tu_operation.cases) auto
  then show ?thesis
  proof cases
    case (1 n p)
    show ?thesis
      by (rule keep [where chk = "check_new_user n p" and change = "put_user bc n p"])
        (use 1 assms(1) in \<open>simp add: add_user_def\<close>, rule put_user_keeps [OF _ assms(3)])
  next
    case (2 n p)
    show ?thesis
      by (rule keep [where chk = "if p = [] then Inl TuPasswordRequired else Inr ()" and change = "rehash_user bc n p"])
        (use 2 assms(1) in \<open>simp add: set_password_def\<close>, rule rehash_user_keeps [OF assms(3)])
  next
    case (3 n)
    show ?thesis
      by (rule keep [where chk = "Inr ()" and change = "drop_user n"])
        (use 3 assms(1) in \<open>simp add: delete_user_def modify_is_checked\<close>, rule drop_user_keeps)
  next
    case 4
    then show ?thesis using assms(4,5) by simp
  qed
qed

lemma tu_serve_cases:
  assumes "tu_serve env bc cd os w req (fs, s) = (r, fs', s')"
  obtains (refused) "\<not> success r" "fs' = fs" "s' = s"
  | (failed) e where "tu_operation bc cd os req fs = (Inl e, fs')" "\<not> success r" "s' = s"
  | (applied) d fs1 where "tu_operation bc cd os req fs = (Inr (), fs1)"
      "apply_tinyauth_users cd os w d (fs1, s) = (r, fs', s')"
  using assms
  by (cases "(bc, cd, os, req, fs)" rule: tu_operation.cases)
    (auto simp: handle_add_tinyauth_user_def handle_set_tinyauth_user_password_def
      handle_delete_tinyauth_user_def split: if_splits prod.splits sum.splits)

text \<open>
  C22.  When a change of the tinyauth users is answered with success, the shell file tinyauth's start
  script sources gives exactly the stored users that have a password, and tinyauth was started on it.
\<close>

theorem tinyauth_users_applied:
  assumes "codec_ok cd (\<lambda>us. us)" "bcrypt_ok bc"
    and "stored_doc cd [] tu_store_path fs = Some us0" "users_ok us0"
    and "tu_serve env bc cd os w req (fs, s) = (r, fs', s')" "success r"
  shows "\<exists>us file. stored_doc cd [] tu_store_path fs' = Some us \<and> users_ok us \<and>
    fs' env_file_path = Some file \<and> sourced_users (contents file) = Some (credentials us) \<and>
    restarted w ''tinyauth'' fs' s'"
  using assms(5)
proof (cases rule: tu_serve_cases)
  case (applied d fs1)
  from apply_tinyauth_users_spec [OF applied(2)] assms(6) obtain us f where
    st: "stored_doc cd [] tu_store_path fs' = stored_doc cd [] tu_store_path fs1"
      "stored_doc cd [] tu_store_path fs' = Some us"
    and env: "fs' env_file_path = Some f" "contents f = env_line us" "restarted w ''tinyauth'' fs' s'"
    by blast
  have "stored_doc cd [] tu_store_path fs1 = Some us" using st by simp
  from tu_operation_keeps [OF applied(1) assms(1,2) _ this] assms(3,4) have "users_ok us" by simp
  then have "sourced_users (contents f) = Some (credentials us)" using env(2) sourced_env_line by simp
  with \<open>users_ok us\<close> show ?thesis using st(2) env by blast
qed (use assms(6) in auto)

text \<open>An addition in its two halves: what it loaded, and the rest.\<close>

definition add_user_finish ::
    "(string \<Rightarrow> string option) \<Rightarrow> tu_codec \<Rightarrow> string os \<Rightarrow> string \<Rightarrow> string \<Rightarrow> string \<Rightarrow> tu_user list tu_checked \<Rightarrow>
       string fs \<Rightarrow> unit tu_checked \<times> string fs" where
  "add_user_finish bc cd os path name plaintext loaded =
     checked_modify (check_new_user name plaintext) (\<lambda>_. loaded) (tu_save cd os path)
       (put_user bc name plaintext)"

lemma add_user_split:
  "add_user bc cd os path n p fs = add_user_finish bc cd os path n p (tu_load cd os path fs) fs"
  by (simp add: add_user_def add_user_finish_def checked_modify_def modify_doc_def split: sum.splits)


text \<open>
  The package takes no lock: of two additions that overlap (one loads, the other runs whole, the
  first then saves) both answer success and the second user is gone.
\<close>

theorem overlapping_additions_lose:
  assumes "tu_load cd os tu_store_path fs = Inr us"
    and "add_user bc cd os tu_store_path b q fs = (Inr (), fs1)"
    and "add_user_finish bc cd os tu_store_path a p (Inr us) fs1 = (Inr (), fs2)"
    and "codec_ok cd (\<lambda>us. us)"
    and "stored_doc cd [] tu_store_path fs2 = Some d"
  shows "b \<notin> tu_name ` set us \<and> (a \<noteq> b \<longrightarrow> b \<notin> tu_name ` set d)"
proof -
  have free: "b \<notin> tu_name ` set us"
    using assms(1,2)
    by (auto simp: add_user_def checked_modify_def modify_doc_def put_user_def
        split: sum.splits prod.splits if_splits option.splits)
  obtain h where "tu_save cd os tu_store_path (us @ [\<lparr>tu_name = a, tu_hash = h\<rparr>]) fs1 = (Inr (), fs2)"
    using assms(3)
    by (auto simp: add_user_finish_def checked_modify_def modify_doc_def put_user_def
        split: sum.splits prod.splits if_splits option.splits)
  then have "stored_doc cd [] tu_store_path fs2 = reread_doc cd (us @ [\<lparr>tu_name = a, tu_hash = h\<rparr>])"
    by (rule tu_save_ok)
  then have "d = us @ [\<lparr>tu_name = a, tu_hash = h\<rparr>]"
    using reread_codec_ok [OF assms(4)] assms(5) by simp
  then show ?thesis using free by auto
qed

section \<open>Concrete runs\<close>

definition user_pairs :: "tu_user list \<Rightarrow> (string \<times> string) list" where
  "user_pairs us = map (\<lambda>u. (tu_name u, tu_hash u)) us"

definition line_codec :: tu_codec where
  "line_codec = pairs_codec user_pairs (map (\<lambda>(n, h). \<lparr>tu_name = n, tu_hash = h\<rparr>))"

lemma decode_user_pairs: "map (\<lambda>(n, h). \<lparr>tu_name = n, tu_hash = h\<rparr>) (user_pairs us) = us"
  by (induction us) (simp_all add: user_pairs_def)

lemma codec_ok_lines: "codec_ok line_codec (\<lambda>us. us)"
  unfolding line_codec_def by (rule codec_ok_pairs) (rule decode_user_pairs)

lemma line_codec_marshal:
  "\<forall>l \<in> set (pair_lines (user_pairs us)). NL \<notin> set l \<Longrightarrow>
     marshal line_codec us = Some (text_of (pair_lines (user_pairs us)))"
  by (simp add: line_codec_def pairs_codec_def)

definition toy_hash :: "string \<Rightarrow> string option" where
  "toy_hash p = (if CHR '','' \<in> set p then None else Some (CHR ''$'' # p))"

lemma bcrypt_ok_toy: "bcrypt_ok toy_hash"
  by (simp add: bcrypt_ok_def toy_hash_def)

lemma toy_add:
  "add_user toy_hash line_codec quiet_os tu_store_path ''ann'' ''x'' Map.empty =
     (Inr (), [tu_store_path \<mapsto> \<lparr>contents = text_of [''ann'', ''$x''], perm = 0x180\<rparr>])"
  "add_user toy_hash line_codec quiet_os tu_store_path ''bob'' ''y'' Map.empty =
     (Inr (), [tu_store_path \<mapsto> \<lparr>contents = text_of [''bob'', ''$y''], perm = 0x180\<rparr>])"
proof -
  have names: "check_new_user ''ann'' ''x'' = Inr ()" "check_new_user ''bob'' ''y'' = Inr ()" by code_simp+
  have save: "tu_save line_codec quiet_os tu_store_path us Map.empty =
      (Inr (), [tu_store_path \<mapsto> \<lparr>contents = text_of (pair_lines (user_pairs us)), perm = 0x180\<rparr>])"
    if "\<forall>l \<in> set (pair_lines (user_pairs us)). NL \<notin> set l" for us
    using that by (simp add: line_codec_marshal tu_save_eq credential_write_quiet file_mode_def)
  have chars: "NL \<notin> set ''ann''" "NL \<notin> set ''$x''" "NL \<notin> set ''bob''" "NL \<notin> set ''$y''" by code_simp+
  show "add_user toy_hash line_codec quiet_os tu_store_path ''ann'' ''x'' Map.empty =
     (Inr (), [tu_store_path \<mapsto> \<lparr>contents = text_of [''ann'', ''$x''], perm = 0x180\<rparr>])"
    using chars by (simp add: add_user_def checked_modify_def names modify_doc_def tu_load_def load_doc_def read_file_def
        put_user_def toy_hash_def save pair_lines_def user_pairs_def del: text_of_simps)
  show "add_user toy_hash line_codec quiet_os tu_store_path ''bob'' ''y'' Map.empty =
     (Inr (), [tu_store_path \<mapsto> \<lparr>contents = text_of [''bob'', ''$y''], perm = 0x180\<rparr>])"
    using chars by (simp add: add_user_def checked_modify_def names modify_doc_def tu_load_def load_doc_def read_file_def
        put_user_def toy_hash_def save pair_lines_def user_pairs_def del: text_of_simps)
qed

lemma toy_stored:
  "\<forall>l \<in> set (pair_lines (user_pairs us)). NL \<notin> set l \<Longrightarrow> fs tu_store_path = Some \<lparr>contents = text_of (pair_lines (user_pairs us)), perm = m\<rparr> \<Longrightarrow>
     stored_doc line_codec [] tu_store_path fs = Some us"
  by (simp add: stored_doc_def line_codec_def pairs_codec_unmarshal decode_user_pairs)

theorem tinyauth_users_applied_witness:
  "\<exists>fs' us f. tu_serve (\<lambda>_. []) toy_hash line_codec quiet_os (\<lambda>_. calm_wire) (AddTuUser (Some (''ann'', ''x''))) (Map.empty, ()) =
      ((201, Body (UserAnswer ''ann'' False)), fs', ()) \<and>
    stored_doc line_codec [] tu_store_path fs' = Some us \<and>
    fs' env_file_path = Some f \<and> sourced_users (contents f) = Some (credentials us)"
proof -
  let ?us = "[\<lparr>tu_name = ''ann'', tu_hash = ''$x''\<rparr>]"
  let ?fs = "[tu_store_path \<mapsto> \<lparr>contents = text_of [''ann'', ''$x''], perm = 0x180\<rparr>]"
  obtain r fs' where run: "tu_serve (\<lambda>_. []) toy_hash line_codec quiet_os (\<lambda>_. calm_wire)
      (AddTuUser (Some (''ann'', ''x''))) (Map.empty, ()) = (r, fs', ())"
    by (metis old.unit.exhaust prod_cases3)
  have "NL \<notin> set ''ann''" "NL \<notin> set ''$x''" by code_simp+
  then have "stored_doc line_codec [] tu_store_path ?fs = Some ?us"
    by (intro toy_stored) (simp_all add: pair_lines_def user_pairs_def)
  then have "list_users line_codec quiet_os tu_store_path ?fs = Inr ?us"
    by (simp add: list_users_def tu_load_def load_doc_quiet)
  then have r: "r = (201, Body (UserAnswer ''ann'' False))"
    using run by (simp add: handle_add_tinyauth_user_def tinyauth_pinned_def toy_add apply_tinyauth_users_def
        render_env_file_def credential_write_quiet restart_and_reply_def del: text_of_simps)
  moreover have "stored_doc line_codec [] tu_store_path Map.empty = Some []" by (simp add: stored_doc_def)
  moreover have "users_ok []" by (simp add: users_ok_def unique_keys_def)
  ultimately obtain us f where "stored_doc line_codec [] tu_store_path fs' = Some us"
    "fs' env_file_path = Some f" "sourced_users (contents f) = Some (credentials us)"
    using tinyauth_users_applied [OF codec_ok_lines bcrypt_ok_toy _ _ run] by auto
  then show ?thesis using run r by blast
qed

theorem overlapping_additions_lose_witness:
  "\<exists>fs1 fs2 d. add_user toy_hash line_codec quiet_os tu_store_path ''bob'' ''y'' Map.empty = (Inr (), fs1) \<and>
     add_user_finish toy_hash line_codec quiet_os tu_store_path ''ann'' ''x'' (Inr []) fs1 = (Inr (), fs2) \<and>
     stored_doc line_codec [] tu_store_path fs2 = Some d \<and> ''bob'' \<notin> tu_name ` set d"
proof -
  let ?fs1 = "[tu_store_path \<mapsto> \<lparr>contents = text_of [''bob'', ''$y''], perm = 0x180\<rparr>]"
  let ?us = "[\<lparr>tu_name = ''ann'', tu_hash = ''$x''\<rparr>]"
  have chars: "NL \<notin> set ''ann''" "NL \<notin> set ''$x''" by code_simp+
  have names: "check_new_user ''ann'' ''x'' = Inr ()" by code_simp
  have load: "tu_load line_codec quiet_os tu_store_path Map.empty = Inr []"
    by (simp add: tu_load_def load_doc_quiet stored_doc_def)
  obtain fs2 where fin: "add_user_finish toy_hash line_codec quiet_os tu_store_path ''ann'' ''x'' (Inr []) ?fs1 = (Inr (), fs2)"
    using chars by (auto simp: add_user_finish_def checked_modify_def names modify_doc_def put_user_def toy_hash_def
        tu_save_eq line_codec_marshal credential_write_quiet pair_lines_def user_pairs_def simp del: text_of_simps)
  have ex: "\<exists>d. stored_doc line_codec [] tu_store_path fs2 = Some d"
  proof -
    have "tu_save line_codec quiet_os tu_store_path ?us ?fs1 = (Inr (), fs2)"
      using fin by (simp add: add_user_finish_def checked_modify_def names modify_doc_def put_user_def toy_hash_def
          split: prod.splits sum.splits)
    then have "stored_doc line_codec [] tu_store_path fs2 = reread_doc line_codec ?us" by (rule tu_save_ok)
    moreover have "marshal line_codec ?us \<noteq> None" using chars by (simp add: line_codec_marshal pair_lines_def user_pairs_def)
    ultimately show ?thesis using codec_ok_lines by (auto simp: reread_doc_def codec_ok_def split: option.splits)
  qed
  then obtain d where d: "stored_doc line_codec [] tu_store_path fs2 = Some d" by blast
  have "''ann'' \<noteq> ''bob''" by simp
  with overlapping_additions_lose [OF load toy_add(2) fin codec_ok_lines d]
  show ?thesis using toy_add(2) fin d by blast
qed

end
