(* ===== verification/Dns_Blocklist.thy ===== *)
theory Dns_Blocklist
  imports Go_Filepath Go_Regexp "HOL-Library.AList" "HOL-Library.Multiset" "HOL-Library.Char_ord"
    "HOL-Library.List_Lexorder" "HOL-Library.Product_Lexorder"
begin

text \<open>
  \<open>internal/dns/reconcile.go\<close> and \<open>blocklist.go\<close>: the block list sources, one hosts file each, and the
  manifest that says which shipped list the builtin one was last taken from.  The SHA-1 of a text, as
  hexadecimal, is the parameter \<open>sha\<close>; the order in which Go walks a map is the parameter \<open>walk\<close>.
\<close>

section \<open>The manifest\<close>

abbreviation TAB :: char where "TAB \<equiv> CHR 0x09"

definition manifest_path :: string where
  "manifest_path = ''/var/lib/code-docker-router/dns/blocklist-manifest''"

text \<open>A Go map is the list of its entries, one per key.\<close>

type_synonym manifest = "(string \<times> string) list"

datatype dns_error =
    DnsIO io_error
  | DnsMissing string
  | BadSourceName
  | BuiltinImmutable
  | BadHostname string
  | SourceExists
  | SourceNotFound

type_synonym 'a dns_checked = "dns_error + 'a"

definition add_manifest_line :: "manifest \<Rightarrow> string \<Rightarrow> manifest" where
  "add_manifest_line m line =
     (case cut TAB line of
        None \<Rightarrow> m
      | Some (name, hash) \<Rightarrow> if name = [] then m else AList.update name hash m)"

definition parse_manifest :: "string \<Rightarrow> manifest" where
  "parse_manifest data = foldl add_manifest_line [] (split_on NL data)"

definition load_manifest :: "string os \<Rightarrow> string \<Rightarrow> string fs \<Rightarrow> manifest dns_checked" where
  "load_manifest os path fs =
     (case read_file os fs path of
        NoSuchFile \<Rightarrow> Inr []
      | ReadFailed e \<Rightarrow> Inl (DnsIO e)
      | ReadOK data \<Rightarrow> Inr (parse_manifest data))"

definition render_manifest :: "manifest \<Rightarrow> string" where
  "render_manifest m = text_of (map (\<lambda>(name, hash). name @ TAB # hash) m)"

definition save_manifest ::
    "(manifest \<Rightarrow> manifest) \<Rightarrow> string os \<Rightarrow> string \<Rightarrow> manifest \<Rightarrow> string fs \<Rightarrow> unit dns_checked \<times> string fs" where
  "save_manifest walk os path m fs =
     apfst (map_error DnsIO) (atomic_write os path (render_manifest (walk m)) 0x1A4 fs)"

definition manifest_hash :: "manifest \<Rightarrow> string \<Rightarrow> string" where
  "manifest_hash m name = (case map_of m name of None \<Rightarrow> [] | Some h \<Rightarrow> h)"

section \<open>Hosts files\<close>

definition sources_dir :: string where
  "sources_dir = ''/var/lib/code-docker-router/dns/blocklist-sources''"

definition builtin_name :: string where
  "builtin_name = ''builtin''"

definition shipped_default_path :: "env \<Rightarrow> string" where
  "shipped_default_path env =
     (if env ''DNS_BUILTIN_BLOCKLIST_SOURCE'' \<noteq> [] then env ''DNS_BUILTIN_BLOCKLIST_SOURCE''
      else ''/etc/router/dns/blocklist.default.hosts'')"

definition custom_path :: "string \<Rightarrow> string" where
  "custom_path name = path_join sources_dir (name @ ''.hosts'')"

definition builtin_path :: string where
  "builtin_path = path_join sources_dir (builtin_name @ ''.hosts'')"

definition validate_source_name :: "string \<Rightarrow> unit dns_checked" where
  "validate_source_name name =
     (if name = builtin_name then Inl BuiltinImmutable
      else if \<not> rx_match label_re name then Inl BadSourceName
      else Inr ())"

definition validate_hostname :: "string \<Rightarrow> unit dns_checked" where
  "validate_hostname h = (if h = [] \<or> \<not> rx_match plain_host_re h then Inl (BadHostname h) else Inr ())"

definition render_hosts_file :: "string list \<Rightarrow> string" where
  "render_hosts_file hosts = text_of (map (\<lambda>h. ''0.0.0.0 '' @ h) hosts)"

definition host_of_line :: "string \<Rightarrow> string list" where
  "host_of_line line =
     (let t = trim_space line
      in if t = [] \<or> has_prefix t ''#'' then []
         else case Go_Prelude.fields t of _ # h # _ \<Rightarrow> [h] | _ \<Rightarrow> [])"

definition parse_hosts_list :: "string \<Rightarrow> string list" where
  "parse_hosts_list content = concat (map host_of_line (split_on NL content))"

definition lower_hosts :: "string list \<Rightarrow> string list" where
  "lower_hosts hosts = map to_lower hosts"

definition dedupe :: "'a list \<Rightarrow> 'a list" where
  "dedupe xs = dedupe_loop {} xs"

section \<open>The builtin source\<close>

record builtin_status =
  update_available :: bool
  live_diverged :: bool
  added_count :: nat
  removed_count :: nat
  added_sample :: "string list"
  removed_sample :: "string list"

definition no_update :: builtin_status where
  "no_update =
     \<lparr>update_available = False, live_diverged = False, added_count = 0, removed_count = 0,
      added_sample = [], removed_sample = []\<rparr>"

definition diff_sample_limit :: nat where
  "diff_sample_limit = 50"

definition diff_host_lists :: "string list \<Rightarrow> string list \<Rightarrow> string list \<times> string list" where
  "diff_host_lists old_hosts new_hosts =
     (sort [h \<leftarrow> dedupe new_hosts. h \<notin> set old_hosts], sort [h \<leftarrow> dedupe old_hosts. h \<notin> set new_hosts])"

definition sample_strings :: "string list \<Rightarrow> nat \<Rightarrow> string list" where
  "sample_strings s n = (if length s \<le> n then s else take n s)"

definition read_needed :: "string os \<Rightarrow> string fs \<Rightarrow> string \<Rightarrow> string dns_checked" where
  "read_needed os fs p =
     (case read_file os fs p of
        NoSuchFile \<Rightarrow> Inl (DnsMissing p)
      | ReadFailed e \<Rightarrow> Inl (DnsIO e)
      | ReadOK d \<Rightarrow> Inr d)"

definition get_builtin_status ::
    "env \<Rightarrow> (string \<Rightarrow> string) \<Rightarrow> string os \<Rightarrow> string fs \<Rightarrow> builtin_status dns_checked" where
  "get_builtin_status env sha os fs =
     res_bind (read_needed os fs (shipped_default_path env)) (\<lambda>shipped.
     res_bind (load_manifest os manifest_path fs) (\<lambda>m.
     let seeded = manifest_hash m builtin_name
     in if seeded = [] \<or> sha shipped = seeded then Inr no_update
        else case read_needed os fs builtin_path of
               Inl _ \<Rightarrow> Inr (no_update\<lparr>update_available := True\<rparr>)
             | Inr live \<Rightarrow>
                 (let (added, removed) = diff_host_lists (parse_hosts_list live) (parse_hosts_list shipped)
                  in Inr \<lparr>update_available = True, live_diverged = (sha live \<noteq> seeded),
                          added_count = length added, removed_count = length removed,
                          added_sample = sample_strings added diff_sample_limit,
                          removed_sample = sample_strings removed diff_sample_limit\<rparr>)))"

text \<open>The second half of \<open>BuiltinPull\<close> and \<open>BuiltinIgnore\<close>: the shipped text becomes the baseline.\<close>

definition record_baseline ::
    "(string \<Rightarrow> string) \<Rightarrow> (manifest \<Rightarrow> manifest) \<Rightarrow> string os \<Rightarrow> string \<Rightarrow> string fs \<Rightarrow> unit dns_checked \<times> string fs" where
  "record_baseline sha walk os shipped fs =
     (case load_manifest os manifest_path fs of
        Inl e \<Rightarrow> (Inl e, fs)
      | Inr m \<Rightarrow> save_manifest walk os manifest_path (AList.update builtin_name (sha shipped) m) fs)"

definition builtin_pull ::
    "env \<Rightarrow> (string \<Rightarrow> string) \<Rightarrow> (manifest \<Rightarrow> manifest) \<Rightarrow> string os \<Rightarrow> string fs \<Rightarrow> unit dns_checked \<times> string fs" where
  "builtin_pull env sha walk os fs =
     (case read_needed os fs (shipped_default_path env) of
        Inl e \<Rightarrow> (Inl e, fs)
      | Inr shipped \<Rightarrow>
          (case atomic_write os builtin_path shipped 0x1A4 fs of
             (Inl e, fs1) \<Rightarrow> (Inl (DnsIO e), fs1)
           | (Inr _, fs1) \<Rightarrow> record_baseline sha walk os shipped fs1))"

definition builtin_ignore ::
    "env \<Rightarrow> (string \<Rightarrow> string) \<Rightarrow> (manifest \<Rightarrow> manifest) \<Rightarrow> string os \<Rightarrow> string fs \<Rightarrow> unit dns_checked \<times> string fs" where
  "builtin_ignore env sha walk os fs =
     (case read_needed os fs (shipped_default_path env) of
        Inl e \<Rightarrow> (Inl e, fs)
      | Inr shipped \<Rightarrow> record_baseline sha walk os shipped fs)"

section \<open>Sources\<close>

record source_info =
  si_name :: string
  si_builtin :: bool
  si_count :: nat
  si_hosts :: "string list"

record list_result =
  lr_sources :: "source_info list"
  lr_duplicates :: "string list"
  lr_update :: bool

text \<open>The \<open>owners\<close> map is the list of its (host, owner) appends.\<close>

definition owners_of :: "(string \<times> string) list \<Rightarrow> string \<Rightarrow> string list" where
  "owners_of pairs h = [w. (h', w) \<leftarrow> pairs, h' = h]"

definition duplicate_hosts :: "(string \<times> string) list \<Rightarrow> string list" where
  "duplicate_hosts pairs =
     sort [h \<leftarrow> dedupe (map fst pairs). 1 < length (dedupe (owners_of pairs h))]"

text \<open>The loop over the directory: each readable hosts file with its name and hosts.\<close>

fun read_sources :: "string os \<Rightarrow> string fs \<Rightarrow> (string \<times> bool) list \<Rightarrow> (string \<times> string list) list" where
  "read_sources os fs [] = []"
| "read_sources os fs ((n, isdir) # es) =
     (if isdir \<or> \<not> has_suffix n ''.hosts'' then read_sources os fs es
      else case read_file os fs (path_join sources_dir n) of
             ReadOK d \<Rightarrow> (trim_suffix n ''.hosts'', parse_hosts_list d) # read_sources os fs es
           | _ \<Rightarrow> read_sources os fs es)"

definition source_info_of :: "string \<times> string list \<Rightarrow> source_info" where
  "source_info_of = (\<lambda>(name, hosts).
     \<lparr>si_name = name, si_builtin = (name = builtin_name), si_count = length hosts,
      si_hosts = (if name = builtin_name then [] else hosts)\<rparr>)"

definition owner_pairs :: "string list \<Rightarrow> (string \<times> string list) list \<Rightarrow> (string \<times> string) list" where
  "owner_pairs extra srcs =
     [(h, ''custom-hosts''). h \<leftarrow> extra] @ [(h, name). (name, hosts) \<leftarrow> srcs, h \<leftarrow> hosts]"

definition list_sources ::
    "env \<Rightarrow> (string \<Rightarrow> string) \<Rightarrow> string os \<Rightarrow> listing \<Rightarrow> string list \<Rightarrow> string fs \<Rightarrow> list_result dns_checked" where
  "list_sources env sha os ls extra fs =
     (case ls of
        DirMissing \<Rightarrow> Inr \<lparr>lr_sources = [], lr_duplicates = [], lr_update = False\<rparr>
      | DirFailed e \<Rightarrow> Inl (DnsIO e)
      | Entries es \<Rightarrow>
          (let srcs = read_sources os fs es
           in Inr \<lparr>lr_sources = sort_key (\<lambda>i. (\<not> si_builtin i, si_name i)) (map source_info_of srcs),
                   lr_duplicates = duplicate_hosts (owner_pairs extra srcs),
                   lr_update = (case get_builtin_status env sha os fs of
                                  Inl _ \<Rightarrow> False | Inr st \<Rightarrow> update_available st)\<rparr>))"

definition check_source :: "string \<Rightarrow> string list \<Rightarrow> unit dns_checked" where
  "check_source name hosts = res_bind (validate_source_name name) (\<lambda>_. each validate_hostname hosts)"

definition write_source :: "string os \<Rightarrow> string \<Rightarrow> string list \<Rightarrow> string fs \<Rightarrow> unit dns_checked \<times> string fs" where
  "write_source os name hosts fs =
     apfst (map_error DnsIO)
       (atomic_write os (custom_path name) (render_hosts_file (dedupe (lower_hosts hosts))) 0x1A4 fs)"

definition create_source :: "string os \<Rightarrow> string \<Rightarrow> string list \<Rightarrow> string fs \<Rightarrow> unit dns_checked \<times> string fs" where
  "create_source os name hosts fs =
     (case check_source name hosts of
        Inl e \<Rightarrow> (Inl e, fs)
      | Inr _ \<Rightarrow>
          if stat_ok os fs (custom_path name) then (Inl SourceExists, fs) else write_source os name hosts fs)"

definition update_source :: "string os \<Rightarrow> string \<Rightarrow> string list \<Rightarrow> string fs \<Rightarrow> unit dns_checked \<times> string fs" where
  "update_source os name hosts fs =
     (case check_source name hosts of
        Inl e \<Rightarrow> (Inl e, fs)
      | Inr _ \<Rightarrow>
          if \<not> stat_ok os fs (custom_path name) then (Inl SourceNotFound, fs) else write_source os name hosts fs)"

definition delete_source :: "string os \<Rightarrow> string \<Rightarrow> string fs \<Rightarrow> unit dns_checked \<times> string fs" where
  "delete_source os name fs =
     (if name = builtin_name then (Inl BuiltinImmutable, fs)
      else if \<not> stat_ok os fs (custom_path name) then (Inl SourceNotFound, fs)
      else apfst (map_error DnsIO) (remove os (custom_path name) fs))"

section \<open>Hosts files read back\<close>

lemma trim_space_edges:
  assumes "s \<noteq> []" "\<not> is_space (hd s)" "\<not> is_space (last s)"
  shows "trim_space s = s"
proof -
  have 1: "dropWhile is_space s = s" using assms(1,2) by (cases s) auto
  have 2: "dropWhile is_space (rev s) = rev s"
    using assms(1,3) by (cases s rule: rev_cases) auto
  show ?thesis by (simp add: trim_space_def 1 2)
qed

lemma host_of_address:
  assumes "a \<noteq> []" "\<And>c. c \<in> set a \<Longrightarrow> \<not> is_space c" "\<not> has_prefix a ''#''"
    and "h \<noteq> []" "\<And>c. c \<in> set h \<Longrightarrow> \<not> is_space c"
  shows "host_of_line (a @ CHR '' '' # h) = [h]"
proof -
  have sp: "is_space CHR '' ''" by (simp add: is_space_def code_def)
  have t: "trim_space (a @ CHR '' '' # h) = a @ CHR '' '' # h"
    by (rule trim_space_edges) (use assms in auto)
  have f: "Go_Prelude.fields (a @ CHR '' '' # h) = [a, h]"
    using fields_word(2) [OF assms(1,2) sp] fields_word(1) [OF assms(4,5)] by simp
  have "\<not> has_prefix (a @ CHR '' '' # h) ''#''"
    using assms(1,3) by (cases a) auto
  then show ?thesis using assms(1) by (simp add: host_of_line_def t f Let_def)
qed

lemma zero_address: "\<not> is_space c" if "c \<in> set ''0.0.0.0''"
  using that by (auto simp: is_space_def code_def)

lemma host_of_rendered:
  assumes "h \<noteq> []" "\<And>c. c \<in> set h \<Longrightarrow> \<not> is_space c"
  shows "host_of_line (''0.0.0.0 '' @ h) = [h]"
  using host_of_address [of "''0.0.0.0''" h] zero_address assms by simp

lemma NL_space: "is_space NL"
  by (simp add: is_space_def code_def)

text \<open>A file of lines that each hold one host reads back as those hosts.\<close>

lemma hosts_lines_read:
  assumes "\<And>x. x \<in> set xs \<Longrightarrow> NL \<notin> set (line x) \<and> host_of_line (line x) = [host x]"
  shows "parse_hosts_list (text_of (map line xs)) = map host xs"
proof -
  have "split_on NL (text_of (map line xs)) = map line xs @ [[]]"
    by (rule split_text_of) (use assms in auto)
  moreover have "concat (map host_of_line (map line xs)) = map host xs"
    using assms by (induction xs) auto
  moreover have "host_of_line [] = []" by (simp add: host_of_line_def trim_space_def)
  ultimately show ?thesis by (simp add: parse_hosts_list_def)
qed

lemma hosts_file_round_trip:
  assumes "\<And>h. h \<in> set hs \<Longrightarrow> h \<noteq> [] \<and> (\<forall>c \<in> set h. \<not> is_space c)"
  shows "parse_hosts_list (render_hosts_file hs) = hs"
proof -
  have "parse_hosts_list (text_of (map (\<lambda>h. ''0.0.0.0 '' @ h) hs)) = map (\<lambda>h. h) hs"
    by (rule hosts_lines_read) (use assms NL_space zero_address host_of_rendered in auto)
  then show ?thesis by (simp add: render_hosts_file_def)
qed

text \<open>What a stored source holds: valid lower-case host names, none twice.\<close>

definition stored_hosts :: "string list \<Rightarrow> string list" where
  "stored_hosts hosts = dedupe (lower_hosts hosts)"

lemma host_char_lower: "host_char c \<Longrightarrow> host_char (lower_char c)"
proof -
  have "lower_char CHR ''.'' = CHR ''.''" "lower_char CHR ''-'' = CHR ''-''"
    by (simp_all add: lower_char_def is_upper_def code_def)
  then show "host_char c \<Longrightarrow> ?thesis" by (auto simp: host_char_def)
qed

lemma to_lower_host: "rx_match plain_host_re h \<Longrightarrow> rx_match plain_host_re (to_lower h)"
  by (auto simp: plain_host_re_iff to_lower_def hd_map last_map host_char_lower)

lemma stored_hosts_valid:
  assumes "each validate_hostname hosts = Inr ()" "h \<in> set (stored_hosts hosts)"
  shows "rx_match plain_host_re h \<and> to_lower h = h"
proof -
  obtain g where g: "g \<in> set hosts" "h = to_lower g"
    using assms(2) by (auto simp: stored_hosts_def dedupe_def lower_hosts_def set_dedupe_loop)
  have "rx_match plain_host_re g"
    using assms(1) g(1) by (auto simp: res_simps validate_hostname_def split: if_splits simp del: rx_match.simps)
  then show ?thesis using g(2) to_lower_host by simp
qed

lemma clean_sources_dir: "clean_dir sources_dir"
  unfolding clean_dir_def
  by (rule exI [of _ "[''var'', ''lib'', ''code-docker-router'', ''dns'', ''blocklist-sources'']"])
    (simp add: sources_dir_def)

lemma custom_path_plain: "rx_match label_re n \<Longrightarrow> custom_path n = sources_dir @ CHR ''/'' # n @ ''.hosts''"
  unfolding custom_path_def using label_chars
  by (intro path_join_plain clean_sources_dir) (auto simp: append_eq_Cons_conv)

lemma write_source_ok:
  "write_source os name hosts fs = (Inr (), fs') \<Longrightarrow>
     fs' = fs(tmp_path (custom_path name) := None,
       custom_path name \<mapsto> \<lparr>contents = render_hosts_file (stored_hosts hosts), perm = 0x1A4\<rparr>)"
  by (auto simp: write_source_def stored_hosts_def apfst_def map_prod_def res_simps dest!: atomic_write_ok
      split: prod.splits)

lemma stored_source_reads:
  assumes "each validate_hostname hosts = Inr ()"
  shows "parse_hosts_list (render_hosts_file (stored_hosts hosts)) = stored_hosts hosts"
proof (rule hosts_file_round_trip)
  fix h
  assume "h \<in> set (stored_hosts hosts)"
  then have "rx_match plain_host_re h" using stored_hosts_valid [OF assms] by blast
  then show "h \<noteq> [] \<and> (\<forall>c \<in> set h. \<not> is_space c)" using host_char_not_space by (auto simp: plain_host_re_iff)
qed

text \<open>
  C26.  A source that was created or replaced with success reads back as exactly the given host names in
  lower case, each once; every host in it is a plain host name, and no other file changed but the
  temporary one.
\<close>

theorem written_source_reads_back:
  assumes "create_source os name hosts fs = (Inr (), fs') \<or> update_source os name hosts fs = (Inr (), fs')"
  shows "\<exists>f. fs' (sources_dir @ CHR ''/'' # name @ ''.hosts'') = Some f \<and>
    parse_hosts_list (contents f) = dedupe (lower_hosts hosts) \<and>
    set (parse_hosts_list (contents f)) = to_lower ` set hosts \<and> distinct (parse_hosts_list (contents f)) \<and>
    (\<forall>h \<in> set (parse_hosts_list (contents f)). rx_match plain_host_re h) \<and>
    name \<noteq> builtin_name \<and>
    (\<forall>p. p \<noteq> custom_path name \<longrightarrow> p \<noteq> tmp_path (custom_path name) \<longrightarrow> fs' p = fs p)"
proof -
  have run: "check_source name hosts = Inr ()" "write_source os name hosts fs = (Inr (), fs')"
    using assms by (auto simp: create_source_def update_source_def split: sum.splits if_splits)
  have v: "each validate_hostname hosts = Inr ()" and l: "rx_match label_re name" and b: "name \<noteq> builtin_name"
    using run(1) by (auto simp: check_source_def validate_source_name_def res_simps split: if_splits)
  have rd: "parse_hosts_list (render_hosts_file (stored_hosts hosts)) = stored_hosts hosts"
    by (rule stored_source_reads [OF v])
  have w: "fs' = fs(tmp_path (custom_path name) := None,
      custom_path name \<mapsto> \<lparr>contents = render_hosts_file (stored_hosts hosts), perm = 0x1A4\<rparr>)"
    by (rule write_source_ok [OF run(2)])
  let ?f = "\<lparr>contents = render_hosts_file (stored_hosts hosts), perm = 0x1A4\<rparr>"
  have p: "parse_hosts_list (contents ?f) = stored_hosts hosts" using rd by simp
  have q: "dedupe (lower_hosts hosts) = stored_hosts hosts" by (simp only: stored_hosts_def)
  have "set (stored_hosts hosts) = to_lower ` set hosts" "distinct (stored_hosts hosts)"
    by (simp_all add: stored_hosts_def dedupe_def lower_hosts_def set_dedupe_loop distinct_dedupe_loop)
  moreover have "fs' (sources_dir @ CHR ''/'' # name @ ''.hosts'') = Some ?f"
    using custom_path_plain [OF l] by (simp add: w)
  moreover have "\<forall>p. p \<noteq> custom_path name \<longrightarrow> p \<noteq> tmp_path (custom_path name) \<longrightarrow> fs' p = fs p" by (simp add: w)
  moreover have "\<forall>h \<in> set (stored_hosts hosts). rx_match plain_host_re h"
    using stored_hosts_valid [OF v] by blast
  ultimately show ?thesis using b by (intro exI [of _ ?f], unfold p q, intro conjI) (rule refl | assumption)+
qed

section \<open>The manifest read back\<close>

definition manifest_ok :: "manifest \<Rightarrow> bool" where
  "manifest_ok m \<longleftrightarrow>
     distinct (map fst m) \<and>
     (\<forall>(n, h) \<in> set m. n \<noteq> [] \<and> TAB \<notin> set n \<and> NL \<notin> set n \<and> NL \<notin> set h)"

text \<open>A walk over a map visits every entry once.\<close>

definition walk_ok :: "(manifest \<Rightarrow> manifest) \<Rightarrow> bool" where
  "walk_ok walk \<longleftrightarrow> (\<forall>m. mset (walk m) = mset m)"

lemma manifest_ok_walk: "walk_ok walk \<Longrightarrow> manifest_ok m \<Longrightarrow> manifest_ok (walk m) \<and> map_of (walk m) = map_of m"
proof -
  assume w: "walk_ok walk" and m: "manifest_ok m"
  have ms: "mset (walk m) = mset m" using w by (simp add: walk_ok_def)
  then have s: "set (walk m) = set m" by (rule mset_eq_setD)
  have "mset (map fst (walk m)) = mset (map fst m)" using ms by simp
  then have d: "distinct (map fst (walk m))" using m by (metis manifest_ok_def mset_eq_imp_distinct_iff)
  moreover have "distinct (map fst m)" using m by (simp add: manifest_ok_def)
  ultimately have "map_of (walk m) = map_of m" using s map_of_inject_set by blast
  then show ?thesis using d s m by (simp add: manifest_ok_def)
qed

lemma set_alist_update: "set (AList.update n h m) \<subseteq> insert (n, h) (set m)"
  by (induction m) auto

lemma manifest_ok_update: "manifest_ok m \<Longrightarrow> n \<noteq> [] \<Longrightarrow> TAB \<notin> set n \<Longrightarrow> NL \<notin> set n \<Longrightarrow> NL \<notin> set h \<Longrightarrow>
    manifest_ok (AList.update n h m)"
  using set_alist_update [of n h m] by (auto simp: manifest_ok_def distinct_update)

lemma parse_line_ok: "manifest_ok m \<Longrightarrow> NL \<notin> set l \<Longrightarrow> manifest_ok (add_manifest_line m l)"
  by (auto simp: add_manifest_line_def split: option.splits dest!: cut_SomeD intro!: manifest_ok_update)

lemma parse_manifest_ok: "manifest_ok (parse_manifest data)"
proof -
  have "manifest_ok (foldl add_manifest_line m ls)" if "manifest_ok m" "\<forall>l \<in> set ls. NL \<notin> set l" for m ls
    using that by (induction ls arbitrary: m) (auto intro: parse_line_ok)
  moreover have "manifest_ok []" by (simp add: manifest_ok_def)
  ultimately show ?thesis
    unfolding parse_manifest_def using split_on_no_sep [of _ NL data]
    by blast
qed

lemma parse_render_manifest:
  assumes "manifest_ok m"
  shows "map_of (parse_manifest (render_manifest m)) = map_of m"
proof -
  let ?line = "\<lambda>(name, hash). name @ TAB # hash"
  have lines: "split_on NL (render_manifest m) = map ?line m @ [[]]"
    unfolding render_manifest_def by (rule split_text_of) (use assms in \<open>auto simp: manifest_ok_def\<close>)
  have step: "map_of (add_manifest_line acc (?line e)) = (map_of acc)(fst e \<mapsto> snd e)"
    if "e \<in> set m" for acc e
    using that assms by (cases e) (auto simp: add_manifest_line_def manifest_ok_def update_conv')
  have "map_of (foldl add_manifest_line acc (map ?line es)) = map_of acc ++ map_of (rev es)"
    if "set es \<subseteq> set m" for acc es
    using that
  proof (induction es arbitrary: acc)
    case (Cons e es)
    then show ?case using step [of e acc] by (simp add: map_add_upd_left)
  qed simp
  then have "map_of (parse_manifest (render_manifest m)) = map_of (rev m)"
    by (simp add: parse_manifest_def lines add_manifest_line_def)
  also have "\<dots> = map_of m"
    using assms map_of_inject_set [of "rev m" m] by (simp add: manifest_ok_def rev_map [symmetric])
  finally show ?thesis .
qed

section \<open>Pull and ignore\<close>

definition sha_ok :: "(string \<Rightarrow> string) \<Rightarrow> bool" where
  "sha_ok sha \<longleftrightarrow> (\<forall>d. NL \<notin> set (sha d) \<and> TAB \<notin> set (sha d))"

lemma save_manifest_ok:
  assumes "save_manifest walk os path m fs = (Inr (), fs')" "walk_ok walk" "manifest_ok m"
  shows "(\<exists>f. fs' path = Some f \<and> map_of (parse_manifest (contents f)) = map_of m) \<and>
    (\<forall>p. p \<noteq> path \<longrightarrow> p \<noteq> tmp_path path \<longrightarrow> fs' p = fs p)"
proof -
  have "atomic_write os path (render_manifest (walk m)) 0x1A4 fs = (Inr (), fs')"
    using assms(1) by (auto simp: save_manifest_def apfst_def map_prod_def res_simps split: prod.splits)
  then have "fs' = fs(tmp_path path := None, path \<mapsto> \<lparr>contents = render_manifest (walk m), perm = 0x1A4\<rparr>)"
    by (rule atomic_write_ok)
  then show ?thesis
    using parse_render_manifest manifest_ok_walk [OF assms(2,3)] by auto
qed

lemma record_baseline_ok:
  assumes "record_baseline sha walk os shipped fs = (Inr (), fs')" "walk_ok walk" "sha_ok sha"
  shows "(\<exists>f. fs' manifest_path = Some f \<and> manifest_hash (parse_manifest (contents f)) builtin_name = sha shipped) \<and>
    (\<forall>p. p \<noteq> manifest_path \<longrightarrow> p \<noteq> tmp_path manifest_path \<longrightarrow> fs' p = fs p)"
proof -
  obtain m where m: "load_manifest os manifest_path fs = Inr m"
    and sv: "save_manifest walk os manifest_path (AList.update builtin_name (sha shipped) m) fs = (Inr (), fs')"
    using assms(1) by (auto simp: record_baseline_def split: sum.splits)
  have "manifest_ok m"
    using m parse_manifest_ok by (auto simp: load_manifest_def manifest_ok_def [of "[]"] split: read_result.splits)
  then have "manifest_ok (AList.update builtin_name (sha shipped) m)"
    using assms(3) by (intro manifest_ok_update) (auto simp: sha_ok_def builtin_name_def)
  from save_manifest_ok [OF sv assms(2) this] show ?thesis
    by (auto simp: manifest_hash_def update_conv')
qed

lemma builtin_path_eq: "builtin_path = sources_dir @ ''/builtin.hosts''"
proof -
  have "rx_match label_re ''builtin''" by code_simp
  from custom_path_plain [OF this] show ?thesis by (simp add: builtin_path_def custom_path_def builtin_name_def)
qed

lemma dns_paths_distinct [simp]:
  "builtin_path \<noteq> manifest_path" "builtin_path \<noteq> tmp_path manifest_path"
  "manifest_path \<noteq> builtin_path" "manifest_path \<noteq> tmp_path builtin_path"
  by (simp_all add: builtin_path_eq sources_dir_def manifest_path_def tmp_path_def)

lemma shipped_elsewhere:
  assumes "\<not> has_prefix p ''/var/lib/code-docker-router/dns/''"
  shows "p \<noteq> builtin_path" "p \<noteq> tmp_path builtin_path" "p \<noteq> manifest_path" "p \<noteq> tmp_path manifest_path"
  using assms by (auto simp: builtin_path_eq sources_dir_def manifest_path_def tmp_path_def)

lemma status_quiet:
  assumes "fs (shipped_default_path env) = Some f" "fs manifest_path = Some m"
  shows "get_builtin_status env sha quiet_os fs =
    (let seeded = manifest_hash (parse_manifest (contents m)) builtin_name
     in if seeded = [] \<or> sha (contents f) = seeded then Inr no_update
        else case read_needed quiet_os fs builtin_path of
               Inl _ \<Rightarrow> Inr (no_update\<lparr>update_available := True\<rparr>)
             | Inr live \<Rightarrow>
                 (let (added, removed) = diff_host_lists (parse_hosts_list live) (parse_hosts_list (contents f))
                  in Inr \<lparr>update_available = True, live_diverged = (sha live \<noteq> seeded),
                          added_count = length added, removed_count = length removed,
                          added_sample = sample_strings added diff_sample_limit,
                          removed_sample = sample_strings removed diff_sample_limit\<rparr>))"
  using assms by (simp add: get_builtin_status_def read_needed_def read_file_def load_manifest_def)

lemma status_update_available:
  assumes "fs (shipped_default_path env) = Some f" "fs manifest_path = Some m"
    and "manifest_hash (parse_manifest (contents m)) builtin_name = h" "h \<noteq> []" "sha (contents f) \<noteq> h"
  shows "\<exists>st. get_builtin_status env sha quiet_os fs = Inr st \<and> update_available st"
  using assms by (auto simp: status_quiet Let_def no_update_def split: sum.splits prod.splits)

text \<open>
  C25.  After a successful pull the live builtin list is the shipped one; after a successful ignore it is
  what it was; and in both cases the status asked next reports no update, until the shipped list changes.
\<close>

theorem pull_ignore_settle:
  assumes "walk_ok walk" "sha_ok sha"
    and "fs (shipped_default_path env) = Some f"
    and "\<not> has_prefix (shipped_default_path env) ''/var/lib/code-docker-router/dns/''"
    and "(if pull then builtin_pull else builtin_ignore) env sha walk os fs = (Inr (), fs')"
  shows "fs' builtin_path = (if pull then Some \<lparr>contents = contents f, perm = 0x1A4\<rparr> else fs builtin_path) \<and>
    get_builtin_status env sha quiet_os fs' = Inr no_update \<and>
    (\<forall>g. sha (contents g) \<noteq> sha (contents f) \<longrightarrow> sha (contents f) \<noteq> [] \<longrightarrow>
      (\<exists>st. get_builtin_status env sha quiet_os (fs'(shipped_default_path env \<mapsto> g)) = Inr st \<and> update_available st))"
proof -
  note elsewhere = shipped_elsewhere [OF assms(4)]
  obtain fs1 where base: "record_baseline sha walk os (contents f) fs1 = (Inr (), fs')"
    and fs1: "fs1 (shipped_default_path env) = Some f"
      "fs1 builtin_path = (if pull then Some \<lparr>contents = contents f, perm = 0x1A4\<rparr> else fs builtin_path)"
  proof (cases pull)
    case True
    with assms(3,5) elsewhere show ?thesis
      by (auto simp: builtin_pull_def read_needed_def read_file_def split: if_splits prod.splits sum.splits
          dest!: atomic_write_ok intro!: that)
  next
    case False
    with assms(3,5) show ?thesis
      by (auto simp: builtin_ignore_def read_needed_def read_file_def split: if_splits intro!: that)
  qed
  from record_baseline_ok [OF base assms(1,2)] obtain m where
    m: "fs' manifest_path = Some m" "manifest_hash (parse_manifest (contents m)) builtin_name = sha (contents f)"
    and frame: "\<And>p. p \<noteq> manifest_path \<Longrightarrow> p \<noteq> tmp_path manifest_path \<Longrightarrow> fs' p = fs1 p" by blast
  have sh: "fs' (shipped_default_path env) = Some f" using frame elsewhere fs1(1) by simp
  have "get_builtin_status env sha quiet_os fs' = Inr no_update"
    using status_quiet [OF sh m(1)] m(2) by (simp add: Let_def)
  moreover have "fs' builtin_path = (if pull then Some \<lparr>contents = contents f, perm = 0x1A4\<rparr> else fs builtin_path)"
    using frame [of builtin_path] fs1(2) by simp
  moreover have "\<exists>st. get_builtin_status env sha quiet_os (fs'(shipped_default_path env \<mapsto> g)) = Inr st \<and> update_available st"
    if "sha (contents g) \<noteq> sha (contents f)" "sha (contents f) \<noteq> []" for g
    by (rule status_update_available [where f = g and m = m and h = "sha (contents f)"])
      (use that m elsewhere in auto)
  ultimately show ?thesis by blast
qed

section \<open>Hosts with two owners\<close>

lemma two_distinct: "1 < length (dedupe ws) \<longleftrightarrow> (\<exists>a \<in> set ws. \<exists>b \<in> set ws. a \<noteq> b)"
proof -
  have "length (dedupe ws) = card (set ws)"
    using distinct_card [OF distinct_dedupe_loop [of "{}" ws]] by (simp add: dedupe_def set_dedupe_loop)
  moreover have "card (set ws) \<le> Suc 0 \<longleftrightarrow> (\<forall>a \<in> set ws. \<forall>b \<in> set ws. a = b)"
    by (rule card_le_Suc0_iff_eq) simp
  ultimately show ?thesis by (metis One_nat_def linorder_not_le)
qed

lemma owners_of_set: "w \<in> set (owners_of pairs h) \<longleftrightarrow> (h, w) \<in> set pairs"
  by (auto simp: owners_of_def)

lemma duplicate_hosts_spec:
  "h \<in> set (duplicate_hosts pairs) \<longleftrightarrow> (\<exists>a b. a \<noteq> b \<and> (h, a) \<in> set pairs \<and> (h, b) \<in> set pairs)"
  "sorted (duplicate_hosts pairs)" "distinct (duplicate_hosts pairs)"
proof -
  show "h \<in> set (duplicate_hosts pairs) \<longleftrightarrow> (\<exists>a b. a \<noteq> b \<and> (h, a) \<in> set pairs \<and> (h, b) \<in> set pairs)"
    unfolding duplicate_hosts_def two_distinct
    by (auto simp: dedupe_def set_dedupe_loop owners_of_set) (force simp: owners_of_set)+
qed (simp_all add: duplicate_hosts_def dedupe_def distinct_dedupe_loop)

definition holds_host :: "(string \<times> string list) list \<Rightarrow> string \<Rightarrow> string \<Rightarrow> bool" where
  "holds_host srcs n h \<longleftrightarrow> (\<exists>hs. (n, hs) \<in> set srcs \<and> h \<in> set hs)"

lemma owner_pairs_iff:
  "(h, w) \<in> set (owner_pairs extra srcs) \<longleftrightarrow> w = ''custom-hosts'' \<and> h \<in> set extra \<or> holds_host srcs w h"
  unfolding owner_pairs_def holds_host_def by (simp add: image_iff case_prod_unfold) (metis fst_conv snd_conv prod.collapse)

text \<open>
  The listing names as conflicting exactly the hosts that two differently named sources hold, or a
  source not called \<open>custom-hosts\<close> and the custom hosts; in order, each once.
\<close>

theorem listed_duplicates:
  assumes "list_sources env sha os (Entries es) extra fs = Inr r"
  shows "set (lr_duplicates r) =
      {h. \<exists>n. holds_host (read_sources os fs es) n h \<and>
        ((\<exists>m. m \<noteq> n \<and> holds_host (read_sources os fs es) m h) \<or> h \<in> set extra \<and> n \<noteq> ''custom-hosts'')} \<and>
    sorted (lr_duplicates r) \<and> distinct (lr_duplicates r) \<and>
    mset (lr_sources r) = mset (map source_info_of (read_sources os fs es))"
proof -
  let ?srcs = "read_sources os fs es"
  have d: "lr_duplicates r = duplicate_hosts (owner_pairs extra ?srcs)"
    and s: "mset (lr_sources r) = mset (map source_info_of ?srcs)"
    using assms by (auto simp: list_sources_def Let_def)
  have "h \<in> set (duplicate_hosts (owner_pairs extra ?srcs)) \<longleftrightarrow>
      (\<exists>n. holds_host ?srcs n h \<and>
        ((\<exists>m. m \<noteq> n \<and> holds_host ?srcs m h) \<or> h \<in> set extra \<and> n \<noteq> ''custom-hosts''))" for h
    unfolding duplicate_hosts_spec(1) owner_pairs_iff by blast
  then have "set (duplicate_hosts (owner_pairs extra ?srcs)) =
      {h. \<exists>n. holds_host ?srcs n h \<and>
        ((\<exists>m. m \<noteq> n \<and> holds_host ?srcs m h) \<or> h \<in> set extra \<and> n \<noteq> ''custom-hosts'')}" by blast
  then show ?thesis unfolding d using s duplicate_hosts_spec(2,3) by simp
qed

section \<open>Names that climb\<close>

text \<open>
  \<open>DeleteSource\<close> checks its name against the builtin one only: with a name that climbs out of the
  directory it removes the rendered custom hosts.
\<close>

theorem delete_source_escapes:
  "custom_path ''../custom-hosts'' = ''/var/lib/code-docker-router/dns/custom-hosts.hosts'' \<and>
   is_err (validate_source_name ''../custom-hosts'') \<and>
   delete_source quiet_os ''../custom-hosts''
     [''/var/lib/code-docker-router/dns/custom-hosts.hosts'' \<mapsto> f] = (Inr (), Map.empty)"
proof -
  have p: "custom_path ''../custom-hosts'' = ''/var/lib/code-docker-router/dns/custom-hosts.hosts''"
    by code_simp
  moreover have "is_err (validate_source_name ''../custom-hosts'')" by code_simp
  ultimately show ?thesis
    by (simp add: delete_source_def builtin_name_def p stat_ok_def remove_def)
qed

section \<open>Concrete runs\<close>

theorem written_source_reads_back_witness:
  "\<exists>fs' f. create_source quiet_os ''ads'' [''Ads.Example'', ''ads.example''] Map.empty = (Inr (), fs') \<and>
     fs' (sources_dir @ ''/ads.hosts'') = Some f \<and> set (parse_hosts_list (contents f)) = {''ads.example''}"
proof -
  have chk: "check_source ''ads'' [''Ads.Example'', ''ads.example''] = Inr ()" by code_simp
  obtain r fs' where run: "create_source quiet_os ''ads'' [''Ads.Example'', ''ads.example''] Map.empty = (r, fs')"
    by fastforce
  then have "r = Inr ()"
    by (auto simp: create_source_def chk stat_ok_def write_source_def atomic_write_quiet)
  moreover have "to_lower ''Ads.Example'' = ''ads.example''" "to_lower ''ads.example'' = ''ads.example''" by code_simp+
  ultimately show ?thesis
    using written_source_reads_back [of quiet_os "''ads''" "[''Ads.Example'', ''ads.example'']" Map.empty fs'] run
    by auto
qed

definition toy_sha :: "string \<Rightarrow> string" where
  "toy_sha d = CHR ''x'' # filter (\<lambda>c. c \<noteq> NL \<and> c \<noteq> TAB) d"

theorem pull_ignore_settle_witness:
  "\<exists>fs'. builtin_pull (\<lambda>_. []) toy_sha (\<lambda>m. m) quiet_os
      [''/etc/router/dns/blocklist.default.hosts'' \<mapsto> \<lparr>contents = ''0.0.0.0 a'', perm = 0x1A4\<rparr>] = (Inr (), fs') \<and>
    fs' builtin_path = Some \<lparr>contents = ''0.0.0.0 a'', perm = 0x1A4\<rparr> \<and>
    get_builtin_status (\<lambda>_. []) toy_sha quiet_os fs' = Inr no_update"
proof -
  let ?fs = "[''/etc/router/dns/blocklist.default.hosts'' \<mapsto> \<lparr>contents = ''0.0.0.0 a'', perm = 0x1A4\<rparr>]"
  have env: "shipped_default_path (\<lambda>_. []) = ''/etc/router/dns/blocklist.default.hosts''"
    by (simp add: shipped_default_path_def)
  obtain r fs' where run: "builtin_pull (\<lambda>_. []) toy_sha (\<lambda>m. m) quiet_os ?fs = (r, fs')" by fastforce
  then have "r = Inr ()"
    by (auto simp: builtin_pull_def read_needed_def read_file_def env atomic_write_quiet record_baseline_def
        load_manifest_def save_manifest_def split: read_result.splits option.splits)
  moreover have "walk_ok (\<lambda>m. m)" by (simp add: walk_ok_def)
  moreover have "sha_ok toy_sha" by (simp add: sha_ok_def toy_sha_def)
  ultimately show ?thesis
    using pull_ignore_settle [of "\<lambda>m. m" toy_sha ?fs "\<lambda>_. []" _ True quiet_os fs'] run
    by (simp add: env)
qed

theorem listed_duplicates_witness:
  "\<exists>r. list_sources (\<lambda>_. []) toy_sha quiet_os (Entries [(''ads.hosts'', False)]) [''b'']
      [sources_dir @ ''/ads.hosts'' \<mapsto> \<lparr>contents = text_of [''0.0.0.0 a'', ''0.0.0.0 b''], perm = 0x1A4\<rparr>] = Inr r \<and>
    set (lr_duplicates r) = {''b''}"
proof -
  let ?fs = "[sources_dir @ ''/ads.hosts'' \<mapsto> \<lparr>contents = text_of [''0.0.0.0 a'', ''0.0.0.0 b''], perm = 0x1A4\<rparr>]"
  obtain r where run: "list_sources (\<lambda>_. []) toy_sha quiet_os (Entries [(''ads.hosts'', False)]) [''b''] ?fs = Inr r"
    by (auto simp: list_sources_def Let_def)
  have "path_join sources_dir ''ads.hosts'' = sources_dir @ ''/ads.hosts''" by code_simp
  moreover have "parse_hosts_list (text_of [''0.0.0.0 a'', ''0.0.0.0 b'']) = [''a'', ''b'']" by code_simp
  moreover have "has_suffix ''ads.hosts'' ''.hosts''" "trim_suffix ''ads.hosts'' ''.hosts'' = ''ads''" by code_simp+
  ultimately have "read_sources quiet_os ?fs [(''ads.hosts'', False)] = [(''ads'', [''a'', ''b''])]"
    by (simp add: read_file_def del: text_of_simps)
  with listed_duplicates [OF run] run show ?thesis by (auto simp: holds_host_def)
qed

end
