(* ===== verification/Dns_Config.thy ===== *)
theory Dns_Config
  imports Dns_Blocklist Config_Store Net_Addr
begin

text \<open>
  The rest of \<open>internal/dns\<close>: the custom host names (\<open>customhosts.go\<close>), the upstream resolver
  (\<open>resolver.go\<close>) and the lookups (\<open>query.go\<close>).  The YAML codecs and the \<open>dig\<close> command are parameters.
\<close>

section \<open>Custom hosts\<close>

definition custom_hosts_config_path :: string where
  "custom_hosts_config_path = ''/var/lib/code-docker-router/dns/custom-hosts.yaml''"

definition custom_hosts_rendered_path :: string where
  "custom_hosts_rendered_path = ''/var/lib/code-docker-router/dns/custom-hosts.hosts''"

record host_entry =
  he_host :: string
  he_ip :: string

datatype hosts_error =
    HostsDns dns_error
  | BadIP string
  | DuplicateHost string
  | HostsStore store_error

type_synonym hosts_codec = "(host_entry slice, string) codec"

definition validate_host_entry :: "host_entry \<Rightarrow> hosts_error + unit" where
  "validate_host_entry e =
     res_bind (map_error HostsDns (validate_hostname (he_host e))) (\<lambda>_.
     if parse_ip (he_ip e) = None then Inl (BadIP (he_ip e)) else Inr ())"

definition list_custom_hosts :: "hosts_codec \<Rightarrow> string os \<Rightarrow> string fs \<Rightarrow> store_error + host_entry slice" where
  "list_custom_hosts cd os fs =
     (case read_file os fs custom_hosts_config_path of
        NoSuchFile \<Rightarrow> Inr (Some [])
      | ReadFailed e \<Rightarrow> Inl (StoreIO e)
      | ReadOK data \<Rightarrow>
          (case unmarshal cd data of None \<Rightarrow> Inl Corrupt | Some entries \<Rightarrow> Inr (non_nil entries)))"

text \<open>The loop: each entry folded to lower case, checked, and refused when its host was seen before.\<close>

fun check_entries :: "string set \<Rightarrow> host_entry list \<Rightarrow> hosts_error + host_entry list" where
  "check_entries seen [] = Inr []"
| "check_entries seen (e0 # es) =
     (let e = e0\<lparr>he_host := to_lower (he_host e0)\<rparr>
      in res_bind (validate_host_entry e) (\<lambda>_.
         if he_host e \<in> seen then Inl (DuplicateHost (he_host e))
         else res_bind (check_entries (insert (he_host e) seen) es) (\<lambda>rest. Inr (e # rest))))"

definition hosts_line :: "host_entry \<Rightarrow> string" where
  "hosts_line e = he_ip e @ '' '' @ he_host e"

definition set_custom_hosts :: "hosts_codec \<Rightarrow> string os \<Rightarrow> host_entry list \<Rightarrow> string fs \<Rightarrow> (hosts_error + unit) \<times> string fs" where
  "set_custom_hosts cd os given fs =
     (case check_entries {} given of
        Inl e \<Rightarrow> (Inl e, fs)
      | Inr entries \<Rightarrow>
          (case marshal cd (if entries = [] then None else Some entries) of
             None \<Rightarrow> (Inl (HostsStore MarshalFailed), fs)
           | Some data \<Rightarrow>
               (case atomic_write os custom_hosts_config_path data 0x1A4 fs of
                  (Inl e, fs1) \<Rightarrow> (Inl (HostsStore (StoreIO e)), fs1)
                | (Inr _, fs1) \<Rightarrow>
                    if entries = [] then
                      (if fs1 custom_hosts_rendered_path = None then (Inr (), fs1)
                       else apfst (map_error (\<lambda>e. HostsStore (StoreIO e))) (remove os custom_hosts_rendered_path fs1))
                    else
                      apfst (map_error (\<lambda>e. HostsStore (StoreIO e)))
                        (atomic_write os custom_hosts_rendered_path (text_of (map hosts_line entries)) 0x1A4 fs1))))"

section \<open>The resolver\<close>

definition resolver_config_path :: string where
  "resolver_config_path = ''/var/lib/code-docker-router/dns/config.yaml''"

record resolver_config =
  rc_mode :: string
  rc_servers :: "string slice"

datatype resolver_error =
    InvalidResolverMode
  | NoServers
  | BadServer string
  | ResolverStore store_error

type_synonym resolver_codec = "(resolver_config, string) codec"

definition get_resolver_config :: "resolver_codec \<Rightarrow> string os \<Rightarrow> string fs \<Rightarrow> store_error + resolver_config" where
  "get_resolver_config cd os fs =
     (case read_file os fs resolver_config_path of
        NoSuchFile \<Rightarrow> Inr \<lparr>rc_mode = ''auto'', rc_servers = Some []\<rparr>
      | ReadFailed e \<Rightarrow> Inl (StoreIO e)
      | ReadOK data \<Rightarrow>
          (case unmarshal cd data of
             None \<Rightarrow> Inl Corrupt
           | Some c \<Rightarrow>
               Inr (c\<lparr>rc_mode := (if rc_mode c = [] then ''auto'' else rc_mode c), rc_servers := non_nil (rc_servers c)\<rparr>)))"

definition check_resolver :: "resolver_config \<Rightarrow> resolver_error + unit" where
  "check_resolver c =
     (if rc_mode c \<noteq> ''auto'' \<and> rc_mode c \<noteq> ''custom'' then Inl InvalidResolverMode
      else if rc_mode c = ''custom'' then
        (if elems (rc_servers c) = [] then Inl NoServers
         else each (\<lambda>s. if parse_ip s = None then Inl (BadServer s) else Inr ()) (elems (rc_servers c)))
      else Inr ())"

definition set_resolver_config ::
    "resolver_codec \<Rightarrow> string os \<Rightarrow> resolver_config \<Rightarrow> string fs \<Rightarrow> (resolver_error + unit) \<times> string fs" where
  "set_resolver_config cd os c fs =
     (case check_resolver c of
        Inl e \<Rightarrow> (Inl e, fs)
      | Inr _ \<Rightarrow> apfst (map_error ResolverStore) (save_doc cd 0x1A4 resolver_config_path os c fs))"

section \<open>Lookups\<close>

text \<open>
  \<open>^[A-Za-z0-9_](?:[A-Za-z0-9_-]*[A-Za-z0-9_])?(?:\.[A-Za-z0-9_](?:[A-Za-z0-9_-]*[A-Za-z0-9_])?)*\.?$\<close>
\<close>

definition dns_edge :: "char \<Rightarrow> bool" where
  "dns_edge c \<longleftrightarrow> is_alnum c \<or> c = CHR ''_''"

definition dns_char :: "char \<Rightarrow> bool" where
  "dns_char c \<longleftrightarrow> dns_edge c \<or> c = CHR ''-''"

definition domain_pattern :: rx where
  "domain_pattern =
     (let lab = rx_edges dns_edge (RStar (RCls dns_char))
      in RSeq lab (RSeq (RStar (RSeq (RChr CHR ''.'') lab)) (ROpt (RChr CHR ''.''))))"

definition query_types :: "string list" where
  "query_types = [''A'', ''AAAA'', ''CNAME'', ''MX'', ''TXT'', ''NS'', ''SOA'', ''PTR'', ''SRV'', ''ANY'']"

definition all_types :: "string list" where
  "all_types = [''A'', ''AAAA'', ''CNAME'', ''MX'', ''TXT'', ''NS'', ''SOA'', ''SRV'']"

datatype query_error = EmptyDomain | InvalidDomain | InvalidQueryType | NoDig | DigFailed

record query_result =
  qr_domain :: string
  qr_type :: string
  qr_duration_ms :: int
  qr_output :: string

definition check_query :: "string \<Rightarrow> string \<Rightarrow> query_error + string \<times> string" where
  "check_query domain0 type0 =
     (let domain = trim_space domain0
      in if domain = [] then Inl EmptyDomain
         else if \<not> rx_match domain_pattern domain then Inl InvalidDomain
         else let t = to_upper (trim_space type0); rtype = (if t = [] then ''A'' else t)
              in if rtype \<noteq> ''ALL'' \<and> rtype \<notin> set query_types then Inl InvalidQueryType
                 else Inr (domain, rtype))"

definition dig_args :: "string \<Rightarrow> string \<Rightarrow> string list" where
  "dig_args domain rtype =
     [''+noall'', ''+answer'', ''+comments'', ''+stats'', ''@127.0.0.1''] @
     (if rtype = ''ALL'' then concat (map (\<lambda>t. [domain, t]) all_types) else [domain, rtype])"

text \<open>
  \<open>dig args = (out, ok, ms)\<close>: what the command printed, whether it exited with 0, how long it took;
  \<open>has_dig\<close>: whether it is on the path.
\<close>

definition dns_query ::
    "bool \<Rightarrow> (string list \<Rightarrow> string \<times> bool \<times> int) \<Rightarrow> string \<Rightarrow> string \<Rightarrow> query_error + query_result" where
  "dns_query has_dig dig domain0 type0 =
     res_bind (check_query domain0 type0) (\<lambda>(domain, rtype).
     if \<not> has_dig then Inl NoDig
     else case dig (dig_args domain rtype) of
            (out, ok, ms) \<Rightarrow>
              if \<not> ok \<and> trim_space out = [] then Inl DigFailed
              else Inr \<lparr>qr_domain = domain, qr_type = rtype, qr_duration_ms = ms, qr_output = out\<rparr>)"

section \<open>What dig is asked\<close>

lemma domain_pattern_head:
  assumes "rx_match domain_pattern s"
  shows "s \<noteq> [] \<and> dns_edge (hd s) \<and> (\<forall>c \<in> set s. dns_char c \<or> c = CHR ''.'')"
proof -
  have "s \<in> rx_lang domain_pattern" using assms by (simp add: rx_match_iff)
  then obtain a b where ab: "s = a @ b" "a \<in> rx_lang (rx_edges dns_edge (RStar (RCls dns_char)))"
    unfolding domain_pattern_def Let_def by (subst (asm) rx_lang.simps(4)) blast
  have "a \<noteq> [] \<and> dns_edge (hd a)" using ab(2) by (auto simp: edges_lang)
  moreover have "\<forall>c \<in> set s. rx_may domain_pattern c" using rx_match_chars [OF assms] by blast
  ultimately show ?thesis
    using ab(1) by (auto simp: domain_pattern_def Let_def rx_edges_def ROpt_def RChr_def dns_char_def)
qed

lemma dns_edge_plain: "dns_edge c \<Longrightarrow> c \<noteq> CHR ''-'' \<and> c \<noteq> CHR ''+'' \<and> c \<noteq> CHR ''@''"
  by (auto simp: dns_edge_def char_class_defs code_def)

text \<open>
  C24.  Whatever the caller asks to look up, the arguments after the five fixed ones are names and record
  types: none is empty or starts with a character \<open>dig\<close> reads as an option or a server, so the query goes
  to the local resolver with the fixed options only.
\<close>

theorem query_arguments_inert:
  assumes "check_query domain0 type0 = Inr (domain, rtype)"
  shows "(\<exists>rest. dig_args domain rtype =
      [''+noall'', ''+answer'', ''+comments'', ''+stats'', ''@127.0.0.1''] @ rest \<and> rest \<noteq> [] \<and>
      (\<forall>a \<in> set rest. a \<noteq> [] \<and> hd a \<notin> {CHR ''-'', CHR ''+'', CHR ''@''} \<and> (a = domain \<or> a \<in> set query_types))) \<and>
    domain = trim_space domain0 \<and> (\<forall>c \<in> set domain. dns_char c \<or> c = CHR ''.'')"
proof -
  have m: "rx_match domain_pattern domain" and t: "rtype = ''ALL'' \<or> rtype \<in> set query_types"
    and d: "domain = trim_space domain0"
    using assms by (auto simp: check_query_def Let_def split: if_splits simp del: rx_match.simps)
  note h = domain_pattern_head [OF m]
  have "hd domain \<notin> {CHR ''-'', CHR ''+'', CHR ''@''}" using h dns_edge_plain by blast
  moreover have "\<forall>a \<in> set query_types. a \<noteq> [] \<and> hd a \<notin> {CHR ''-'', CHR ''+'', CHR ''@''}"
    by (simp add: query_types_def)
  moreover have "set all_types \<subseteq> set query_types" "all_types \<noteq> []" by (simp_all add: query_types_def all_types_def)
  ultimately have "\<forall>a \<in> set (if rtype = ''ALL'' then concat (map (\<lambda>t. [domain, t]) all_types) else [domain, rtype]).
      a \<noteq> [] \<and> hd a \<notin> {CHR ''-'', CHR ''+'', CHR ''@''} \<and> (a = domain \<or> a \<in> set query_types)"
    using t h by auto
  moreover have "(if rtype = ''ALL'' then concat (map (\<lambda>t. [domain, t]) all_types) else [domain, rtype]) \<noteq> []"
    by (simp add: all_types_def)
  ultimately show ?thesis unfolding dig_args_def using d h by blast
qed

theorem query_arguments_inert_witness:
  "check_query '' _sip._tcp.example.com'' ''srv'' = Inr (''_sip._tcp.example.com'', ''SRV'') \<and>
   CHR ''@'' \<notin> hd ` set (drop 5 (dig_args ''_sip._tcp.example.com'' ''SRV'')) \<and>
   is_err (check_query ''@1.2.3.4'' '''') \<and> is_err (check_query ''-f'' '''')"
proof -
  have ok: "check_query '' _sip._tcp.example.com'' ''srv'' = Inr (''_sip._tcp.example.com'', ''SRV'')" by code_simp
  moreover have "is_err (check_query ''@1.2.3.4'' '''')" "is_err (check_query ''-f'' '''')" by code_simp+
  ultimately show ?thesis using query_arguments_inert [OF ok] by auto
qed

section \<open>Custom hosts on disk\<close>

definition folded :: "host_entry \<Rightarrow> host_entry" where
  "folded e = e\<lparr>he_host := to_lower (he_host e)\<rparr>"

lemma check_entries_ok:
  "check_entries seen given = Inr es \<Longrightarrow>
     es = map folded given \<and> distinct (map he_host es) \<and> set (map he_host es) \<inter> seen = {} \<and>
     (\<forall>e \<in> set es. validate_host_entry e = Inr ())"
proof (induction given arbitrary: seen es)
  case (Cons e0 given)
  then obtain rest where v: "validate_host_entry (folded e0) = Inr ()" and n: "he_host (folded e0) \<notin> seen"
    and r: "check_entries (insert (he_host (folded e0)) seen) given = Inr rest" "es = folded e0 # rest"
    by (auto simp: Let_def res_simps folded_def split: if_splits)
  from Cons.IH [OF r(1)] have ih: "rest = map folded given" "distinct (map he_host rest)"
    "set (map he_host rest) \<inter> insert (he_host (folded e0)) seen = {}"
    "\<forall>e \<in> set rest. validate_host_entry e = Inr ()" by blast+
  then show ?case using v n r(2) by simp
qed simp

text \<open>The words of a hosts file, line by line: an address and the names it is for.\<close>

definition hosts_words :: "string \<Rightarrow> string list list" where
  "hosts_words content = filter (\<lambda>ws. ws \<noteq> []) (map Go_Prelude.fields (split_on NL content))"

lemma hosts_words_text:
  assumes "\<And>x. x \<in> set xs \<Longrightarrow> NL \<notin> set (line x) \<and> Go_Prelude.fields (line x) \<noteq> []"
  shows "hosts_words (text_of (map line xs)) = map (\<lambda>x. Go_Prelude.fields (line x)) xs"
proof -
  have "split_on NL (text_of (map line xs)) = map line xs @ [[]]"
    by (rule split_text_of) (use assms in auto)
  moreover have "filter (\<lambda>ws. ws \<noteq> []) (map Go_Prelude.fields (map line xs)) = map (\<lambda>x. Go_Prelude.fields (line x)) xs"
    using assms by (induction xs) auto
  moreover have "Go_Prelude.fields [] = []" by (simp add: Go_Prelude.fields_def)
  ultimately show ?thesis by (simp add: hosts_words_def)
qed

lemma hosts_line_reads:
  assumes "validate_host_entry e = Inr ()"
  shows "NL \<notin> set (hosts_line e) \<and> host_of_line (hosts_line e) = [he_host e] \<and>
    Go_Prelude.fields (hosts_line e) = [he_ip e, he_host e] \<and> parse_ip (he_ip e) \<noteq> None"
proof -
  have h: "rx_match plain_host_re (he_host e)" and "parse_ip (he_ip e) \<noteq> None"
    using assms by (auto simp: validate_host_entry_def validate_hostname_def res_simps split: if_splits simp del: rx_match.simps)
  then obtain a where ip: "parse_ip (he_ip e) = Some a" by blast
  have ic: "\<not> is_space c \<and> c \<noteq> CHR ''#''" if "c \<in> set (he_ip e)" for c
    using parse_ip_bytes [OF ip that] ip_char_plain by blast
  have hc: "he_host e \<noteq> []" "\<not> is_space c" if "c \<in> set (he_host e)" for c
    using that h host_char_not_space by (auto simp: plain_host_re_iff)
  have hn: "he_host e \<noteq> []" using h by (simp add: plain_host_re_iff)
  have ipn: "he_ip e \<noteq> []" using ip parse_ip_not_Nil by auto
  have "\<not> has_prefix (he_ip e) ''#''" using ic ipn by (cases "he_ip e") auto
  then have "host_of_line (hosts_line e) = [he_host e]"
    unfolding hosts_line_def using host_of_address [OF ipn _ _ hn] ic hc by simp
  moreover have "NL \<notin> set (hosts_line e)" using ic hc(2) NL_space by (fastforce simp: hosts_line_def)
  moreover have "is_space CHR '' ''" by (simp add: is_space_def code_def)
  then have "Go_Prelude.fields (hosts_line e) = [he_ip e, he_host e]"
    using fields_word(2) [OF ipn, of "CHR '' ''"] fields_word(1) [OF hn] ic hc by (simp add: hosts_line_def)
  ultimately show ?thesis using ip by blast
qed

lemma custom_paths_distinct [simp]:
  "custom_hosts_config_path \<noteq> custom_hosts_rendered_path"
  "custom_hosts_config_path \<noteq> tmp_path custom_hosts_rendered_path"
  "custom_hosts_rendered_path \<noteq> tmp_path custom_hosts_config_path"
  by (simp_all add: custom_hosts_config_path_def custom_hosts_rendered_path_def tmp_path_def)

text \<open>
  C23.  When a list of custom hosts is stored with success, the list read back is the given one with the
  names in lower case, no name twice, and the file dnsmasq reads has one line for each of them, in order, whose words
  are the address that was given and the name; each is an address Go parses.  An empty list leaves no such file.
\<close>

theorem custom_hosts_stored:
  assumes "set_custom_hosts cd os given fs = (Inr (), fs')" "codec_ok cd non_nil"
  shows "list_custom_hosts cd quiet_os fs' = Inr (Some (map folded given)) \<and>
    distinct (map he_host (map folded given)) \<and>
    (if given = [] then fs' custom_hosts_rendered_path = None
     else \<exists>f. fs' custom_hosts_rendered_path = Some f \<and>
       hosts_words (contents f) = map (\<lambda>e. [he_ip e, to_lower (he_host e)]) given \<and>
       parse_hosts_list (contents f) = map he_host (map folded given)) \<and>
    list_all (\<lambda>e. parse_ip (he_ip e) \<noteq> None) given"
proof -
  obtain es data fs1 where es: "check_entries {} given = Inr es"
    and data: "marshal cd (if es = [] then None else Some es) = Some data"
    and w1: "atomic_write os custom_hosts_config_path data 0x1A4 fs = (Inr (), fs1)"
    and w2: "(if es = [] then (if fs1 custom_hosts_rendered_path = None then (Inr (), fs1)
        else apfst (map_error (\<lambda>e. HostsStore (StoreIO e))) (remove os custom_hosts_rendered_path fs1))
      else apfst (map_error (\<lambda>e. HostsStore (StoreIO e)))
        (atomic_write os custom_hosts_rendered_path (text_of (map hosts_line es)) 0x1A4 fs1)) = (Inr (), fs')"
    using assms(1) by (simp add: set_custom_hosts_def split: sum.splits option.splits prod.splits)
  from check_entries_ok [OF es] have e: "es = map folded given" "distinct (map he_host es)"
    "\<forall>e \<in> set es. validate_host_entry e = Inr ()" by blast+
  have c1: "fs1 custom_hosts_config_path = Some \<lparr>contents = data, perm = 0x1A4\<rparr>"
    using atomic_write_ok [OF w1] by simp
  have "unmarshal cd data = Some (Some es)"
    using assms(2) data by (auto simp: codec_ok_def split: if_splits)
  have fs': "fs' custom_hosts_config_path = fs1 custom_hosts_config_path \<and>
    (if es = [] then fs' custom_hosts_rendered_path = None
     else fs' custom_hosts_rendered_path = Some \<lparr>contents = text_of (map hosts_line es), perm = 0x1A4\<rparr>)"
    using w2 by (auto simp: remove_def apfst_def map_prod_def res_simps split: if_splits prod.splits dest!: atomic_write_ok)
  have "list_custom_hosts cd quiet_os fs' = Inr (Some es)"
    using fs' c1 \<open>unmarshal cd data = Some (Some es)\<close> by (simp add: list_custom_hosts_def read_file_def)
  moreover have "parse_hosts_list (text_of (map hosts_line es)) = map he_host es"
    by (rule hosts_lines_read) (use hosts_line_reads e(3) in blast)
  moreover have "hosts_words (text_of (map hosts_line es)) = map (\<lambda>e. [he_ip e, he_host e]) es"
    using hosts_words_text [of es hosts_line] hosts_line_reads e(3) by simp
  moreover have "list_all (\<lambda>e. parse_ip (he_ip e) \<noteq> None) given"
    using hosts_line_reads e(1,3) by (fastforce simp: list_all_iff folded_def)
  ultimately show ?thesis using e(1,2) fs' by (auto simp: folded_def)
qed

section \<open>A concrete run\<close>

definition toy_hosts_codec :: hosts_codec where
  "toy_hosts_codec = pairs_codec (\<lambda>es. map (\<lambda>e. (he_host e, he_ip e)) (elems es))
     (\<lambda>ps. Some (map (\<lambda>(h, i). \<lparr>he_host = h, he_ip = i\<rparr>) ps))"

lemma codec_ok_hosts: "codec_ok toy_hosts_codec non_nil"
  unfolding toy_hosts_codec_def by (rule codec_ok_pairs) (simp add: comp_def map_idI)

theorem custom_hosts_stored_witness:
  "\<exists>fs' f. set_custom_hosts toy_hosts_codec quiet_os [\<lparr>he_host = ''Db.Local'', he_ip = ''10.0.0.5''\<rparr>] Map.empty = (Inr (), fs') \<and>
     list_custom_hosts toy_hosts_codec quiet_os fs' = Inr (Some [\<lparr>he_host = ''db.local'', he_ip = ''10.0.0.5''\<rparr>]) \<and>
     fs' custom_hosts_rendered_path = Some f \<and> parse_hosts_list (contents f) = [''db.local''] \<and>
     hosts_words (contents f) = [[''10.0.0.5'', ''db.local'']]"
proof -
  let ?g = "[\<lparr>he_host = ''Db.Local'', he_ip = ''10.0.0.5''\<rparr>]"
  have chk: "check_entries {} ?g = Inr [\<lparr>he_host = ''db.local'', he_ip = ''10.0.0.5''\<rparr>]" by code_simp
  have fold: "map folded ?g = [\<lparr>he_host = ''db.local'', he_ip = ''10.0.0.5''\<rparr>]" by code_simp
  have lower: "to_lower ''Db.Local'' = ''db.local''" by code_simp
  have nl: "NL \<notin> set ''db.local''" "NL \<notin> set ''10.0.0.5''" by code_simp+
  obtain r fs' where run: "set_custom_hosts toy_hosts_codec quiet_os ?g Map.empty = (r, fs')" by fastforce
  then have "r = Inr ()"
    using nl by (auto simp: set_custom_hosts_def chk toy_hosts_codec_def pairs_codec_def pair_lines_def atomic_write_quiet
        simp del: check_entries.simps)
  with run have ok: "set_custom_hosts toy_hosts_codec quiet_os ?g Map.empty = (Inr (), fs')" by simp
  from custom_hosts_stored [OF this codec_ok_hosts] show ?thesis
    unfolding fold using ok lower by auto
qed

end
