(* ===== verification/Dns_Api.thy ===== *)
theory Dns_Api
  imports Dns_Config Http_Reply
begin

text \<open>
  \<open>handlers_dns.go\<close>: the HTTP layer over \<open>internal/dns\<close>.  \<open>dns_params\<close> holds what the package's functions
  take from outside: the environment, the digest, the map walk, the codecs and the system calls' faults.
\<close>

record dns_params =
  dp_env :: env
  dp_sha :: "string \<Rightarrow> string"
  dp_walk :: "manifest \<Rightarrow> manifest"
  dp_os :: "string os"
  dp_hosts :: hosts_codec
  dp_resolver :: resolver_codec

datatype dns_message =
    DnsInvalidBody
  | DnsFailed dns_error
  | HostsFailed hosts_error
  | ResolverFailed resolver_error
  | DnsStoreFailed store_error
  | QueryFailed query_error

datatype dns_value =
    DnsOk
  | SourceList list_result
  | BuiltinStatus builtin_status
  | HostEntries "host_entry slice"
  | ResolverValue resolver_config
  | QueryValue query_result

type_synonym dns_reply = "(dns_message, dns_value) reply"
type_synonym 's dns_world = "string fs \<times> 's"

definition dns_error_status :: "dns_error \<Rightarrow> int" where
  "dns_error_status e =
     (case e of SourceNotFound \<Rightarrow> 404 | SourceExists \<Rightarrow> 409 | BuiltinImmutable \<Rightarrow> 400 | _ \<Rightarrow> 400)"

definition dns_refuse :: "dns_error \<Rightarrow> dns_reply" where
  "dns_refuse e = (dns_error_status e, ErrorBody (DnsFailed e))"

definition custom_hosts_for_conflict_check :: "dns_params \<Rightarrow> string fs \<Rightarrow> string list" where
  "custom_hosts_for_conflict_check c fs =
     (case list_custom_hosts (dp_hosts c) (dp_os c) fs of
        Inl _ \<Rightarrow> []
      | Inr entries \<Rightarrow> map he_host (elems entries))"

definition handle_list_blocklist_sources :: "dns_params \<Rightarrow> listing \<Rightarrow> string fs \<Rightarrow> dns_reply" where
  "handle_list_blocklist_sources c ls fs =
     (case list_sources (dp_env c) (dp_sha c) (dp_os c) ls (custom_hosts_for_conflict_check c fs) fs of
        Inl e \<Rightarrow> (500, ErrorBody (DnsFailed e))
      | Inr r \<Rightarrow> (200, Body (SourceList r)))"

definition handle_create_blocklist_source ::
    "dns_params \<Rightarrow> (string fs \<Rightarrow> 's wire) \<Rightarrow> (string \<times> string list) option \<Rightarrow> 's dns_world \<Rightarrow> dns_reply \<times> 's dns_world" where
  "handle_create_blocklist_source c w req world =
     (case req of
        None \<Rightarrow> ((400, ErrorBody DnsInvalidBody), world)
      | Some (name, hosts) \<Rightarrow>
          change_and_restart w ''dns'' dns_refuse (\<lambda>_. (201, Body DnsOk)) (create_source (dp_os c) name hosts) world)"

definition handle_update_blocklist_source ::
    "dns_params \<Rightarrow> (string fs \<Rightarrow> 's wire) \<Rightarrow> string \<Rightarrow> string list option \<Rightarrow> 's dns_world \<Rightarrow> dns_reply \<times> 's dns_world" where
  "handle_update_blocklist_source c w name req world =
     (case req of
        None \<Rightarrow> ((400, ErrorBody DnsInvalidBody), world)
      | Some hosts \<Rightarrow>
          change_and_restart w ''dns'' dns_refuse (\<lambda>_. (200, Body DnsOk)) (update_source (dp_os c) name hosts) world)"

definition handle_delete_blocklist_source ::
    "dns_params \<Rightarrow> (string fs \<Rightarrow> 's wire) \<Rightarrow> string \<Rightarrow> 's dns_world \<Rightarrow> dns_reply \<times> 's dns_world" where
  "handle_delete_blocklist_source c w name =
     change_and_restart w ''dns'' dns_refuse (\<lambda>_. (204, NoBody)) (delete_source (dp_os c) name)"

definition handle_builtin_blocklist_status :: "dns_params \<Rightarrow> string fs \<Rightarrow> dns_reply" where
  "handle_builtin_blocklist_status c fs =
     (case get_builtin_status (dp_env c) (dp_sha c) (dp_os c) fs of
        Inl e \<Rightarrow> (500, ErrorBody (DnsFailed e))
      | Inr st \<Rightarrow> (200, Body (BuiltinStatus st)))"

definition handle_builtin_blocklist_pull ::
    "dns_params \<Rightarrow> (string fs \<Rightarrow> 's wire) \<Rightarrow> 's dns_world \<Rightarrow> dns_reply \<times> 's dns_world" where
  "handle_builtin_blocklist_pull c w =
     change_and_restart w ''dns'' (\<lambda>e. (500, ErrorBody (DnsFailed e))) (\<lambda>_. (200, Body DnsOk))
       (builtin_pull (dp_env c) (dp_sha c) (dp_walk c) (dp_os c))"

definition handle_builtin_blocklist_ignore :: "dns_params \<Rightarrow> 's dns_world \<Rightarrow> dns_reply \<times> 's dns_world" where
  "handle_builtin_blocklist_ignore c = (\<lambda>(fs, s).
     case builtin_ignore (dp_env c) (dp_sha c) (dp_walk c) (dp_os c) fs of
       (Inl e, fs') \<Rightarrow> ((500, ErrorBody (DnsFailed e)), fs', s)
     | (Inr _, fs') \<Rightarrow> ((200, Body DnsOk), fs', s))"

definition handle_list_custom_hosts :: "dns_params \<Rightarrow> string fs \<Rightarrow> dns_reply" where
  "handle_list_custom_hosts c fs =
     (case list_custom_hosts (dp_hosts c) (dp_os c) fs of
        Inl e \<Rightarrow> (500, ErrorBody (DnsStoreFailed e))
      | Inr entries \<Rightarrow> (200, Body (HostEntries entries)))"

definition handle_set_custom_hosts ::
    "dns_params \<Rightarrow> (string fs \<Rightarrow> 's wire) \<Rightarrow> host_entry slice option \<Rightarrow> 's dns_world \<Rightarrow> dns_reply \<times> 's dns_world" where
  "handle_set_custom_hosts c w req world =
     (case req of
        None \<Rightarrow> ((400, ErrorBody DnsInvalidBody), world)
      | Some entries \<Rightarrow>
          change_and_restart w ''dns'' (\<lambda>e. (400, ErrorBody (HostsFailed e))) (\<lambda>_. (200, Body (HostEntries entries)))
            (set_custom_hosts (dp_hosts c) (dp_os c) (elems entries)) world)"

definition handle_dns_query ::
    "bool \<Rightarrow> (string list \<Rightarrow> string \<times> bool \<times> int) \<Rightarrow> string \<Rightarrow> string \<Rightarrow> dns_reply" where
  "handle_dns_query has_dig dig domain rtype =
     (case dns_query has_dig dig domain rtype of
        Inl e \<Rightarrow> (if e = EmptyDomain \<or> e = InvalidDomain \<or> e = InvalidQueryType then 400 else 500, ErrorBody (QueryFailed e))
      | Inr r \<Rightarrow> (200, Body (QueryValue r)))"

definition handle_get_resolver_config :: "dns_params \<Rightarrow> string fs \<Rightarrow> dns_reply" where
  "handle_get_resolver_config c fs =
     (case get_resolver_config (dp_resolver c) (dp_os c) fs of
        Inl e \<Rightarrow> (500, ErrorBody (DnsStoreFailed e))
      | Inr cfg \<Rightarrow> (200, Body (ResolverValue cfg)))"

definition handle_set_resolver_config ::
    "dns_params \<Rightarrow> (string fs \<Rightarrow> 's wire) \<Rightarrow> resolver_config option \<Rightarrow> 's dns_world \<Rightarrow> dns_reply \<times> 's dns_world" where
  "handle_set_resolver_config c w req world =
     (case req of
        None \<Rightarrow> ((400, ErrorBody DnsInvalidBody), world)
      | Some cfg \<Rightarrow>
          change_and_restart w ''dns'' (\<lambda>e. (400, ErrorBody (ResolverFailed e))) (\<lambda>_. (200, Body (ResolverValue cfg)))
            (set_resolver_config (dp_resolver c) (dp_os c) cfg) world)"

section \<open>Success means applied\<close>

datatype dns_request =
    PostSource "(string \<times> string list) option"
  | PutSource string "string list option"
  | RemoveSource string
  | PullBuiltin
  | PutCustomHosts "host_entry slice option"
  | PutResolver "resolver_config option"

fun dns_api ::
    "dns_params \<Rightarrow> (string fs \<Rightarrow> 's wire) \<Rightarrow> dns_request \<Rightarrow> 's dns_world \<Rightarrow> dns_reply \<times> 's dns_world" where
  "dns_api c w (PostSource b) world = handle_create_blocklist_source c w b world"
| "dns_api c w (PutSource n b) world = handle_update_blocklist_source c w n b world"
| "dns_api c w (RemoveSource n) world = handle_delete_blocklist_source c w n world"
| "dns_api c w PullBuiltin world = handle_builtin_blocklist_pull c w world"
| "dns_api c w (PutCustomHosts b) world = handle_set_custom_hosts c w b world"
| "dns_api c w (PutResolver b) world = handle_set_resolver_config c w b world"

lemma dns_refuse_refusal [simp]: "refusal (dns_refuse e)"
  by (simp add: dns_refuse_def dns_error_status_def split: dns_error.splits)

text \<open>An answer is a refusal, says the change was saved but not applied, or comes after a start of dnsmasq.\<close>

lemma dns_api_outcomes:
  assumes "dns_api c w req (fs, s) = (r, fs', s')"
  shows "refusal r \<and> s' = s \<or> (\<exists>e. r = write_supervisor_err e) \<or> success r \<and> restarted w ''dns'' fs' s'"
  using assms
  by (cases req)
    (auto simp: handle_create_blocklist_source_def handle_update_blocklist_source_def
      handle_delete_blocklist_source_def handle_builtin_blocklist_pull_def handle_set_custom_hosts_def
      handle_set_resolver_config_def split: option.splits elim!: change_and_restart_cases)

end
