(* ===== verification/Vhost_Pwa.thy ===== *)
theory Vhost_Pwa
  imports Http_Reply Go_Regexp "HOL-Library.List_Lexorder" "HOL-Library.Char_ord"
begin

text \<open>
  \<open>internal/vhostpwa\<close> and \<open>handlers_vhostpwa.go\<close>: the overrides the environment declares for the manifest of a
  published app, and the manifest with the declared keys replaced.  The order in which Go walks the map of
  the variables is the parameter \<open>walk\<close>; the request to the app, \<open>encoding/json\<close> on a top-level object and
  \<open>image.DecodeConfig\<close> are the parameters of the record \<open>upstream\<close>.
\<close>

section \<open>The declarations\<close>

definition pwa_prefix :: string where "pwa_prefix = ''ROUTER_VHOST_PWA_''"
definition icon_prefix :: string where "icon_prefix = ''ROUTER_VHOST_PWA_ICON_''"
definition vhost_prefix :: string where "vhost_prefix = ''ROUTER_VHOST_''"
definition default_manifest_path :: string where "default_manifest_path = ''/manifest.webmanifest''"
definition icon_path :: string where "icon_path = ''/_pwa-icon.png''"

record override =
  ov_key :: string
  ov_name :: string
  ov_short :: string
  ov_path :: string
  ov_icon :: string
  ov_upstream :: string

definition key_re :: rx where
  "key_re = RSeq (RCls label_edge) (RStar (RCls label_char))"

text \<open>The loop over \<open>os.Environ()\<close>: of a variable that occurs twice the last value counts.\<close>

definition environ_values :: "string list \<Rightarrow> string \<rightharpoonup> string" where
  "environ_values environ =
     foldl (\<lambda>m kv. case cut CHR ''='' kv of None \<Rightarrow> m | Some (k, v) \<Rightarrow> m(k \<mapsto> v)) Map.empty environ"

text \<open>A Go map read at a missing key: the zero value.\<close>

definition at :: "(string \<rightharpoonup> string) \<Rightarrow> string \<Rightarrow> string" where
  "at m k = (case m k of None \<Rightarrow> [] | Some v \<Rightarrow> v)"

definition upstream_of :: "string \<Rightarrow> string option" where
  "upstream_of v =
     (case cut CHR ''='' v of
        None \<Rightarrow> None
      | Some (_, up) \<Rightarrow> let up = trim_space up in if up = [] then None else Some up)"

text \<open>The body of the loop over the variables: the entry variable \<open>k\<close> with value \<open>v\<close> makes, if any.\<close>

definition override_key :: "string \<Rightarrow> string" where
  "override_key suffix = to_lower (replace_char CHR ''_'' ''-'' suffix)"

definition override_of :: "(string \<rightharpoonup> string) \<Rightarrow> string \<Rightarrow> string \<Rightarrow> (string \<times> override) option" where
  "override_of values k v =
     (if \<not> has_prefix k pwa_prefix \<or> has_prefix k icon_prefix then None
      else let suffix = trim_prefix k pwa_prefix; key = override_key suffix in
        if \<not> rx_match key_re key \<or> trim_space v = [] then None
        else let parts = split_on CHR ''|'' v in
          if length parts < 2 then None
          else let name = trim_space (parts ! 0); short = trim_space (parts ! 1);
                   path = (if length parts > 2 \<and> trim_space (parts ! 2) \<noteq> [] then trim_space (parts ! 2)
                           else default_manifest_path)
            in if name = [] \<or> short = [] \<or> \<not> has_prefix path ''/'' then None
               else case upstream_of (at values (vhost_prefix @ suffix)) of
                      None \<Rightarrow> None
                    | Some up \<Rightarrow>
                        Some (key,
                          \<lparr>ov_key = suffix, ov_name = name, ov_short = short, ov_path = path,
                           ov_icon = trim_space (at values (icon_prefix @ suffix)), ov_upstream = up\<rparr>))"

type_synonym walk = "(string \<rightharpoonup> string) \<Rightarrow> string list"

definition parse_env :: "walk \<Rightarrow> string list \<Rightarrow> string \<rightharpoonup> override" where
  "parse_env walk environ =
     (let values = environ_values environ
      in foldl
           (\<lambda>out k. case override_of values k (at values k) of None \<Rightarrow> out | Some (key, ov) \<Rightarrow> out(key \<mapsto> ov))
           Map.empty (walk values))"

text \<open>\<open>Lookup\<close>: the variables are read once, at the first lookup; the third argument is what was read then.\<close>

definition pwa_lookup ::
    "walk \<Rightarrow> string list \<Rightarrow> (string \<rightharpoonup> override) option \<Rightarrow> string \<Rightarrow> override option \<times> (string \<rightharpoonup> override) option" where
  "pwa_lookup walk environ once key =
     (let overrides = (case once of None \<Rightarrow> parse_env walk environ | Some m \<Rightarrow> m) in (overrides key, Some overrides))"

section \<open>The manifest\<close>

text \<open>JSON values; numbers are kept as their text.\<close>

datatype json =
    JNull
  | JBool bool
  | JNumber string
  | JString string
  | JArray "json list"
  | JObject "(string \<times> json) list"

text \<open>What \<open>Decode\<close> into a \<open>map[string]any\<close> does: fail, leave the map \<open>nil\<close> (on \<open>null\<close>), or fill it.\<close>

datatype decoded = Malformed | NilMap | Filled "string \<rightharpoonup> json"

datatype pwa_error =
    FetchFailed
  | UpstreamStatus int
  | BadManifest
  | IconOpen
  | IconDecode
  | IconFormat string
  | MarshalFailed

record upstream =
  http_get :: "string \<Rightarrow> (int \<times> string) option"
  decode_object :: "string \<Rightarrow> decoded"
  encode_object :: "(string \<rightharpoonup> json) \<Rightarrow> string option"
  decode_image :: "string \<Rightarrow> (string \<times> int \<times> int) option"

definition max_manifest_bytes :: nat where
  "max_manifest_bytes = 2 ^ 20"

definition icon_entry :: "upstream \<Rightarrow> string os \<Rightarrow> string fs \<Rightarrow> string \<Rightarrow> pwa_error + json" where
  "icon_entry u os fs path =
     (case read_file os fs path of
        NoSuchFile \<Rightarrow> Inl IconOpen
      | ReadFailed _ \<Rightarrow> Inl IconOpen
      | ReadOK c \<Rightarrow>
          (case decode_image u c of
             None \<Rightarrow> Inl IconDecode
           | Some (fmt, width, height) \<Rightarrow>
               if fmt \<noteq> ''png'' then Inl (IconFormat fmt)
               else Inr (JObject
                      [(''src'', JString icon_path), (''sizes'', JString (itoa width @ ''x'' @ itoa height)),
                       (''type'', JString ''image/png'')])))"

text \<open>\<open>None\<close> is the panic of a write to a \<open>nil\<close> map.\<close>

definition patch :: "upstream \<Rightarrow> string os \<Rightarrow> string fs \<Rightarrow> override \<Rightarrow> (pwa_error + string) option" where
  "patch u os fs ov =
     (case http_get u (''http://'' @ ov_upstream ov @ ov_path ov) of
        None \<Rightarrow> Some (Inl FetchFailed)
      | Some (status, body) \<Rightarrow>
          if status \<noteq> 200 then Some (Inl (UpstreamStatus status))
          else case decode_object u (take max_manifest_bytes body) of
                 Malformed \<Rightarrow> Some (Inl BadManifest)
               | NilMap \<Rightarrow> None
               | Filled m \<Rightarrow>
                   let m = m(''name'' \<mapsto> JString (ov_name ov), ''short_name'' \<mapsto> JString (ov_short ov)) in
                   Some (res_bind
                     (if ov_icon ov = [] then Inr m
                      else res_bind (icon_entry u os fs (ov_icon ov)) (\<lambda>icon. Inr (m(''icons'' \<mapsto> JArray [icon]))))
                     (\<lambda>m. case encode_object u m of None \<Rightarrow> Inl MarshalFailed | Some b \<Rightarrow> Inr b)))"

definition handle_vhost_manifest ::
    "upstream \<Rightarrow> string os \<Rightarrow> string fs \<Rightarrow> (string \<rightharpoonup> override) \<Rightarrow> string \<Rightarrow> (unit, string) reply option" where
  "handle_vhost_manifest u os fs overrides name =
     (case overrides name of
        None \<Rightarrow> Some (404, NoBody)
      | Some ov \<Rightarrow>
          (case patch u os fs ov of
             None \<Rightarrow> None
           | Some (Inl _) \<Rightarrow> Some (502, NoBody)
           | Some (Inr b) \<Rightarrow> Some (200, Body b)))"

section \<open>What a lookup finds\<close>

lemma foldl_update_result:
  "foldl (\<lambda>out k. case f k of None \<Rightarrow> out | Some (key, v) \<Rightarrow> out(key \<mapsto> v)) m ks key = Some v \<Longrightarrow>
   (\<exists>k \<in> set ks. f k = Some (key, v)) \<or> m key = Some v"
proof (induction ks arbitrary: m)
  case Nil
  then show ?case by simp
next
  case (Cons k ks)
  show ?case
  proof (cases "f k")
    case None
    with Cons show ?thesis by auto
  next
    case (Some p)
    obtain a w where p: "p = (a, w)" by (meson surj_pair)
    with Cons.prems Some have "foldl (\<lambda>out k. case f k of None \<Rightarrow> out | Some (key, v) \<Rightarrow> out(key \<mapsto> v)) (m(a \<mapsto> w)) ks key = Some v"
      by simp
    from Cons.IH [OF this] show ?thesis using Some p by (auto split: if_splits)
  qed
qed

lemma foldl_update_None:
  "foldl (\<lambda>out k. case f k of None \<Rightarrow> out | Some (key, v) \<Rightarrow> out(key \<mapsto> v)) m ks key = None \<Longrightarrow>
   m key = None \<and> (\<forall>k \<in> set ks. \<forall>v. f k \<noteq> Some (key, v))"
proof (induction ks arbitrary: m)
  case Nil
  then show ?case by simp
next
  case (Cons k ks)
  show ?case
  proof (cases "f k")
    case None
    with Cons show ?thesis by auto
  next
    case (Some p)
    obtain a w where p: "p = (a, w)" by (meson surj_pair)
    with Cons.prems Some have "foldl (\<lambda>out k. case f k of None \<Rightarrow> out | Some (key, v) \<Rightarrow> out(key \<mapsto> v)) (m(a \<mapsto> w)) ks key = None"
      by simp
    from Cons.IH [OF this] show ?thesis using Some p by (auto split: if_splits)
  qed
qed

text \<open>The condition on one variable, written out.\<close>

definition declared :: "(string \<rightharpoonup> string) \<Rightarrow> string \<Rightarrow> string \<Rightarrow> override \<Rightarrow> bool" where
  "declared values key suffix ov \<longleftrightarrow>
     (\<exists>v name short rest host up.
        values (pwa_prefix @ suffix) = Some v \<and> split_on CHR ''|'' v = name # short # rest \<and>
        values (vhost_prefix @ suffix) = Some (host @ ''='' @ up) \<and> CHR ''='' \<notin> set host \<and>
        ov = \<lparr>ov_key = suffix, ov_name = trim_space name, ov_short = trim_space short,
              ov_path = (if rest = [] \<or> trim_space (hd rest) = [] then default_manifest_path else trim_space (hd rest)),
              ov_icon = trim_space (at values (icon_prefix @ suffix)), ov_upstream = trim_space up\<rparr>) \<and>
     ov_name ov \<noteq> [] \<and> ov_short ov \<noteq> [] \<and> ov_upstream ov \<noteq> [] \<and> has_prefix (ov_path ov) ''/'' \<and>
     \<not> has_prefix suffix ''ICON_'' \<and>
     key = override_key suffix \<and> key \<noteq> [] \<and> label_edge (hd key) \<and> (\<forall>c \<in> set key. label_char c)"

lemma key_re_iff: "rx_match key_re s \<longleftrightarrow> s \<noteq> [] \<and> label_edge (hd s) \<and> (\<forall>c \<in> set s. label_char c)"
proof -
  have "s \<in> rx_lang key_re \<longleftrightarrow> (\<exists>c u. s = c # u \<and> label_edge c \<and> (\<forall>x \<in> set u. label_char x))"
    unfolding key_re_def seq_cls by (simp add: star_cls)
  then show ?thesis by (cases s) (auto simp: rx_match_iff label_char_def)
qed

lemma cut_Some_iff: "cut c s = Some (a, b) \<longleftrightarrow> s = a @ c # b \<and> c \<notin> set a"
  using cut_SomeD by auto

lemma upstream_of_iff:
  "upstream_of v = Some u \<longleftrightarrow>
     (\<exists>host up. v = host @ ''='' @ up \<and> CHR ''='' \<notin> set host \<and> u = trim_space up \<and> u \<noteq> [])"
proof -
  have "upstream_of v = Some u \<longleftrightarrow> (\<exists>host up. cut CHR ''='' v = Some (host, up) \<and> u = trim_space up \<and> u \<noteq> [])"
    by (auto simp: upstream_of_def Let_def split: option.splits if_splits)
  then show ?thesis by (simp add: cut_Some_iff)
qed

lemma at_nonempty: "v \<noteq> [] \<Longrightarrow> at m k = v \<longleftrightarrow> m k = Some v"
  by (auto simp: at_def split: option.splits)

lemma icon_of_suffix: "has_prefix (pwa_prefix @ suffix) icon_prefix \<longleftrightarrow> has_prefix suffix ''ICON_''"
  by (simp add: pwa_prefix_def icon_prefix_def)


lemma split_two: "2 \<le> length ps \<longleftrightarrow> (\<exists>a b rest. ps = a # b # rest)"
  by (cases ps; cases "tl ps") auto

lemma split_blank: "(\<forall>c \<in> set v. is_space c) \<Longrightarrow> split_on CHR ''|'' v = [v]"
  by (rule split_on_single) (auto simp: is_space_def code_def)

lemma override_of_suffix:
  "override_of values (pwa_prefix @ suffix) v =
     (let key = override_key suffix in
      if has_prefix suffix ''ICON_'' \<or> \<not> rx_match key_re key \<or> trim_space v = [] then None
      else case split_on CHR ''|'' v of
             name # short # rest \<Rightarrow>
               (let path = (if rest = [] \<or> trim_space (hd rest) = [] then default_manifest_path else trim_space (hd rest))
                in if trim_space name = [] \<or> trim_space short = [] \<or> \<not> has_prefix path ''/'' then None
                   else map_option (\<lambda>up. (key,
                          \<lparr>ov_key = suffix, ov_name = trim_space name, ov_short = trim_space short, ov_path = path,
                           ov_icon = trim_space (at values (icon_prefix @ suffix)), ov_upstream = up\<rparr>))
                          (upstream_of (at values (vhost_prefix @ suffix))))
           | _ \<Rightarrow> None)"
proof (cases "split_on CHR ''|'' v")
  case (Cons name parts)
  show ?thesis
  proof (cases parts)
    case Nil
    then show ?thesis using Cons by (simp add: override_of_def icon_of_suffix Let_def del: rx_match.simps)
  next
    case (Cons short rest)
    then show ?thesis using \<open>split_on CHR ''|'' v = name # parts\<close>
      by (cases rest)
        (auto simp: override_of_def icon_of_suffix Let_def split: option.splits simp del: rx_match.simps has_prefix.simps)
  qed
qed simp

lemma declared_override:
  assumes "declared values key suffix ov"
  shows "\<exists>v. values (pwa_prefix @ suffix) = Some v \<and> override_of values (pwa_prefix @ suffix) v = Some (key, ov)"
proof -
  obtain v name short rest host up where
    v: "values (pwa_prefix @ suffix) = Some v" "split_on CHR ''|'' v = name # short # rest" and
    up: "values (vhost_prefix @ suffix) = Some (host @ ''='' @ up)" "CHR ''='' \<notin> set host" and
    ov: "ov = \<lparr>ov_key = suffix, ov_name = trim_space name, ov_short = trim_space short,
        ov_path = (if rest = [] \<or> trim_space (hd rest) = [] then default_manifest_path else trim_space (hd rest)),
        ov_icon = trim_space (at values (icon_prefix @ suffix)), ov_upstream = trim_space up\<rparr>"
    using assms unfolding declared_def by blast
  have ok: "ov_name ov \<noteq> []" "ov_short ov \<noteq> []" "ov_upstream ov \<noteq> []" "has_prefix (ov_path ov) ''/''"
    "\<not> has_prefix suffix ''ICON_''" "key = override_key suffix" "rx_match key_re key"
    using assms unfolding declared_def key_re_iff by blast+
  have "trim_space v \<noteq> []"
    using v(2) split_blank [of v] by (auto simp: trim_space_Nil_iff)
  moreover have "upstream_of (at values (vhost_prefix @ suffix)) = Some (trim_space up)"
    using up ok(3) by (auto simp: ov upstream_of_iff at_def)
  ultimately show ?thesis
    using v ok unfolding ov by (simp add: override_of_suffix Let_def del: rx_match.simps has_prefix.simps)
qed

lemma override_declared:
  assumes "override_of values k v = Some (key, ov)" "values k = Some v"
  shows "k = pwa_prefix @ ov_key ov \<and> declared values key (ov_key ov) ov"
proof -
  have "has_prefix k pwa_prefix"
    using assms(1) by (auto simp: override_of_def split: if_splits)
  then obtain suffix where k: "k = pwa_prefix @ suffix" by (auto simp: has_prefix_iff)
  obtain name short rest where sp: "split_on CHR ''|'' v = name # short # rest"
  proof -
    have "\<not> (case split_on CHR ''|'' v of name # short # rest \<Rightarrow> False | _ \<Rightarrow> True)"
    proof
      assume "case split_on CHR ''|'' v of name # short # rest \<Rightarrow> False | _ \<Rightarrow> True"
      then have "override_of values k v = None"
        unfolding k override_of_suffix Let_def by (cases "split_on CHR ''|'' v"; cases "tl (split_on CHR ''|'' v)") simp_all
      with assms(1) show False by simp
    qed
    then show thesis by (auto intro: that split: list.splits)
  qed
  let ?path = "if rest = [] \<or> trim_space (hd rest) = [] then default_manifest_path else trim_space (hd rest)"
  have f: "\<not> has_prefix suffix ''ICON_''" "rx_match key_re (override_key suffix)" "trim_space name \<noteq> []"
      "trim_space short \<noteq> []" "has_prefix ?path ''/''"
    and "map_option (\<lambda>up. (override_key suffix,
        \<lparr>ov_key = suffix, ov_name = trim_space name, ov_short = trim_space short, ov_path = ?path,
         ov_icon = trim_space (at values (icon_prefix @ suffix)), ov_upstream = up\<rparr>))
      (upstream_of (at values (vhost_prefix @ suffix))) = Some (key, ov)"
    using assms(1) [unfolded k override_of_suffix Let_def sp list.case] by (meson option.distinct(1))+
  then obtain up where up0: "upstream_of (at values (vhost_prefix @ suffix)) = Some up" "key = override_key suffix"
    and ov: "ov = \<lparr>ov_key = suffix, ov_name = trim_space name, ov_short = trim_space short, ov_path = ?path,
        ov_icon = trim_space (at values (icon_prefix @ suffix)), ov_upstream = up\<rparr>"
    unfolding map_option_eq_Some by blast
  from up0(1) obtain host up' where up: "at values (vhost_prefix @ suffix) = host @ ''='' @ up'"
    "CHR ''='' \<notin> set host" "up = trim_space up'" "up \<noteq> []" by (auto simp: upstream_of_iff)
  then have vh: "values (vhost_prefix @ suffix) = Some (host @ ''='' @ up')"
    by (subst (asm) at_nonempty) auto
  have g: "values (pwa_prefix @ suffix) = Some v" using assms(2) k by simp
  have "\<exists>v name short rest host up.
      values (pwa_prefix @ suffix) = Some v \<and> split_on CHR ''|'' v = name # short # rest \<and>
      values (vhost_prefix @ suffix) = Some (host @ ''='' @ up) \<and> CHR ''='' \<notin> set host \<and>
      ov = \<lparr>ov_key = suffix, ov_name = trim_space name, ov_short = trim_space short,
            ov_path = (if rest = [] \<or> trim_space (hd rest) = [] then default_manifest_path else trim_space (hd rest)),
            ov_icon = trim_space (at values (icon_prefix @ suffix)), ov_upstream = trim_space up\<rparr>"
    using g sp vh up(2) ov [unfolded up(3)] by blast
  moreover have "ov_name ov \<noteq> []" "ov_short ov \<noteq> []" "ov_upstream ov \<noteq> []" "has_prefix (ov_path ov) ''/''"
    using f(3-5) up(4) by (simp_all only: ov override.simps not_False_eq_True)
  ultimately have "declared values key suffix ov"
    using f(1,2) unfolding declared_def key_re_iff up0(2) by (elim conjE, intro conjI) (assumption | rule refl)+
  then show ?thesis by (simp add: k ov)
qed

lemma declared_iff:
  "declared values key suffix ov \<longleftrightarrow>
     (\<exists>v. values (pwa_prefix @ suffix) = Some v \<and> override_of values (pwa_prefix @ suffix) v = Some (key, ov))"
  using declared_override override_declared by (metis append_same_eq same_append_eq)

lemma parse_env_declared:
  assumes "\<And>m. finite (dom m) \<Longrightarrow> set (walk m) = dom m"
  shows "case parse_env walk environ key of
      None \<Rightarrow> \<not> (\<exists>suffix ov. declared (environ_values environ) key suffix ov)
    | Some ov \<Rightarrow> declared (environ_values environ) key (ov_key ov) ov"
proof -
  let ?m = "environ_values environ"
  have "finite (dom (foldl (\<lambda>m kv. case cut CHR ''='' kv of None \<Rightarrow> m | Some (k, v) \<Rightarrow> m(k \<mapsto> v)) m environ))"
    if "finite (dom m)" for m :: "string \<rightharpoonup> string"
    using that by (induction environ arbitrary: m) (auto split: option.splits)
  then have w: "set (walk ?m) = dom ?m" unfolding environ_values_def by (intro assms) simp
  show ?thesis
  proof (cases "parse_env walk environ key")
    case None
    have no: "override_of ?m k v \<noteq> Some (key, ov)" if "?m k = Some v" for k v ov
    proof -
      have "k \<in> set (walk ?m)" using that w by blast
      then have "override_of ?m k (at ?m k) \<noteq> Some (key, ov)"
        using foldl_update_None [OF None [unfolded parse_env_def Let_def]] by blast
      with that show ?thesis by (simp add: at_def)
    qed
    then have "\<not> declared ?m key suffix ov" for suffix ov
      using declared_override [of ?m key suffix ov] by blast
    then show ?thesis using None by simp
  next
    case (Some ov)
    then obtain k where "k \<in> dom ?m" "override_of ?m k (at ?m k) = Some (key, ov)"
      using foldl_update_result [OF Some [unfolded parse_env_def Let_def]] by (auto simp: w)
    then show ?thesis using Some override_declared [of ?m k _ key ov] by (auto simp: at_def)
  qed
qed

text \<open>
  C37.  A lookup finds what the environment declared when the first lookup was made and nothing else: whatever the order
  in which Go walks the variables, the override found under a key is the one its variable and the variable
  publishing the same vhost spell out, and a key is found exactly when some variable declares it.
\<close>

theorem pwa_lookup_declared:
  assumes "\<And>m. finite (dom m) \<Longrightarrow> set (walk m) = dom m"
    and "first = None \<or> first = snd (pwa_lookup walk environ None k)"
  shows "case fst (pwa_lookup walk (if first = None then environ else later) first key) of
      None \<Rightarrow> \<not> (\<exists>suffix ov. declared (environ_values environ) key suffix ov)
    | Some ov \<Rightarrow> declared (environ_values environ) key (ov_key ov) ov"
  using parse_env_declared [OF assms(1), of environ key] assms(2) by (auto simp: pwa_lookup_def Let_def)

definition two_notes :: "string list" where
  "two_notes =
     [''ROUTER_VHOST_NOTES=n.example=trilium:8080'', ''ROUTER_VHOST_PWA_NOTES=Work Notes | Work'',
      ''ROUTER_VHOST_PWA_OTHER=Lost|Lost'', ''HOME=/root'']"

definition in_order :: walk where
  "in_order m = sorted_list_of_set (dom m)"

lemma two_notes_values:
  "environ_values two_notes =
     [pwa_prefix @ ''OTHER'' \<mapsto> ''Lost|Lost'', pwa_prefix @ ''NOTES'' \<mapsto> ''Work Notes | Work'',
      vhost_prefix @ ''NOTES'' \<mapsto> ''n.example=trilium:8080'', ''HOME'' \<mapsto> ''/root'']"
  by (rule ext) (simp add: environ_values_def two_notes_def pwa_prefix_def vhost_prefix_def)

lemma two_notes_declared:
  "declared (environ_values two_notes) key suffix ov \<longleftrightarrow>
     key = ''notes'' \<and> suffix = ''NOTES'' \<and>
     ov = \<lparr>ov_key = ''NOTES'', ov_name = ''Work Notes'', ov_short = ''Work'', ov_path = default_manifest_path,
           ov_icon = [], ov_upstream = ''trilium:8080''\<rparr>"
proof -
  let ?m = "environ_values two_notes"
  have e: "override_of ?m (pwa_prefix @ ''NOTES'') ''Work Notes | Work'' =
      Some (''notes'', \<lparr>ov_key = ''NOTES'', ov_name = ''Work Notes'', ov_short = ''Work'', ov_path = default_manifest_path,
        ov_icon = [], ov_upstream = ''trilium:8080''\<rparr>)"
    "override_of ?m (pwa_prefix @ ''OTHER'') ''Lost|Lost'' = None" by code_simp+
  have "?m (pwa_prefix @ suffix) =
      (if suffix = ''OTHER'' then Some ''Lost|Lost'' else if suffix = ''NOTES'' then Some ''Work Notes | Work'' else None)"
    by (simp add: two_notes_values) (simp add: pwa_prefix_def vhost_prefix_def)
  then show ?thesis unfolding declared_iff by (auto simp: e)
qed

theorem pwa_lookup_declared_witness:
  "fst (pwa_lookup in_order two_notes None ''notes'') =
     Some \<lparr>ov_key = ''NOTES'', ov_name = ''Work Notes'', ov_short = ''Work'', ov_path = default_manifest_path,
           ov_icon = [], ov_upstream = ''trilium:8080''\<rparr> \<and>
   fst (pwa_lookup in_order [''ROUTER_VHOST_OTHER=o=late:1''] (snd (pwa_lookup in_order two_notes None ''notes'')) ''other'') = None"
proof -
  have w: "set (in_order m) = dom m" if "finite (dom m)" for m
    using that by (simp add: in_order_def)
  have later: "snd (pwa_lookup in_order two_notes None ''notes'') \<noteq> None"
    by (simp add: pwa_lookup_def Let_def)
  show ?thesis
    using pwa_lookup_declared [where walk = in_order and first = None and environ = two_notes and key = "''notes''", OF w]
      pwa_lookup_declared [where walk = in_order and first = "snd (pwa_lookup in_order two_notes None ''notes'')"
        and environ = two_notes and k = "''notes''" and later = "[''ROUTER_VHOST_OTHER=o=late:1'']" and key = "''other''", OF w] later
    by (auto simp: two_notes_declared split: option.splits)
qed

section \<open>What is served\<close>

text \<open>A manifest that is served is the app's own with the declared keys, and no other, replaced.\<close>

lemma manifest_merged:
  assumes "handle_vhost_manifest u os fs overrides name = Some (200, Body b)"
  shows "\<exists>ov body m m'. overrides name = Some ov \<and>
    http_get u (''http://'' @ ov_upstream ov @ ov_path ov) = Some (200, body) \<and>
    decode_object u (take (2 ^ 20) body) = Filled m \<and> encode_object u m' = Some b \<and>
    m' ''name'' = Some (JString (ov_name ov)) \<and> m' ''short_name'' = Some (JString (ov_short ov)) \<and>
    (ov_icon ov \<noteq> [] \<longrightarrow> (\<exists>icon. icon_entry u os fs (ov_icon ov) = Inr icon \<and> m' ''icons'' = Some (JArray [icon]))) \<and>
    (\<forall>k. k \<noteq> ''name'' \<longrightarrow> k \<noteq> ''short_name'' \<longrightarrow> (k = ''icons'' \<longrightarrow> ov_icon ov = []) \<longrightarrow> m' k = m k)"
proof -
  obtain ov where ov: "overrides name = Some ov" "patch u os fs ov = Some (Inr b)"
    using assms by (auto simp: handle_vhost_manifest_def split: option.splits sum.splits)
  then obtain body m where got: "http_get u (''http://'' @ ov_upstream ov @ ov_path ov) = Some (200, body)"
    "decode_object u (take (2 ^ 20) body) = Filled m"
    by (auto simp: patch_def max_manifest_bytes_def split: option.splits if_splits decoded.splits)
  let ?m = "m(''name'' \<mapsto> JString (ov_name ov), ''short_name'' \<mapsto> JString (ov_short ov))"
  show ?thesis
  proof (cases "ov_icon ov = []")
    case True
    then have "encode_object u ?m = Some b"
      using ov(2) got by (auto simp: patch_def max_manifest_bytes_def split: option.splits)
    with True ov(1) got show ?thesis
      by (intro exI [of _ ov] exI [of _ body] exI [of _ m] exI [of _ ?m]) simp
  next
    case False
    then obtain icon where "icon_entry u os fs (ov_icon ov) = Inr icon"
      "encode_object u (?m(''icons'' \<mapsto> JArray [icon])) = Some b"
      using ov(2) got by (auto simp: patch_def max_manifest_bytes_def res_simps split: option.splits)
    with False ov(1) got show ?thesis
      by (intro exI [of _ ov] exI [of _ body] exI [of _ m] exI [of _ "?m(''icons'' \<mapsto> JArray [icon])"]) simp
  qed
qed

text \<open>An app that answers \<open>null\<close> makes the handler panic instead of answering 502.\<close>

lemma null_manifest_panics:
  assumes "overrides name = Some ov" "http_get u (''http://'' @ ov_upstream ov @ ov_path ov) = Some (200, ''null'')"
    and "decode_object u ''null'' = NilMap"
  shows "handle_vhost_manifest u os fs overrides name = None"
  using assms by (simp add: handle_vhost_manifest_def patch_def max_manifest_bytes_def)

end
