(* ===== verification/Env_Version.thy ===== *)
theory Env_Version
  imports Http_Reply
begin

text \<open>
  \<open>internal/envversionprefs\<close> and \<open>handlers_envversion.go\<close>: the banner of an outdated \<open>.env.router\<close> and its
  dismissal, which is remembered for one version of the template.  The package takes no lock: an operation
  here is one request run alone.
\<close>

record dismissal =
  dismissed_version :: string

type_synonym 'b dismissal_codec = "(dismissal, 'b) codec"

definition no_dismissal :: dismissal where
  "no_dismissal = \<lparr>dismissed_version = []\<rparr>"

definition dismissal_load :: "'b dismissal_codec \<Rightarrow> 'b os \<Rightarrow> string \<Rightarrow> 'b fs \<Rightarrow> store_error + dismissal" where
  "dismissal_load cd os path fs = load_doc cd no_dismissal path os fs"

definition dismissal_save ::
    "'b dismissal_codec \<Rightarrow> 'b os \<Rightarrow> string \<Rightarrow> dismissal \<Rightarrow> 'b fs \<Rightarrow> (store_error + unit) \<times> 'b fs" where
  "dismissal_save cd os path d fs = save_doc cd 0x1A4 path os d fs"

interpretation dismissals: config_store
  "dismissal_load cd os path" "dismissal_save cd os path" "stored_doc cd no_dismissal path" "reread_doc cd"
  for cd os path
  by unfold_locales
    (auto simp: dismissal_load_def dismissal_save_def intro: load_doc_stored save_doc_ok save_doc_failed)

text \<open>\<open>envTemplateVersion\<close>, \<open>envVersion\<close> and \<open>envVersionDismissPath\<close>, fixed by \<open>main\<close>.\<close>

record version_params =
  template_version :: string
  file_version :: string
  dismiss_path :: string

record banner =
  bn_current :: string
  bn_file :: string
  bn_mismatch :: bool
  bn_dismissed :: bool

datatype version_message = NoTemplate | VersionStore store_error

datatype version_value = Banner banner | Dismissed

definition version_mismatch :: "version_params \<Rightarrow> bool" where
  "version_mismatch v \<longleftrightarrow> template_version v \<noteq> [] \<and> template_version v \<noteq> file_version v"

definition handle_env_version ::
    "'b dismissal_codec \<Rightarrow> 'b os \<Rightarrow> version_params \<Rightarrow> 'b fs \<Rightarrow> (version_message, version_value) reply" where
  "handle_env_version cd os v fs =
     (case dismissal_load cd os (dismiss_path v) fs of
        Inl e \<Rightarrow> (500, ErrorBody (VersionStore e))
      | Inr d \<Rightarrow>
          (200, Body (Banner
             \<lparr>bn_current = template_version v, bn_file = file_version v, bn_mismatch = version_mismatch v,
              bn_dismissed = (version_mismatch v \<and> dismissed_version d = template_version v)\<rparr>)))"

definition handle_dismiss_env_version ::
    "'b dismissal_codec \<Rightarrow> 'b os \<Rightarrow> version_params \<Rightarrow> 'b fs \<Rightarrow> (version_message, version_value) reply \<times> 'b fs" where
  "handle_dismiss_env_version cd os v fs =
     (if template_version v = [] then ((400, ErrorBody NoTemplate), fs)
      else case dismissal_save cd os (dismiss_path v) \<lparr>dismissed_version = template_version v\<rparr> fs of
             (Inl e, fs') \<Rightarrow> ((500, ErrorBody (VersionStore e)), fs')
           | (Inr _, fs') \<Rightarrow> ((200, Body Dismissed), fs'))"

lemma load_doc_of_stored:
  "stored_doc cd zero p fs = Some c \<Longrightarrow> \<not> fails os (ReadFile p) \<Longrightarrow> load_doc cd zero p os fs = Inr c"
  by (auto simp: stored_doc_def load_doc_def read_file_def split: option.splits)

text \<open>
  A dismissal holds for the version of the template it was made for, whatever the user's file says later, and
  for no other: an image with another template shows the banner again, exactly when the versions differ.
\<close>

theorem dismissal_rearmed:
  assumes "handle_dismiss_env_version cd os v fs = ((200, b), fs')"
    and "codec_ok cd (\<lambda>d. d)" "\<not> fails os' (ReadFile (dismiss_path v))" "dismiss_path v' = dismiss_path v"
  shows "handle_env_version cd os' v' fs' =
    (200, Body (Banner
       \<lparr>bn_current = template_version v', bn_file = file_version v', bn_mismatch = version_mismatch v',
        bn_dismissed = (version_mismatch v' \<and> template_version v' = template_version v)\<rparr>))"
proof -
  let ?d = "\<lparr>dismissed_version = template_version v\<rparr>"
  obtain u where sv: "dismissal_save cd os (dismiss_path v) ?d fs = (Inr u, fs')"
    using assms(1) by (auto simp: handle_dismiss_env_version_def split: if_splits prod.splits sum.splits)
  then obtain c where "marshal cd ?d = Some c"
    by (auto simp: dismissal_save_def save_doc_def split: option.splits)
  then have "reread_doc cd ?d = Some ?d" using assms(2) by (simp add: reread_doc_def codec_ok_def)
  then have "stored_doc cd no_dismissal (dismiss_path v) fs' = Some ?d"
    using dismissals.save_ok [OF sv] by simp
  then have "dismissal_load cd os' (dismiss_path v') fs' = Inr ?d"
    using assms(3,4) by (simp add: dismissal_load_def load_doc_of_stored)
  then show ?thesis by (auto simp: handle_env_version_def)
qed

definition image_of :: "string \<Rightarrow> version_params" where
  "image_of t = \<lparr>template_version = t, file_version = ''3'', dismiss_path = ''/d.json''\<rparr>"

theorem dismissal_rearmed_witness:
  "\<exists>fs'. handle_dismiss_env_version (plain_codec (\<lambda>d. d)) quiet_os (image_of ''4'') Map.empty = ((200, Body Dismissed), fs') \<and>
    handle_env_version (plain_codec (\<lambda>d. d)) quiet_os (image_of ''4'') fs' =
      (200, Body (Banner \<lparr>bn_current = ''4'', bn_file = ''3'', bn_mismatch = True, bn_dismissed = True\<rparr>)) \<and>
    handle_env_version (plain_codec (\<lambda>d. d)) quiet_os (image_of ''5'') fs' =
      (200, Body (Banner \<lparr>bn_current = ''5'', bn_file = ''3'', bn_mismatch = True, bn_dismissed = False\<rparr>))"
proof -
  obtain fs' where run: "handle_dismiss_env_version (plain_codec (\<lambda>d. d)) quiet_os (image_of ''4'') Map.empty =
      ((200, Body Dismissed), fs')"
    by (simp add: handle_dismiss_env_version_def dismissal_save_def save_doc_def plain_codec_def atomic_write_quiet image_of_def)
  show ?thesis
    using run dismissal_rearmed [OF run codec_ok_plain, of quiet_os "image_of ''4''"]
      dismissal_rearmed [OF run codec_ok_plain, of quiet_os "image_of ''5''"]
    by (simp add: image_of_def version_mismatch_def quiet_os_def)
qed

end
