(* ===== verification/Process.thy ===== *)
theory Process
  imports Auth_Gate Dev_Proxy App_Routes Env_Version
begin

text \<open>
  What is left of the process: the settings \<open>main\<close> reads, the socket it listens on, the announcement of the
  setup token, the repair of the Caddy fragments at the start, the two file handlers of \<open>static.go\<close>, and the
  commands \<open>--hash-password\<close> and \<open>--env-migrate\<close>.
\<close>

section \<open>Settings\<close>

definition env_or :: "env \<Rightarrow> string \<Rightarrow> string \<Rightarrow> string" where
  "env_or env var dflt = (if env var = [] then dflt else env var)"

definition auth_hash_var :: string where "auth_hash_var = ''ROUTER_MANAGER_AUTH_PASSWORD_HASH''"

text \<open>A hash that \<open>/etc/environment\<close> defines too is not honoured.\<close>

definition auth_password_hash :: "env \<Rightarrow> string option \<Rightarrow> string" where
  "auth_password_hash env etc_environment =
     (if env auth_hash_var \<noteq> [] \<and> etc_environment_defines etc_environment auth_hash_var then [] else env auth_hash_var)"

definition auth_store_path :: "env \<Rightarrow> string" where
  "auth_store_path env = env_or env ''ROUTER_MANAGER_AUTH_STORE_PATH'' ''/var/lib/code-docker-router/auth-hash.json''"

definition start_gate :: "env \<Rightarrow> string option \<Rightarrow> string \<Rightarrow> gate" where
  "start_gate env etc_environment random =
     new_gate (auth_password_hash env etc_environment) (auth_store_path env) random"

text \<open>The version banner's settings; \<open>parse\<close> is \<open>envmigrate.ParseVersion\<close>, \<open>template\<close> the file read, if it could be.\<close>

definition env_version_settings :: "(string \<Rightarrow> string \<Rightarrow> string) \<Rightarrow> env \<Rightarrow> string option \<Rightarrow> version_params" where
  "env_version_settings parse env template =
     \<lparr>template_version = (case template of None \<Rightarrow> [] | Some text \<Rightarrow> parse text ''ROUTER_ENV_VERSION''),
      file_version = env ''ROUTER_ENV_VERSION'',
      dismiss_path = env_or env ''ROUTER_ENV_VERSION_DISMISS_PATH'' ''/var/lib/code-docker-router/env-version-dismiss.json''\<rparr>"

definition static_dir :: "env \<Rightarrow> string" where
  "static_dir env = env_or env ''ROUTER_MANAGER_STATIC_DIR'' ''./static''"

definition novnc_dir :: "env \<Rightarrow> string" where
  "novnc_dir env = env_or env ''ROUTER_NOVNC_DIR'' ''/opt/novnc''"

datatype command = HashPassword | EnvMigrate | ServeRequests

definition command_of :: "string list \<Rightarrow> command" where
  "command_of args =
     (if length args > 1 \<and> args ! 1 = ''--hash-password'' then HashPassword
      else if length args > 1 \<and> args ! 1 = ''--env-migrate'' then EnvMigrate
      else ServeRequests)"

text \<open>\<open>announceSetupToken\<close>: what it appends to the container's log, when that can be opened.\<close>

definition setup_banner :: "string \<Rightarrow> string" where
  "setup_banner token =
     (let rule = replicate 66 CHR ''='' in
      text_of
        [rule,
         ''router-manager: no admin password is set yet.'',
         ''router-manager: setup-token: '' @ token,
         ''router-manager: open /router/ and enter this token with a new password.'',
         ''router-manager: single use; a new one is generated on every restart.'',
         rule])"

definition log_setup_token :: "string \<Rightarrow> string option \<Rightarrow> string option" where
  "log_setup_token token container_log = map_option (\<lambda>l. l @ setup_banner token) container_log"

section \<open>Listening\<close>

text \<open>
  \<open>listen\<close>: TCP on an address, or a unix socket at a path, which is unlinked first and made accessible to its
  group; \<open>listenerIsUnix\<close> tells which.  Binding a unix socket makes its file (with no contents) and fails when
  something is at the path; \<open>refuses\<close> is any other failure to bind, and closing the socket unlinks it.
\<close>

datatype listener = TcpOn string | UnixAt string

datatype listen_error = BindFailed listener | SocketMode io_error

definition listen_choice :: "env \<Rightarrow> listener" where
  "listen_choice env =
     (if env ''ROUTER_MANAGER_ADDR'' \<noteq> [] then TcpOn (env ''ROUTER_MANAGER_ADDR'')
      else UnixAt (env_or env ''ROUTER_MANAGER_SOCK'' ''/run/router-manager.sock''))"

definition listener_is_unix :: "env \<Rightarrow> bool" where
  "listener_is_unix env = (case listen_choice env of TcpOn _ \<Rightarrow> False | UnixAt _ \<Rightarrow> True)"

definition listen :: "(listener \<Rightarrow> bool) \<Rightarrow> string os \<Rightarrow> env \<Rightarrow> string fs \<Rightarrow> (listen_error + listener) \<times> string fs" where
  "listen refuses os env fs =
     (let l = listen_choice env in
      case l of
        TcpOn _ \<Rightarrow> (if refuses l then (Inl (BindFailed l), fs) else (Inr l, fs))
      | UnixAt path \<Rightarrow>
          let fs1 = snd (remove os path fs) in
          if refuses l \<or> fs1 path \<noteq> None then (Inl (BindFailed l), fs1)
          else case chmod os path 0x1B0 (fs1(path \<mapsto> \<lparr>contents = [], perm = create_perm os 0x1FF\<rparr>)) of
                 (Inl e, fs2) \<Rightarrow> (Inl (SocketMode e), fs2(path := None))
               | (Inr _, fs2) \<Rightarrow> (Inr l, fs2))"

text \<open>
  A socket left by an earlier run does not keep the next one from listening, and the socket listened on is
  never open to others; without one to listen on, only the socket's own path changed.
\<close>

lemma listen_outcomes:
  assumes "listen refuses os env fs = (r, fs')"
  shows "case r of
      Inr (UnixAt path) \<Rightarrow> \<exists>f. fs' path = Some f \<and> perm f = 0x1B0 \<and> (\<forall>p. p \<noteq> path \<longrightarrow> fs' p = fs p)
    | Inr (TcpOn _) \<Rightarrow> fs' = fs
    | Inl _ \<Rightarrow> (\<forall>p. listen_choice env \<noteq> UnixAt p \<longrightarrow> fs' p = fs p)"
  using assms by (auto simp: listen_def Let_def remove_def chmod_def split: listener.splits if_splits)

lemma listen_rebinds:
  assumes "listen_choice env = UnixAt path" "\<not> refuses (UnixAt path)"
    "\<not> fails os (Remove path)" "\<not> fails os (Chmod path)"
  shows "fst (listen refuses os env fs) = Inr (UnixAt path)"
  using assms by (simp add: listen_def remove_def chmod_def)

section \<open>The repair at the start\<close>

text \<open>
  The five attempts at a reload, on a site the rest of the system may change between them (\<open>between\<close>): the
  number of attempts made and whether the last one took.
\<close>

function reload_attempts :: "caddy \<Rightarrow> (nat \<Rightarrow> site \<Rightarrow> site) \<Rightarrow> nat \<Rightarrow> site \<Rightarrow> (nat \<times> bool) \<times> site" where
  "reload_attempts cad between attempt s =
     (case reload_caddy cad s of
        (None, s') \<Rightarrow> ((attempt, True), s')
      | (Some _, s') \<Rightarrow>
          if attempt < 5 then reload_attempts cad between (attempt + 1) (between attempt s')
          else ((attempt, False), s'))"
  by pat_completeness auto
termination
  by (relation "measure (\<lambda>(c, b, n, s). 5 - n)") auto

declare reload_attempts.simps [simp del]

definition normalize_caddy_fragments ::
    "caddy \<Rightarrow> string os \<Rightarrow> listing \<Rightarrow> listing \<Rightarrow> (nat \<Rightarrow> site \<Rightarrow> site) \<Rightarrow> site \<Rightarrow> (nat \<times> bool) option \<times> site" where
  "normalize_caddy_fragments cad os expose_ls app_ls between s =
     (case normalize_exposes os expose_ls (files s) of
        ((exposes, _), fs1) \<Rightarrow>
          (case normalize_apps os app_ls fs1 of
             ((apps, _), fs2) \<Rightarrow>
               let s' = s\<lparr>files := fs2\<rparr>
               in if exposes = [] \<and> apps = [] then (None, s')
                  else map_prod Some id (reload_attempts cad between 1 s')))"

lemma reload_attempts_bound:
  "reload_attempts cad between n s = ((k, ok), s') \<Longrightarrow> n \<le> 5 \<Longrightarrow>
   n \<le> k \<and> k \<le> 5 \<and> (ok \<longrightarrow> live s' = files s') \<and> (\<not> ok \<longrightarrow> k = 5)"
proof (induction cad between n s arbitrary: k ok s' rule: reload_attempts.induct)
  case (1 cad between n s)
  show ?case
  proof (cases "load_config cad (files s)")
    case None
    then show ?thesis using "1.prems" by (auto simp: reload_attempts.simps [of cad between n s] reload_caddy_def)
  next
    case (Some msg)
    then have r: "reload_caddy cad s = (Some msg, s)" by (simp add: reload_caddy_def)
    show ?thesis
    proof (cases "n < 5")
      case True
      then have "reload_attempts cad between (n + 1) (between n s) = ((k, ok), s')"
        using "1.prems"(1) r by (simp add: reload_attempts.simps [of cad between n s])
      from "1.IH" [OF r [symmetric] refl True this] True show ?thesis by simp
    next
      case False
      then have "n = 5" using "1.prems"(2) by simp
      then show ?thesis using "1.prems"(1) r by (auto simp: reload_attempts.simps [of cad between 5 s])
    qed
  qed
qed

section \<open>Files\<close>

text \<open>
  \<open>stat\<close> is \<open>os.Stat\<close>: nothing there, or whether it is a directory.  \<open>serve_file\<close> is the part of \<open>net/http\<close> that
  \<open>FileServer\<close> (which sends a path to its canonical form first) and \<open>ServeFile\<close> share; redirects are relative to
  the request's path.
\<close>

datatype file_answer =
    FileNotFound
  | FileRefused int
  | RedirectTo string
  | SendFile string
  | ListDirectory string

type_synonym stat = "string \<Rightarrow> bool option"

definition path_base :: "string \<Rightarrow> string" where
  "path_base p = (case rev (filter (\<lambda>x. x \<noteq> []) (split_on CHR ''/'' p)) of [] \<Rightarrow> ''/'' | b # _ \<Rightarrow> b)"

definition serve_file :: "bool \<Rightarrow> stat \<Rightarrow> string \<Rightarrow> string \<Rightarrow> file_answer" where
  "serve_file canonical stat f url =
     (if has_suffix url ''/index.html'' then RedirectTo ''./''
      else case stat f of
             None \<Rightarrow> FileNotFound
           | Some False \<Rightarrow>
               if canonical \<and> has_suffix url ''/'' then
                 (if path_base url = ''/'' \<or> path_base url = ''.'' then FileRefused 500
                  else RedirectTo (''../'' @ path_base url))
               else SendFile f
           | Some True \<Rightarrow>
               if \<not> has_suffix url ''/'' then RedirectTo (path_base url @ ''/'')
               else let index = path_join f ''index.html''
                 in if stat index = Some False then SendFile index else ListDirectory f)"

definition file_server :: "string \<Rightarrow> stat \<Rightarrow> string \<Rightarrow> file_answer" where
  "file_server dir stat path =
     (let url = (if has_prefix path ''/'' then path else CHR ''/'' # path)
      in serve_file True stat (path_join dir (clean_abs url)) url)"

definition contains_dot_dot :: "string \<Rightarrow> bool" where
  "contains_dot_dot v \<longleftrightarrow> ''..'' \<in> set (concat (map (split_on CHR 0x5C) (split_on CHR ''/'' v)))"

definition http_serve_file :: "stat \<Rightarrow> string \<Rightarrow> string \<Rightarrow> file_answer" where
  "http_serve_file stat f url = (if contains_dot_dot url then FileRefused 400 else serve_file False stat f url)"

text \<open>With the answer, whether it may be cached for good.\<close>

definition static_requested :: "string \<Rightarrow> string \<Rightarrow> string" where
  "static_requested dir path = path_join dir (clean_abs (CHR ''/'' # path))"

definition static_handler :: "string \<Rightarrow> stat \<Rightarrow> string \<Rightarrow> bool \<times> file_answer" where
  "static_handler dir stat path =
     (if stat (static_requested dir path) = Some False
      then (has_prefix path ''/assets/'', file_server dir stat path)
      else let index = path_join dir ''index.html''
        in if stat index = None then (False, FileNotFound) else (False, http_serve_file stat index path))"

definition novnc_handler :: "string \<Rightarrow> stat \<Rightarrow> string \<Rightarrow> file_answer" where
  "novnc_handler dir stat path =
     (if path = [] \<or> has_suffix path ''/'' then FileNotFound else file_server dir stat path)"

definition plain_name :: "string \<Rightarrow> bool" where
  "plain_name p \<longleftrightarrow> p \<noteq> [] \<and> p \<noteq> ''.'' \<and> p \<noteq> ''..'' \<and> CHR ''/'' \<notin> set p"

lemma clean_parts_names:
  "(\<And>p. p \<in> set acc \<Longrightarrow> plain_name p) \<Longrightarrow> (\<And>p. p \<in> set ps \<Longrightarrow> CHR ''/'' \<notin> set p) \<Longrightarrow>
   x \<in> set (clean_parts acc ps) \<Longrightarrow> plain_name x"
proof (induction acc ps rule: clean_parts.induct)
  case (2 acc p ps)
  have "q \<in> set (tl acc) \<Longrightarrow> plain_name q" for q using "2.prems"(1) by (cases acc) auto
  then show ?case using 2 by (auto simp: plain_name_def split: if_splits)
qed simp

lemma split_on_parts: "ps \<noteq> [] \<Longrightarrow> (\<And>p. p \<in> set ps \<Longrightarrow> plain_name p) \<Longrightarrow> split_on CHR ''/'' (join ''/'' ps) = ps"
  by (rule split_on_join) (auto simp: plain_name_def)

lemma split_on_slash: "CHR ''/'' \<notin> set a \<Longrightarrow> split_on CHR ''/'' (a @ CHR ''/'' # b) = a # split_on CHR ''/'' b"
  by (rule split_on_append)

lemma split_on_append_parts:
  "ps \<noteq> [] \<Longrightarrow> (\<And>p. p \<in> set ps \<Longrightarrow> plain_name p) \<Longrightarrow>
   split_on CHR ''/'' (join ''/'' ps @ CHR ''/'' # b) = ps @ split_on CHR ''/'' b"
proof (induction "''/''" ps rule: join.induct)
  case (2 x)
  then show ?case by (simp add: plain_name_def split_on_slash)
next
  case (3 x y ys)
  then have "CHR ''/'' \<notin> set x" by (simp add: plain_name_def)
  moreover have "join ''/'' (x # y # ys) @ CHR ''/'' # b = x @ CHR ''/'' # (join ''/'' (y # ys) @ CHR ''/'' # b)" by simp
  ultimately show ?case using 3 by (simp add: split_on_slash del: join.simps)
qed simp

lemma clean_parts_blank: "clean_parts acc ([] # ps) = clean_parts acc ps"
  by simp

lemma static_requested_under:
  assumes "clean_dir dir"
  shows "\<exists>ps. (\<forall>p \<in> set ps. plain_name p) \<and> static_requested dir path = dir @ concat (map ((#) CHR ''/'') ps) \<and>
    ps = clean_parts [] (split_on CHR ''/'' (CHR ''/'' # path))"
proof -
  obtain ds where ds: "ds \<noteq> []" "dir = CHR ''/'' # join ''/'' ds" "\<And>p. p \<in> set ds \<Longrightarrow> plain_name p"
    using assms unfolding clean_dir_def plain_name_def by blast
  define ps where "ps = clean_parts [] (split_on CHR ''/'' (CHR ''/'' # path))"
  have plain: "p \<in> set ps \<Longrightarrow> plain_name p" for p
    unfolding ps_def by (rule clean_parts_names) (auto dest: split_on_no_sep)
  have pl: "clean_parts acc (xs :: string list) = rev acc @ xs" if "\<And>p. p \<in> set xs \<Longrightarrow> plain_name p" for acc xs
    using that by (intro clean_parts_plain) (auto simp: plain_name_def)
  have c: "clean_abs (CHR ''/'' # path) = CHR ''/'' # join ''/'' ps" by (simp add: clean_abs_def ps_def)
  have "split_on CHR ''/'' (dir @ CHR ''/'' # CHR ''/'' # join ''/'' ps) =
      [] # ds @ [] # split_on CHR ''/'' (join ''/'' ps)"
    using split_on_append_parts [OF ds(1,3), of "CHR ''/'' # join ''/'' ps"] by (simp add: ds(2))
  moreover have "clean_parts [] (ds @ [] # split_on CHR ''/'' (join ''/'' ps)) = ds @ ps"
  proof (cases "ps = []")
    case True
    have "clean_parts [] (ds @ [[], []]) = ds"
    proof -
      have "clean_parts acc (xs @ [[], []]) = clean_parts acc xs" for acc :: "string list" and xs
        by (induction acc xs rule: clean_parts.induct) auto
      then show ?thesis using pl [of ds "[]"] ds(3) by simp
    qed
    then show ?thesis using True by simp
  next
    case False
    have "clean_parts acc (xs @ [] # zs) = clean_parts acc (xs @ zs)" for acc :: "string list" and xs zs
      by (induction acc xs rule: clean_parts.induct) auto
    moreover have "clean_parts [] (ds @ ps) = ds @ ps" using pl [of "ds @ ps" "[]"] ds(3) plain by fastforce
    ultimately show ?thesis using split_on_parts [OF False plain] by simp
  qed
  ultimately have "clean_abs (dir @ CHR ''/'' # CHR ''/'' # join ''/'' ps) = CHR ''/'' # join ''/'' (ds @ ps)"
    unfolding clean_abs_def by simp
  then have "static_requested dir path = CHR ''/'' # join ''/'' (ds @ ps)"
    by (simp only: static_requested_def path_join_def c)
  also have "join ''/'' (ds @ ps) = join ''/'' ds @ concat (map ((#) CHR ''/'') ps)"
  proof (induction ps rule: rev_induct)
    case (snoc p ps)
    then show ?case using join_snoc [of "ds @ ps" "''/''" p] ds(1) by simp
  qed simp
  finally show ?thesis using plain by (intro exI [of _ ps]) (simp add: ps_def ds(2))
qed

definition under :: "string \<Rightarrow> string \<Rightarrow> bool" where
  "under dir f \<longleftrightarrow> (\<exists>ps. (\<forall>p \<in> set ps. plain_name p) \<and> f = dir @ concat (map ((#) CHR ''/'') ps))"

lemma clean_slash: "clean_abs (CHR ''/'' # CHR ''/'' # p) = clean_abs (CHR ''/'' # p)"
  by (simp add: clean_abs_def)

lemma file_server_requested:
  "file_server dir stat path =
     serve_file True stat (static_requested dir path) (if has_prefix path ''/'' then path else CHR ''/'' # path)"
proof (cases "has_prefix path ''/''")
  case True
  then obtain p where "path = CHR ''/'' # p" by (auto simp: has_prefix_iff)
  then show ?thesis by (simp add: file_server_def static_requested_def clean_slash Let_def)
qed (simp add: file_server_def static_requested_def Let_def)

lemma serve_file_confined:
  assumes "stat f = Some True \<Longrightarrow> \<not> has_suffix url ''/''"
  shows "case serve_file c stat f url of
      SendFile g \<Rightarrow> g = f \<and> stat f = Some False | ListDirectory _ \<Rightarrow> False | _ \<Rightarrow> True"
  using assms by (auto simp: serve_file_def split: option.split bool.split)

lemma static_requested_below: "clean_dir dir \<Longrightarrow> under dir (static_requested dir path)"
  using static_requested_under [of dir path] by (auto simp: under_def)

text \<open>A path below \<open>/assets/\<close> names a file below the assets, unless it has a \<open>..\<close> to lead out of them.\<close>

lemma clean_parts_keep: "''..'' \<notin> set ps \<Longrightarrow> \<exists>qs. clean_parts acc ps = rev acc @ qs"
  by (induction acc ps rule: clean_parts.induct) auto

lemma static_requested_asset:
  assumes "clean_dir dir" "has_prefix path ''/assets/''" "''..'' \<notin> set (split_on CHR ''/'' path)"
  shows "under (dir @ ''/assets'') (static_requested dir path)"
proof -
  obtain rest where r: "path = ''/assets/'' @ rest" using assms(2) by (auto simp: has_prefix_iff)
  obtain ps where ps: "\<forall>p \<in> set ps. plain_name p" "static_requested dir path = dir @ concat (map ((#) CHR ''/'') ps)"
    "ps = clean_parts [] (split_on CHR ''/'' (CHR ''/'' # path))"
    using static_requested_under [OF assms(1)] by blast
  have "split_on CHR ''/'' path = [] # ''assets'' # split_on CHR ''/'' rest"
    using split_on_slash [of "''assets''" rest] by (simp add: r)
  moreover from this obtain qs where "clean_parts [''assets''] (split_on CHR ''/'' rest) = rev [''assets''] @ qs"
    using clean_parts_keep [of "split_on CHR ''/'' rest" "[''assets'']"] assms(3) by auto
  ultimately have "ps = ''assets'' # qs" by (simp add: ps(3))
  then show ?thesis using ps(1,2) by (auto simp: under_def)
qed

lemma static_handler_immutable:
  "fst (static_handler dir stat path) \<longleftrightarrow> has_prefix path ''/assets/'' \<and> stat (static_requested dir path) = Some False"
  by (simp add: static_handler_def Let_def)

lemma static_handler_confined:
  assumes "clean_dir dir" "stat (dir @ ''/index.html'') \<noteq> Some True"
  shows "case static_handler dir stat path of
      (immutable, SendFile f) \<Rightarrow>
        (f = static_requested dir path \<and> under dir f \<or> \<not> immutable \<and> f = dir @ ''/index.html'') \<and> stat f = Some False
    | (_, ListDirectory _) \<Rightarrow> False
    | _ \<Rightarrow> True"
proof (cases "stat (static_requested dir path) = Some False")
  case True
  define url where "url = (if has_prefix path ''/'' then path else CHR ''/'' # path)"
  have fs: "file_server dir stat path = serve_file True stat (static_requested dir path) url"
    unfolding url_def by (rule file_server_requested)
  show ?thesis
    using True static_requested_below [OF assms(1), of path]
      serve_file_confined [of stat "static_requested dir path" url True]
    by (auto simp: static_handler_def fs split: file_answer.splits)
next
  case False
  have "path_join dir ''index.html'' = dir @ ''/index.html''"
    using path_join_plain [OF assms(1), of "''index.html''"] by simp
  then show ?thesis
    using False assms(2) serve_file_confined [of stat "dir @ ''/index.html''" path False]
    by (auto simp: static_handler_def Let_def http_serve_file_def split: file_answer.splits)
qed

lemma novnc_handler_confined:
  assumes "clean_dir dir"
  shows "case novnc_handler dir stat path of
      SendFile f \<Rightarrow> f = static_requested dir path \<and> under dir f \<and> stat f = Some False
    | ListDirectory _ \<Rightarrow> False
    | _ \<Rightarrow> True"
proof (cases "path = [] \<or> has_suffix path ''/''")
  case False
  define url where "url = (if has_prefix path ''/'' then path else CHR ''/'' # path)"
  have fs: "file_server dir stat path = serve_file True stat (static_requested dir path) url"
    unfolding url_def by (rule file_server_requested)
  have "\<not> has_suffix url ''/''"
    using False unfolding url_def by (cases path rule: rev_cases) (auto simp: has_suffix_def)
  then show ?thesis
    using False static_requested_below [OF assms, of path]
      serve_file_confined [of stat "static_requested dir path" url True]
    by (auto simp: novnc_handler_def fs split: file_answer.splits)
qed (simp add: novnc_handler_def)

text \<open>
  C38.  Whatever path is asked for, the two file handlers send only files below their directories, reached by plain
  names (no \<open>..\<close>): the SPA handler the file that was asked for or the index, the noVNC handler the file that was
  asked for.  Neither lists a directory.  An answer is cached for good exactly when the path begins with \<open>/assets/\<close>
  and its file exists, and a path that begins so names a file below the directory's \<open>assets\<close>, if it has no \<open>..\<close> in it
  (one that was sent as \<open>%2e%2e\<close> passes the mux; \<open>dotted_asset_cached\<close> is about it).
\<close>

theorem static_confined:
  assumes "clean_dir dir" "stat (dir @ ''/index.html'') \<noteq> Some True"
  shows "(case static_handler dir stat path of
       (immutable, SendFile f) \<Rightarrow>
         (f = static_requested dir path \<and> under dir f \<or> \<not> immutable \<and> f = dir @ ''/index.html'') \<and> stat f = Some False
     | (_, ListDirectory _) \<Rightarrow> False
     | _ \<Rightarrow> True) \<and>
    (case novnc_handler dir stat path of
       SendFile f \<Rightarrow> f = static_requested dir path \<and> under dir f \<and> stat f = Some False
     | ListDirectory _ \<Rightarrow> False
     | _ \<Rightarrow> True) \<and>
    (fst (static_handler dir stat path) \<longleftrightarrow>
       has_prefix path ''/assets/'' \<and> stat (static_requested dir path) = Some False) \<and>
    (has_prefix path ''/assets/'' \<and> ''..'' \<notin> set (split_on CHR ''/'' path) \<longrightarrow>
       under (dir @ ''/assets'') (static_requested dir path))"
  using static_requested_asset [OF assms(1), of path]
  by (intro conjI static_handler_confined novnc_handler_confined static_handler_immutable assms) simp

definition sample_disk :: stat where
  "sample_disk p =
     (if p \<in> {''/srv/static/etc/passwd'', ''/srv/static/assets/app.js'', ''/srv/static/icon.svg''} then Some False else None)"

lemma sample_static: "clean_dir ''/srv/static''"
  unfolding clean_dir_def by (rule exI [of _ "[''srv'', ''static'']"]) code_simp

theorem static_confined_witness:
  "static_handler ''/srv/static'' sample_disk ''../../etc/passwd'' = (False, SendFile ''/srv/static/etc/passwd'') \<and>
   novnc_handler ''/srv/static'' sample_disk ''../../etc/passwd'' = SendFile ''/srv/static/etc/passwd'' \<and>
   under ''/srv/static'' ''/srv/static/etc/passwd'' \<and>
   static_handler ''/srv/static'' sample_disk ''/assets/./app.js'' = (True, SendFile ''/srv/static/assets/app.js'') \<and>
   under ''/srv/static/assets'' ''/srv/static/assets/app.js''"
proof -
  have run: "static_handler ''/srv/static'' sample_disk ''../../etc/passwd'' = (False, SendFile ''/srv/static/etc/passwd'')"
    "novnc_handler ''/srv/static'' sample_disk ''../../etc/passwd'' = SendFile ''/srv/static/etc/passwd''"
    "static_handler ''/srv/static'' sample_disk ''/assets/./app.js'' = (True, SendFile ''/srv/static/assets/app.js'')"
    "static_requested ''/srv/static'' ''/assets/./app.js'' = ''/srv/static/assets/app.js''"
    by code_simp+
  have p: "has_prefix ''/assets/./app.js'' ''/assets/''" "''..'' \<notin> set (split_on CHR ''/'' ''/assets/./app.js'')"
    by code_simp+
  have i: "sample_disk (''/srv/static'' @ ''/index.html'') \<noteq> Some True" by (simp add: sample_disk_def)
  have "under ''/srv/static'' ''/srv/static/etc/passwd''"
    using static_confined [of "''/srv/static''" sample_disk "''../../etc/passwd''", OF sample_static i] unfolding run by (auto simp: sample_disk_def)
  moreover have "under ''/srv/static/assets'' ''/srv/static/assets/app.js''"
    using static_confined [of "''/srv/static''" sample_disk "''/assets/./app.js''", OF sample_static i] p run(4) by simp
  ultimately show ?thesis using run by blast
qed

text \<open>
  The mux cleans the path as it was sent, so \<open>/assets/%2e%2e/icon.svg\<close> comes through to the handler, with \<open>..\<close> in its
  decoded path: the file outside the assets is sent as one that never changes.
\<close>

theorem dotted_asset_cached:
  "static_handler ''/srv/static'' sample_disk ''/assets/../icon.svg'' = (True, SendFile ''/srv/static/icon.svg'')"
  by code_simp

section \<open>The commands\<close>

text \<open>
  \<open>--hash-password\<close>: what was typed on a terminal, or the first line of the standard input; a read that
  failed is \<open>None\<close>.  The result is the exit code and what is printed on the standard output.
\<close>

datatype password_input =
    Typed "string option" "string option"
  | Piped "string option"

definition trim_right_newlines :: "string \<Rightarrow> string" where
  "trim_right_newlines s = rev (dropWhile (\<lambda>c. c = CHR 0x0D \<or> c = NL) (rev s))"

definition read_password :: "password_input \<Rightarrow> string option" where
  "read_password inp =
     (case inp of
        Typed (Some a) (Some b) \<Rightarrow> if a \<noteq> b then None else Some a
      | Typed _ _ \<Rightarrow> None
      | Piped None \<Rightarrow> None
      | Piped (Some line) \<Rightarrow> Some (trim_right_newlines line))"

definition hash_password_cmd :: "kdf \<Rightarrow> string option \<Rightarrow> password_input \<Rightarrow> int \<times> string" where
  "hash_password_cmd idkey salt inp =
     (case read_password inp of
        None \<Rightarrow> (1, [])
      | Some password \<Rightarrow>
          if password = [] then (1, [])
          else case hash_password idkey salt password of
                 Inl _ \<Rightarrow> (1, [])
               | Inr hash \<Rightarrow> (0, hash @ [NL]))"

text \<open>
  \<open>--env-migrate\<close>, with the template and the standard input as read (\<open>None\<close> for a failed read) and the
  package that migrates as a parameter.
\<close>

definition env_migrate_cmd :: "(string \<Rightarrow> string \<Rightarrow> string) \<Rightarrow> string option \<Rightarrow> string option \<Rightarrow> int \<times> string" where
  "env_migrate_cmd migrate template stdin =
     (case template of
        None \<Rightarrow> (1, [])
      | Some t \<Rightarrow>
          (case stdin of
             None \<Rightarrow> (1, [])
           | Some old \<Rightarrow> if trim_space old = [] then (1, []) else (0, migrate old t)))"

text \<open>What the command prints, without its newline, is a hash that admits the password (\<open>hash_of\<close>).\<close>

lemma hash_password_cmd_usable:
  assumes "hash_password_cmd idkey salt inp = (0, out)" "kdf_ok idkey"
  shows "\<exists>password h. read_password inp = Some password \<and> password \<noteq> [] \<and> out = h @ [NL] \<and> hash_of idkey password h"
  using assms by (auto simp: hash_password_cmd_def intro!: hash_of_Inr split: option.splits if_splits sum.splits)

end
