(* ===== verification/Server.thy ===== *)
theory Server
  imports Netgate_Api Key_Lock Vnc_Socket Tailscale_Api Tinyauth_Users Dns_Api Vhost_Pwa Process
begin

text \<open>
  The program as a whole: one file system, the gate with its ghost history (\<open>Auth_Session\<close>), the configuration the
  running Caddy holds, supervisord, the login and the VNC sockets; and a request on it, through \<open>newHandler\<close> and into
  the handler its route names.
\<close>

section \<open>The state and what it rests on\<close>

record 's server =
  auth :: "string service"
  live_config :: "string fs"
  daemon :: 's
  ts_login :: login
  signalled :: "nat set"
  sockets_hub :: hub

record 's deps =
  d_env :: env
  d_gate :: "string gate_ext"
  d_mac :: "string \<Rightarrow> string"
  d_os :: "string os"
  d_caddy :: caddy
  d_wire :: "string fs \<Rightarrow> 's wire"
  d_netgate :: "string ng_codec"
  d_tailscale :: "string ts_codec"
  d_vnc :: vnc_codec
  d_users :: tu_codec
  d_bcrypt :: "string \<Rightarrow> string option"
  d_dns :: dns_params
  d_version :: version_params
  d_dismissals :: "string dismissal_codec"
  d_status :: "string \<Rightarrow> status_raw option"

text \<open>What a handler decodes from its request (and the values drawn while it runs); \<open>Read\<close> is one that changes nothing.\<close>

datatype target_call = CreateTarget "target option" | UpdateTarget string "target option" | DeleteTarget string

datatype api_call =
    Read string
  | AuthStatusCall
  | UnlockCall "string option"
  | SetupCall "(string \<times> string) option" "string option" string
  | ChangeCall "(string \<times> string) option" "string option"
  | DismissCall
  | NetgateCall ng_call
  | CaddyCall caddy_request
  | TargetCall target_call
  | TailscaleCall ts_http
  | LoginStartCall "bool option" "string option" "string list \<Rightarrow> bool"
  | LoginCancelCall
  | UsersCall tu_request
  | DnsCall dns_request
  | IgnoreBuiltinCall
  | OpenSocketCall string string string
  | DisconnectCall string string

definition read_handlers :: "string list" where
  "read_handlers =
     [''handleEnvVersion'', ''handleVhostManifest'', ''handleTailscaleState'', ''handleGetTailscaleConfig'',
      ''handleListTailscaleForwards'', ''handleListTailscalePublish'', ''handleTailscaleStatus'',
      ''handleListDevProxyExposes'', ''handleListAppRoutes'', ''handleListVncTargets'', ''handleListVncClients'',
      ''handleListTinyauthUsers'', ''handleListBlocklistSources'', ''handleBuiltinBlocklistStatus'',
      ''handleListCustomHosts'', ''handleGetResolverConfig'', ''handleDNSQuery'', ''handleListNetgateOutbound'',
      ''handleListNetgateForwards'', ''handleGetNetgateBandwidth'', ''novncHandler'', ''staticHandler'']"

fun ng_handler :: "ng_call \<Rightarrow> string" where
  "ng_handler (PutOutbound _) = ''handleReplaceNetgateOutbound''"
| "ng_handler (ng_call.PostForward _) = ''handleAddNetgateForward''"
| "ng_handler (PutBandwidth _) = ''handleSetNetgateBandwidth''"
| "ng_handler (ng_call.RemoveForward _) = ''handleDeleteNetgateForward''"

fun caddy_handler :: "caddy_request \<Rightarrow> string" where
  "caddy_handler (PostExpose _) = ''handleCreateDevProxyExpose''"
| "caddy_handler (PutExpose _ _) = ''handleUpdateDevProxyExpose''"
| "caddy_handler (RemoveExpose _) = ''handleDeleteDevProxyExpose''"
| "caddy_handler ReloadExposes = ''handleReloadDevProxy''"
| "caddy_handler (PostApp _) = ''handleCreateAppRoute''"
| "caddy_handler (PutApp _ _) = ''handleUpdateAppRoute''"
| "caddy_handler (RemoveApp _) = ''handleDeleteAppRoute''"
| "caddy_handler ReloadApps = ''handleReloadAppRoutes''"

fun target_handler :: "target_call \<Rightarrow> string" where
  "target_handler (CreateTarget _) = ''handleCreateVncTarget''"
| "target_handler (UpdateTarget _ _) = ''handleUpdateVncTarget''"
| "target_handler (DeleteTarget _) = ''handleDeleteVncTarget''"

fun ts_handler :: "ts_http \<Rightarrow> string" where
  "ts_handler (PutConfig _) = ''handlePutTailscaleConfig''"
| "ts_handler (ts_http.PostForward _) = ''handleAddTailscaleForward''"
| "ts_handler (PutForward _ _) = ''handleUpdateTailscaleForward''"
| "ts_handler (ts_http.RemoveForward _) = ''handleDeleteTailscaleForward''"
| "ts_handler (PostPublish _) = ''handleAddTailscalePublish''"
| "ts_handler (PutPublish _ _) = ''handleUpdateTailscalePublish''"
| "ts_handler (RemovePublish _) = ''handleDeleteTailscalePublish''"

fun users_handler :: "tu_request \<Rightarrow> string" where
  "users_handler (AddTuUser _) = ''handleAddTinyauthUser''"
| "users_handler (SetTuPassword _ _) = ''handleSetTinyauthUserPassword''"
| "users_handler (DeleteTuUser _) = ''handleDeleteTinyauthUser''"

fun dns_handler :: "dns_request \<Rightarrow> string" where
  "dns_handler (PostSource _) = ''handleCreateBlocklistSource''"
| "dns_handler (PutSource _ _) = ''handleUpdateBlocklistSource''"
| "dns_handler (RemoveSource _) = ''handleDeleteBlocklistSource''"
| "dns_handler PullBuiltin = ''handleBuiltinBlocklistPull''"
| "dns_handler (PutCustomHosts _) = ''handleSetCustomHosts''"
| "dns_handler (PutResolver _) = ''handleSetResolverConfig''"

fun handler_of :: "api_call \<Rightarrow> string" where
  "handler_of (Read h) = h"
| "handler_of AuthStatusCall = ''handleAuthStatus''"
| "handler_of (UnlockCall _) = ''handleAuthUnlock''"
| "handler_of (SetupCall _ _ _) = ''handleAuthSetup''"
| "handler_of (ChangeCall _ _) = ''handleAuthChange''"
| "handler_of DismissCall = ''handleDismissEnvVersion''"
| "handler_of (NetgateCall c) = ng_handler c"
| "handler_of (CaddyCall c) = caddy_handler c"
| "handler_of (TargetCall c) = target_handler c"
| "handler_of (TailscaleCall c) = ts_handler c"
| "handler_of (LoginStartCall _ _ _) = ''handleTailscaleLoginStart''"
| "handler_of LoginCancelCall = ''handleTailscaleLoginCancel''"
| "handler_of (UsersCall c) = users_handler c"
| "handler_of (DnsCall c) = dns_handler c"
| "handler_of IgnoreBuiltinCall = ''handleBuiltinBlocklistIgnore''"
| "handler_of (OpenSocketCall _ _ _) = ''handleVncSocket''"
| "handler_of (DisconnectCall _ _) = ''handleDeleteVncClient''"

section \<open>Running a handler\<close>

abbreviation disk_of :: "'s server \<Rightarrow> string fs" where
  "disk_of v \<equiv> disk (auth v)"

abbreviation set_disk :: "string fs \<Rightarrow> 's server \<Rightarrow> 's server" where
  "set_disk fs v \<equiv> v\<lparr>auth := (auth v)\<lparr>disk := fs\<rparr>\<rparr>"

abbreviation set_gate :: "gate \<Rightarrow> 's server \<Rightarrow> 's server" where
  "set_gate g v \<equiv> v\<lparr>auth := (auth v)\<lparr>the_gate := g\<rparr>\<rparr>"

text \<open>An operation on the Caddy fragments, and one that may restart a program, on the whole state.\<close>

definition on_site :: "(site \<Rightarrow> 'r \<times> site) \<Rightarrow> 's server \<Rightarrow> 's server" where
  "on_site op v =
     (let s = snd (op \<lparr>files = disk_of v, live = live_config v\<rparr>) in (set_disk (files s) v)\<lparr>live_config := live s\<rparr>)"

definition on_programs :: "(string fs \<times> 's \<Rightarrow> 'r \<times> string fs \<times> 's) \<Rightarrow> 's server \<Rightarrow> 's server" where
  "on_programs op v = (case op (disk_of v, daemon v) of (_, fs, s) \<Rightarrow> (set_disk fs v)\<lparr>daemon := s\<rparr>)"

fun target_api :: "'s deps \<Rightarrow> target_call \<Rightarrow> site \<Rightarrow> (vnc_message, vnc_value) reply \<times> site" where
  "target_api d (CreateTarget b) = handle_create_vnc_target (d_env d) (d_caddy d) (d_vnc d) (d_os d) b"
| "target_api d (UpdateTarget n b) = handle_update_vnc_target (d_env d) (d_caddy d) (d_vnc d) (d_os d) n b"
| "target_api d (DeleteTarget n) = handle_delete_vnc_target (d_caddy d) (d_vnc d) (d_os d) n"

text \<open>\<open>key\<close> is the request's rate limit key, \<open>busy\<close> whether the password hashing has no slot left.\<close>

fun run_handler :: "'s deps \<Rightarrow> string \<Rightarrow> bool \<Rightarrow> time \<Rightarrow> time \<Rightarrow> api_call \<Rightarrow> 's server \<Rightarrow> 's server" where
  "run_handler d key busy t1 t2 (Read _) v = v"
| "run_handler d key busy t1 t2 AuthStatusCall v =
     set_gate (snd (announce_setup_token (d_gate d) (disk_of v) (the_gate (auth v)))) v"
| "run_handler d key busy t1 t2 (UnlockCall body) v =
     (case body of
        None \<Rightarrow> v
      | Some password \<Rightarrow>
          (case try_unlock (d_gate d) (d_mac d) (disk_of v) key password busy t1 t2 (the_gate (auth v)) of
             (r, g) \<Rightarrow> v\<lparr>auth := after_unlock r g t2 (auth v)\<rparr>))"
| "run_handler d key busy t1 t2 (SetupCall body salt random) v =
     (case handle_auth_setup (d_gate d) body salt random (the_gate (auth v), disk_of v) of
        (_, _, g, fs) \<Rightarrow> set_disk fs (set_gate g v))"
| "run_handler d key busy t1 t2 (ChangeCall body salt) v =
     (case handle_auth_change (d_gate d) key body salt busy t1 t2 (the_gate (auth v), disk_of v) of
        (_, g, fs) \<Rightarrow> set_disk fs (set_gate g v))"
| "run_handler d key busy t1 t2 DismissCall v =
     set_disk (snd (handle_dismiss_env_version (d_dismissals d) (d_os d) (d_version d) (disk_of v))) v"
| "run_handler d key busy t1 t2 (NetgateCall c) v =
     set_disk (snd (ng_api (d_env d) (d_netgate d) (d_os d) c (disk_of v))) v"
| "run_handler d key busy t1 t2 (CaddyCall c) v = on_site (caddy_api (d_env d) (d_caddy d) (d_os d) c) v"
| "run_handler d key busy t1 t2 (TargetCall c) v = on_site (target_api d c) v"
| "run_handler d key busy t1 t2 (TailscaleCall c) v =
     on_programs (ts_api (d_env d) (d_tailscale d) (d_os d) (d_wire d) c) v"
| "run_handler d key busy t1 t2 (LoginStartCall force out spawns) v =
     v\<lparr>ts_login := snd (handle_tailscale_login_start (d_env d) (d_tailscale d) (d_os d) (disk_of v) (d_status d)
        out spawns force (ts_login v))\<rparr>"
| "run_handler d key busy t1 t2 LoginCancelCall v =
     v\<lparr>signalled := signalled v \<union> set_option (snd (handle_tailscale_login_cancel (ts_login v)))\<rparr>"
| "run_handler d key busy t1 t2 (UsersCall c) v =
     on_programs (tu_serve (d_env d) (d_bcrypt d) (d_users d) (d_os d) (d_wire d) c) v"
| "run_handler d key busy t1 t2 (DnsCall c) v = on_programs (dns_api (d_dns d) (d_wire d) c) v"
| "run_handler d key busy t1 t2 IgnoreBuiltinCall v = on_programs (handle_builtin_blocklist_ignore (d_dns d)) v"
| "run_handler d key busy t1 t2 (OpenSocketCall name ip agent) v =
     (case admit_viewer (d_env d) (d_vnc d) (d_os d) \<lparr>files = disk_of v, live = live_config v\<rparr> (name, ip, agent) t1 t2
        (sockets_hub v) of
        (Inl _, h) \<Rightarrow> v\<lparr>sockets_hub := h\<rparr>
      | (Inr _, h) \<Rightarrow> v\<lparr>sockets_hub := snd (take_slot h)\<rparr>)"
| "run_handler d key busy t1 t2 (DisconnectCall name id_text) v =
     v\<lparr>sockets_hub := snd (snd (handle_delete_vnc_client name id_text t1 t2 (sockets_hub v)))\<rparr>"

section \<open>The start\<close>

text \<open>
  What \<open>main\<close> does before it serves: the gate on the environment, the setup token announced when no password is
  configured (the second component is the container's log), and the seeded netgate configuration, whose failure is only
  logged.  The sockets and the login start empty.
\<close>

definition start_up ::
    "'s deps \<Rightarrow> string option \<Rightarrow> string \<Rightarrow> time \<Rightarrow> string option \<Rightarrow> string fs \<Rightarrow> string fs \<Rightarrow> 's \<Rightarrow> 's server \<times> string option" where
  "start_up d etc_environment random now container_log fs l s =
     (let g = start_gate (d_env d) etc_environment random;
          (token, g1) = announce_setup_token (d_gate d) fs g;
          fs1 = snd (ensure_seeded (d_os d) fs)
      in (\<lparr>auth = boot g1 fs1 now, live_config = l, daemon = s, ts_login = new_login_manager, signalled = {},
           sockets_hub = empty_hub\<rparr>,
          case token of None \<Rightarrow> container_log | Some t \<Rightarrow> log_setup_token t container_log))"

text \<open>
  \<open>main\<close> as a whole, on what it reads from outside: it ends with an exit code and an output (the two commands), in
  \<open>log.Fatal\<close> when there is nothing to listen on, or goes on to serve on a listener, with the repair of the Caddy
  fragments running beside it (\<open>normalize_caddy_fragments\<close>).  Its other settings are \<open>env_version_settings\<close>,
  \<open>static_dir\<close> and \<open>novnc_dir\<close>.
\<close>

record launch =
  l_args :: "string list"
  l_terminal :: password_input
  l_salt :: "string option"
  l_kdf :: kdf
  l_template :: "string option"
  l_stdin :: "string option"
  l_migrate :: "string \<Rightarrow> string \<Rightarrow> string"
  l_etc_environment :: "string option"
  l_random :: string
  l_refuses :: "listener \<Rightarrow> bool"

datatype 's main_outcome =
    Exits int string
  | Fatal listen_error "'s server" "string option"
  | Serves listener "'s server" "string option"

definition main_run ::
    "'s deps \<Rightarrow> launch \<Rightarrow> time \<Rightarrow> string option \<Rightarrow> string fs \<Rightarrow> string fs \<Rightarrow> 's \<Rightarrow> 's main_outcome" where
  "main_run d x now container_log fs l s =
     (case command_of (l_args x) of
        HashPassword \<Rightarrow> (case hash_password_cmd (l_kdf x) (l_salt x) (l_terminal x) of (c, out) \<Rightarrow> Exits c out)
      | EnvMigrate \<Rightarrow> (case env_migrate_cmd (l_migrate x) (l_template x) (l_stdin x) of (c, out) \<Rightarrow> Exits c out)
      | ServeRequests \<Rightarrow>
          (case start_up d (l_etc_environment x) (l_random x) now container_log fs l s of
             (v, log) \<Rightarrow>
               (case listen (l_refuses x) (d_os d) (d_env d) (disk_of v) of
                  (Inl e, fs') \<Rightarrow> Fatal e (set_disk fs' v) log
                | (Inr on, fs') \<Rightarrow> Serves on (set_disk fs' v) log)))"

text \<open>A server that serves was reached by \<open>start_up\<close>, and its unix socket is not open to others.\<close>

lemma main_serves:
  assumes "main_run d x now container_log fs l s = Serves on v log"
  obtains v0 where "command_of (l_args x) = ServeRequests"
    "start_up d (l_etc_environment x) (l_random x) now container_log fs l s = (v0, log)"
    "listen (l_refuses x) (d_os d) (d_env d) (disk_of v0) = (Inr on, disk_of v)" "v = set_disk (disk_of v) v0"
  using assms by (auto simp: main_run_def split: command.splits prod.splits sum.splits)

lemma main_socket_private:
  assumes "main_run d x now container_log fs l s = Serves (UnixAt path) v log"
  shows "\<exists>f. disk_of v path = Some f \<and> perm f = 0x1B0"
  using assms by (elim main_serves) (drule listen_outcomes, auto)

section \<open>A request\<close>

text \<open>Whether a handler decodes a request to a call, and every route's handler has one.\<close>

fun decodes :: "string \<Rightarrow> api_call \<Rightarrow> bool" where
  "decodes h (Read h') = (h' = h \<and> h \<in> set read_handlers)"
| "decodes h ac = (handler_of ac = h)"

definition calls_with_effect :: "api_call list" where
  "calls_with_effect =
     [AuthStatusCall, UnlockCall None, SetupCall None None [], ChangeCall None None, DismissCall, NetgateCall (PutOutbound None),
      NetgateCall (ng_call.PostForward None), NetgateCall (PutBandwidth None), NetgateCall (ng_call.RemoveForward []),
      CaddyCall (PostExpose None), CaddyCall (PutExpose [] None), CaddyCall (RemoveExpose []), CaddyCall ReloadExposes,
      CaddyCall (PostApp None), CaddyCall (PutApp [] None), CaddyCall (RemoveApp []), CaddyCall ReloadApps,
      TargetCall (CreateTarget None), TargetCall (UpdateTarget [] None), TargetCall (DeleteTarget []),
      TailscaleCall (PutConfig None), TailscaleCall (ts_http.PostForward None), TailscaleCall (PutForward [] None),
      TailscaleCall (ts_http.RemoveForward []), TailscaleCall (PostPublish None), TailscaleCall (PutPublish [] None),
      TailscaleCall (RemovePublish []), LoginStartCall None None (\<lambda>_. True), LoginCancelCall, UsersCall (AddTuUser None),
      UsersCall (SetTuPassword [] None), UsersCall (DeleteTuUser []), DnsCall (PostSource None), DnsCall (PutSource [] None),
      DnsCall (RemoveSource []), DnsCall PullBuiltin, DnsCall (PutCustomHosts None), DnsCall (PutResolver None),
      IgnoreBuiltinCall, OpenSocketCall [] [] [], DisconnectCall [] []]"

lemma every_route_decodes:
  "list_all (\<lambda>e. list_ex (decodes (handler (snd e))) (Read (handler (snd e)) # calls_with_effect)) new_mux"
  by code_simp

lemma decodes_handler: "decodes h ac \<Longrightarrow> handler_of ac = h"
  by (cases "(h, ac)" rule: decodes.cases) auto

text \<open>
  One request: \<open>newHandler\<close> at the moments \<open>t1\<close> to \<open>t4\<close>, then the handler at \<open>t5\<close> and \<open>t6\<close>.  A call that the route
  reached does not decode to stands for no request, and runs nothing.
\<close>

definition tick :: "time \<Rightarrow> 's server \<Rightarrow> 's server" where
  "tick t v = v\<lparr>auth := (auth v)\<lparr>clock := t\<rparr>\<rparr>"

definition process_request ::
    "'s deps \<Rightarrow> http_request \<Rightarrow> string \<Rightarrow> bool \<Rightarrow> time \<Rightarrow> time \<Rightarrow> time \<Rightarrow> time \<Rightarrow> time \<Rightarrow> time \<Rightarrow> api_call \<Rightarrow>
       's server \<Rightarrow> 's server" where
  "process_request d req key busy t1 t2 t3 t4 t5 t6 ac v =
     tick t6
       (case new_handler (d_gate d) (d_mac d) (the_gate (auth v)) (disk_of v) req t1 t2 t3 t4 of
          Reached r vs c \<Rightarrow>
            let v1 = (if gated r then v\<lparr>auth := after_request (refresh_payload (d_mac d) (unlock_value req) t3 t4) t4 (auth v)\<rparr>
                      else v)
            in if decodes (handler r) ac then run_handler d key busy t5 t6 ac v1 else v1
        | _ \<Rightarrow> v)"

text \<open>The server's history: its requests, and whatever else happens to the files, the programs and the sockets.\<close>

inductive server_step :: "'s deps \<Rightarrow> 's server \<Rightarrow> 's server \<Rightarrow> bool" for d where
  request:
    "clock (auth v) \<le> t1 \<Longrightarrow> t1 \<le> t2 \<Longrightarrow> t2 \<le> t3 \<Longrightarrow> t3 \<le> t4 \<Longrightarrow> t4 \<le> t5 \<Longrightarrow> t5 \<le> t6 \<Longrightarrow>
     unforged (d_mac d) (signed (auth v)) (unlock_value req) \<Longrightarrow>
     server_step d v (process_request d req key busy t1 t2 t3 t4 t5 t6 ac v)"
| around:
    "clock (auth v) \<le> t \<Longrightarrow>
     server_step d v
       \<lparr>auth = (auth v)\<lparr>disk := fs, clock := t\<rparr>, live_config = l, daemon = s, ts_login = m, signalled = k, sockets_hub = h\<rparr>"

inductive server_reach :: "'s deps \<Rightarrow> 's server \<Rightarrow> bool" for d where
  start:
    "server_reach d
       \<lparr>auth = boot g fs t, live_config = l, daemon = s, ts_login = new_login_manager, signalled = {}, sockets_hub = empty_hub\<rparr>"
| step: "server_reach d v \<Longrightarrow> server_step d v v' \<Longrightarrow> server_reach d v'"

lemma start_up_reach: "start_up d etc random now container_log fs l s = (v, out) \<Longrightarrow> server_reach d v"
  by (auto simp: start_up_def Let_def split: prod.splits intro: server_reach.start)

lemma main_serves_reach:
  assumes "main_run d x now container_log fs l s = Serves on v log"
  shows "server_reach d v"
  using assms server_reach.start [of d, unfolded boot_def]
  by (elim main_serves) (simp add: start_up_def boot_def Let_def split: prod.splits, metis)

section \<open>The gate's history in the server's\<close>

lemma serve_elsewhere:
  "serve_reach w mac s \<Longrightarrow> clock s \<le> t \<Longrightarrow> serve_reach w mac (s\<lparr>disk := fs, clock := t\<rparr>)"
  by (blast intro: serve_reach.step serve_step.elsewhere)

lemma serve_tick: "serve_reach w mac s \<Longrightarrow> clock s \<le> t \<Longrightarrow> serve_reach w mac (s\<lparr>clock := t\<rparr>)"
  using serve_elsewhere [of w mac s t "disk s"] by simp

lemma setup_reach:
  assumes r: "serve_reach w mac s" and h: "handle_auth_setup w body salt random (the_gate s, disk s) = (x, a, g, fs)"
  shows "serve_reach w mac (s\<lparr>the_gate := g, disk := fs\<rparr>)"
proof (cases "\<exists>token password. body = Some (token, password) \<and> password \<noteq> []")
  case True
  then obtain token password where b: "body = Some (token, password)" "password \<noteq> []" by blast
  obtain a1 g1 where an: "announce_setup_token w (disk s) (the_gate s) = (a1, g1)" by (meson surj_pair)
  obtain y g2 fs2 where st: "setup_password w token password salt random (g1, disk s) = (y, g2, fs2)"
    by (metis surj_pair)
  have "g = g2" "fs = fs2"
    using h b an st by (auto simp: handle_auth_setup_def Let_def split: sum.splits)
  moreover have "serve_reach w mac (s\<lparr>the_gate := g1\<rparr>)"
    using serve_reach.step [OF r serve_step.announce [OF an]] .
  then have "serve_reach w mac (s\<lparr>the_gate := g1\<rparr>\<lparr>the_gate := g2, disk := fs2\<rparr>)"
    by (rule serve_reach.step)
      (rule serve_step.initial [where token = token and pw = password and salt = salt and random = random and r' = y], simp add: st)
  ultimately show ?thesis by simp
next
  case False
  then have "g = the_gate s" "fs = disk s"
    using h by (auto simp: handle_auth_setup_def split: option.splits)
  then show ?thesis using r by simp
qed

lemma change_reach:
  assumes r: "serve_reach w mac s" and t: "clock s \<le> t1" "t1 \<le> t2"
    and h: "handle_auth_change w key body salt busy t1 t2 (the_gate s, disk s) = (x, g, fs)"
  shows "serve_reach w mac (s\<lparr>the_gate := g, disk := fs, clock := t2\<rparr>)"
proof (cases "\<exists>current new. body = Some (current, new) \<and> new \<noteq> []")
  case True
  then obtain current new where b: "body = Some (current, new)" "new \<noteq> []" by blast
  obtain y g2 fs2 where st: "change_password w key current new salt busy t1 t2 (the_gate s, disk s) = (y, g2, fs2)"
    by (metis surj_pair)
  have "g = g2" "fs = fs2"
    using h b st by (auto simp: handle_auth_change_def split: sum.splits)
  then show ?thesis
    using serve_reach.step [OF r serve_step.change [OF t st]] by simp
next
  case False
  then have "g = the_gate s" "fs = disk s"
    using h by (auto simp: handle_auth_change_def split: option.splits)
  then show ?thesis using r t serve_tick [of w mac s t2] by simp
qed

lemma run_handler_reach:
  assumes r: "serve_reach (d_gate d) (d_mac d) (auth v)" and t: "clock (auth v) \<le> t1" "t1 \<le> t2"
  shows "serve_reach (d_gate d) (d_mac d) ((auth (run_handler d key busy t1 t2 ac v))\<lparr>clock := t2\<rparr>)"
proof -
  have tt: "clock (auth v) \<le> t2" using t by simp
  note plain = serve_elsewhere [OF r tt] serve_tick [OF r tt]
  show ?thesis
  proof (cases ac)
    case AuthStatusCall
    obtain a g where an: "announce_setup_token (d_gate d) (disk_of v) (the_gate (auth v)) = (a, g)" by (meson surj_pair)
    have "serve_reach (d_gate d) (d_mac d) ((auth v)\<lparr>the_gate := g\<rparr>)"
      using serve_reach.step [OF r serve_step.announce [OF an]] .
    from serve_tick [OF this, of t2] show ?thesis using tt by (simp add: AuthStatusCall an)
  next
    case (UnlockCall body)
    show ?thesis
    proof (cases body)
      case None
      then show ?thesis using plain(2) by (simp add: UnlockCall)
    next
      case (Some password)
      obtain x g where u: "try_unlock (d_gate d) (d_mac d) (disk_of v) key password busy t1 t2 (the_gate (auth v)) = (x, g)"
        by (meson surj_pair)
      have "clock (after_unlock x g t2 (auth v)) = t2"
        by (simp add: after_unlock_def split: sum.splits option.splits)
      then show ?thesis
        using serve_tick [OF serve_reach.step [OF r serve_step.unlock [OF t u]], of t2] by (simp add: UnlockCall Some u)
    qed
  next
    case (SetupCall body salt random)
    obtain x a g fs where h: "handle_auth_setup (d_gate d) body salt random (the_gate (auth v), disk_of v) = (x, a, g, fs)"
      by (metis surj_pair)
    from serve_tick [OF setup_reach [OF r h], of t2] show ?thesis using tt by (simp add: SetupCall h)
  next
    case (ChangeCall body salt)
    obtain x g fs where h: "handle_auth_change (d_gate d) key body salt busy t1 t2 (the_gate (auth v), disk_of v) = (x, g, fs)"
      by (metis surj_pair)
    from change_reach [OF r t h] show ?thesis by (simp add: ChangeCall h)
  qed (use plain in \<open>simp_all add: on_site_def on_programs_def Let_def split: prod.splits sum.splits\<close>)
qed

lemma process_request_reach:
  assumes "serve_reach (d_gate d) (d_mac d) (auth v)" "clock (auth v) \<le> t1" "t1 \<le> t2" "t2 \<le> t3" "t3 \<le> t4" "t4 \<le> t5" "t5 \<le> t6"
    and "unforged (d_mac d) (signed (auth v)) (unlock_value req)"
  shows "serve_reach (d_gate d) (d_mac d) (auth (process_request d req key busy t1 t2 t3 t4 t5 t6 ac v))"
proof -
  have t: "clock (auth v) \<le> t5" "clock (auth v) \<le> t6" using assms(2-7) by simp_all
  show ?thesis
  proof (cases "new_handler (d_gate d) (d_mac d) (the_gate (auth v)) (disk_of v) req t1 t2 t3 t4")
    case (Reached r vs c)
    define v1 where "v1 = (if gated r
      then v\<lparr>auth := after_request (refresh_payload (d_mac d) (unlock_value req) t3 t4) t4 (auth v)\<rparr> else v)"
    have v1: "serve_reach (d_gate d) (d_mac d) (auth v1) \<and> clock (auth v1) \<le> t5"
    proof (cases "gated r")
      case True
      have "require_password (d_gate d) (d_mac d) (the_gate (auth v)) (disk_of v) (unlock_value req) t1 t2 t3 t4 = Admit c"
        using Reached True by (auto simp: new_handler_def split: if_splits mux_answer.splits gate_answer.splits)
      from serve_reach.step [OF assms(1) serve_step.admit [OF assms(2-5,8) this]]
      show ?thesis using True assms(6) by (simp add: v1_def after_request_def split: option.splits)
    next
      case False
      then show ?thesis using assms(1) t(1) by (simp add: v1_def)
    qed
    then have "serve_reach (d_gate d) (d_mac d) ((auth v1)\<lparr>clock := t6\<rparr>)"
      using assms(7) by (intro serve_tick) auto
    then show ?thesis
      using v1 run_handler_reach [of d v1 t5 t6 key busy ac] assms(7)
      by (simp add: process_request_def Reached v1_def [symmetric] tick_def)
  qed (use assms(1) t(2) in \<open>simp_all add: process_request_def tick_def serve_tick\<close>)
qed

lemma server_auth_reach: "server_reach d v \<Longrightarrow> serve_reach (d_gate d) (d_mac d) (auth v)"
proof (induction rule: server_reach.induct)
  case (start g fs t l s)
  show ?case by (simp add: serve_reach.boot)
next
  case (step v v')
  from step(2,1,3) show ?case
  proof (induction rule: server_step.induct)
    case (request v t1 t2 t3 t4 t5 t6 req key busy ac)
    then show ?case by (intro process_request_reach)
  next
    case (around v t fs l s m k h)
    then show ?case by (simp add: serve_elsewhere)
  qed
qed

section \<open>What a request without a password can change\<close>

definition own_files :: "'s deps \<Rightarrow> 's server \<Rightarrow> string set" where
  "own_files d v =
     {store_path (the_gate (auth v)), tmp_path (store_path (the_gate (auth v))),
      dismiss_path (d_version d), tmp_path (dismiss_path (d_version d))}"

definition inert :: "string set \<Rightarrow> 's server \<Rightarrow> 's server \<Rightarrow> bool" where
  "inert ps v v' \<longleftrightarrow>
     live_config v' = live_config v \<and> daemon v' = daemon v \<and> ts_login v' = ts_login v \<and> signalled v' = signalled v \<and>
     sockets_hub v' = sockets_hub v \<and> (\<forall>p. p \<in> ps \<or> disk_of v' p = disk_of v p)"

lemma write_stored_hash_frame:
  assumes "write_stored_hash cd os path hash fs = (r, fs')" "q \<noteq> path" "q \<noteq> tmp_path path"
  shows "fs' q = fs q"
proof (cases r)
  case (Inl e)
  then show ?thesis using assms write_stored_hash_err by metis
next
  case (Inr u)
  then show ?thesis using assms write_stored_hash_ok [of cd os path hash fs u fs'] by auto
qed

lemma setup_password_frame:
  "setup_password w token pw salt random (g, fs) = (r, g', fs') \<Longrightarrow>
   q \<noteq> store_path g \<Longrightarrow> q \<noteq> tmp_path (store_path g) \<Longrightarrow> fs' q = fs q"
  by (auto simp: setup_password_def dest: write_stored_hash_frame split: if_splits sum.splits prod.splits)

lemma handle_auth_setup_frame:
  assumes "handle_auth_setup w body salt random (g, fs) = (x, a, g', fs')"
    and "q \<noteq> store_path g" "q \<noteq> tmp_path (store_path g)"
  shows "fs' q = fs q"
proof (cases "\<exists>token password. body = Some (token, password) \<and> password \<noteq> []")
  case True
  then obtain token password where b: "body = Some (token, password)" "password \<noteq> []" by blast
  obtain a1 g1 where an: "announce_setup_token w fs g = (a1, g1)" by (meson surj_pair)
  obtain y g2 fs2 where st: "setup_password w token password salt random (g1, fs) = (y, g2, fs2)"
    by (metis surj_pair)
  have "fs' = fs2" using assms(1) b an st by (auto simp: handle_auth_setup_def Let_def split: sum.splits)
  then show ?thesis using setup_password_frame [OF st] announce_setup_token_gate [OF an] assms(2,3) by simp
next
  case False
  then show ?thesis using assms(1) by (auto simp: handle_auth_setup_def split: option.splits)
qed

lemma change_password_frame:
  "change_password w key cur new salt busy t1 t2 (g, fs) = (r, g', fs') \<Longrightarrow>
   q \<noteq> store_path g \<Longrightarrow> q \<noteq> tmp_path (store_path g) \<Longrightarrow> fs' q = fs q"
  by (auto simp: change_password_def Let_def dest: write_stored_hash_frame
      split: if_splits sum.splits prod.splits option.splits)

lemma handle_auth_change_frame:
  assumes "handle_auth_change w key body salt busy t1 t2 (g, fs) = (x, g', fs')"
    and "q \<noteq> store_path g" "q \<noteq> tmp_path (store_path g)"
  shows "fs' q = fs q"
proof (cases "\<exists>current new. body = Some (current, new) \<and> new \<noteq> []")
  case True
  then obtain current new where b: "body = Some (current, new)" "new \<noteq> []" by blast
  obtain y g2 fs2 where st: "change_password w key current new salt busy t1 t2 (g, fs) = (y, g2, fs2)"
    by (metis surj_pair)
  have "fs' = fs2" using assms(1) b st by (auto simp: handle_auth_change_def split: sum.splits)
  then show ?thesis using change_password_frame [OF st] assms(2,3) by simp
next
  case False
  then show ?thesis using assms(1) by (auto simp: handle_auth_change_def split: option.splits)
qed

lemma atomic_write_frame:
  "atomic_write os p d m fs = (r, fs') \<Longrightarrow> q \<noteq> p \<Longrightarrow> q \<noteq> tmp_path p \<Longrightarrow> fs' q = fs q"
  using atomic_write_other [of q p os d m fs] by simp

lemma dismiss_frame:
  "q \<noteq> dismiss_path v \<Longrightarrow> q \<noteq> tmp_path (dismiss_path v) \<Longrightarrow>
   snd (handle_dismiss_env_version cd os v fs) q = fs q"
  by (auto simp: handle_dismiss_env_version_def dismissal_save_def save_doc_def dest: atomic_write_frame
      split: option.splits prod.splits sum.splits)

text \<open>The calls of the open handlers, and all they change.\<close>

fun open_call :: "api_call \<Rightarrow> bool" where
  "open_call (Read _) = True"
| "open_call AuthStatusCall = True"
| "open_call (UnlockCall _) = True"
| "open_call (SetupCall _ _ _) = True"
| "open_call (ChangeCall _ _) = True"
| "open_call DismissCall = True"
| "open_call _ = False"

lemma open_calls: "handler_of ac \<in> set (map snd open_handlers) \<Longrightarrow> open_call ac"
proof (cases ac)
  case (NetgateCall c)
  then show "handler_of ac \<in> set (map snd open_handlers) \<Longrightarrow> open_call ac"
    by (cases c) (simp_all add: open_handlers_def)
next
  case (CaddyCall c)
  then show "handler_of ac \<in> set (map snd open_handlers) \<Longrightarrow> open_call ac"
    by (cases c) (simp_all add: open_handlers_def)
next
  case (TargetCall c)
  then show "handler_of ac \<in> set (map snd open_handlers) \<Longrightarrow> open_call ac"
    by (cases c) (simp_all add: open_handlers_def)
next
  case (TailscaleCall c)
  then show "handler_of ac \<in> set (map snd open_handlers) \<Longrightarrow> open_call ac"
    by (cases c) (simp_all add: open_handlers_def)
next
  case (UsersCall c)
  then show "handler_of ac \<in> set (map snd open_handlers) \<Longrightarrow> open_call ac"
    by (cases c) (simp_all add: open_handlers_def)
next
  case (DnsCall c)
  then show "handler_of ac \<in> set (map snd open_handlers) \<Longrightarrow> open_call ac"
    by (cases c) (simp_all add: open_handlers_def)
qed (simp_all add: open_handlers_def)

lemma open_route_call:
  assumes "find_handler new_mux m p = Routed e vs" "\<not> gated (snd e)" "decodes (handler (snd e)) ac"
  shows "open_call ac"
proof -
  have "e \<in> set new_mux" using find_handler_sound [OF assms(1)] by blast
  then have "(fst (fst e), handler (snd e)) \<in> set (map (\<lambda>e. (fst (fst e), handler (snd e))) (filter (\<lambda>e. \<not> gated (snd e)) new_mux))"
    using assms(2) by auto
  then have "handler (snd e) \<in> set (map snd open_handlers)" unfolding open_routes by force
  then show ?thesis using decodes_handler [OF assms(3)] by (intro open_calls) simp
qed

lemma open_call_inert:
  assumes "open_call ac" shows "inert (own_files d v) v (run_handler d key busy t1 t2 ac v)"
proof (cases ac)
  case (UnlockCall body)
  then show ?thesis
    by (auto simp: inert_def after_unlock_def split: option.split prod.split sum.split)
next
  case (SetupCall body salt random)
  obtain x a g fs where h: "handle_auth_setup (d_gate d) body salt random (the_gate (auth v), disk_of v) = (x, a, g, fs)"
    by (metis surj_pair)
  show ?thesis using handle_auth_setup_frame [OF h] by (auto simp: inert_def own_files_def SetupCall h)
next
  case (ChangeCall body salt)
  obtain x g fs where h: "handle_auth_change (d_gate d) key body salt busy t1 t2 (the_gate (auth v), disk_of v) = (x, g, fs)"
    by (metis surj_pair)
  show ?thesis using handle_auth_change_frame [OF h] by (auto simp: inert_def own_files_def ChangeCall h)
next
  case DismissCall
  then show ?thesis by (auto simp: inert_def own_files_def intro: dismiss_frame)
qed (use assms in \<open>simp_all add: inert_def\<close>)

text \<open>
  C2.  Whatever happened before, a request that comes while no password is configured, or when none was typed and
  verified in the last twelve hours, changes no configuration and no running program: whatever its method, path,
  headers and body are, the files are the same but for the gate's own credential and the banner's dismissal, and so are
  Caddy, supervisord's programs, the Tailscale login and the VNC sockets.
\<close>

theorem inert_without_password:
  assumes "server_reach d v" "clock (auth v) \<le> t1" "t1 \<le> t2" "unforged (d_mac d) (signed (auth v)) (unlock_value req)"
    and "\<not> configured (d_gate d) (the_gate (auth v)) (disk_of v) \<or>
      \<not> (\<exists>t. t \<in> typed (auth v) \<and> t \<le> t2 \<and> t2 < t + max_session_lifetime)"
  shows "inert (own_files d v) v (process_request d req key busy t1 t2 t3 t4 t5 t6 ac v)"
proof (cases "new_handler (d_gate d) (d_mac d) (the_gate (auth v)) (disk_of v) req t1 t2 t3 t4")
  case (Reached r vs c)
  have "\<not> gated r"
  proof
    assume "gated r"
    then have "require_password (d_gate d) (d_mac d) (the_gate (auth v)) (disk_of v) (unlock_value req) t1 t2 t3 t4 = Admit c"
      using Reached by (auto simp: new_handler_def split: if_splits mux_answer.splits gate_answer.splits)
    from session_behind_admission [OF server_auth_reach [OF assms(1)] assms(2-4) this] assms(5) show False by blast
  qed
  moreover obtain e where "find_handler new_mux (req_method req) (req_path req) = Routed e vs" "r = snd e"
    using Reached by (auto simp: new_handler_def split: if_splits mux_answer.splits gate_answer.splits)
  ultimately have "decodes (handler r) ac \<Longrightarrow> open_call ac" using open_route_call by blast
  then show ?thesis
    using \<open>\<not> gated r\<close> open_call_inert [of ac d v key busy t5 t6]
    by (auto simp: process_request_def Reached tick_def inert_def Let_def)
qed (simp_all add: process_request_def tick_def inert_def)

text \<open>A fresh server with a password on its disk, and the operator's request without its cookie.\<close>

definition no_codec :: "('c, string) codec" where
  "no_codec = \<lparr>marshal = (\<lambda>_. None), unmarshal = (\<lambda>_. None)\<rparr>"

definition sample_deps :: "unit deps" where
  "sample_deps =
     \<lparr>d_env = (\<lambda>_. []), d_gate = sample_ext, d_mac = id, d_os = quiet_os,
      d_caddy = \<lparr>adapt = (\<lambda>_. None), load_config = (\<lambda>_. None)\<rparr>, d_wire = (\<lambda>_. calm_wire),
      d_netgate = no_codec, d_tailscale = no_codec, d_vnc = no_codec, d_users = no_codec, d_bcrypt = (\<lambda>_. None),
      d_dns = \<lparr>dp_env = (\<lambda>_. []), dp_sha = id, dp_walk = id, dp_os = quiet_os, dp_hosts = no_codec, dp_resolver = no_codec\<rparr>,
      d_version = \<lparr>template_version = [], file_version = [], dismiss_path = ''/d''\<rparr>, d_dismissals = no_codec,
      d_status = (\<lambda>_. None)\<rparr>"

definition fresh_server :: "unit server" where
  "fresh_server =
     \<lparr>auth = boot file_gate (hash_fs sample_hash) 0, live_config = Map.empty, daemon = (), ts_login = new_login_manager,
      signalled = {}, sockets_hub = empty_hub\<rparr>"

definition stranger :: http_request where
  "stranger = operator_request\<lparr>unlock_value := None\<rparr>"

theorem inert_without_password_witness:
  "inert (own_files sample_deps fresh_server) fresh_server
     (process_request sample_deps stranger ''k'' False 1 1 1 1 1 1 (NetgateCall (ng_call.RemoveForward ''8080'')) fresh_server) \<and>
   find_handler new_mux (req_method stranger) (req_path stranger) =
     Routed (behind_gate ''DELETE /api/netgate/forwards/{hostPort}'' ''handleDeleteNetgateForward'') [''8080'']"
proof
  show "inert (own_files sample_deps fresh_server) fresh_server
     (process_request sample_deps stranger ''k'' False 1 1 1 1 1 1 (NetgateCall (ng_call.RemoveForward ''8080'')) fresh_server)"
  proof (rule inert_without_password)
    show "server_reach sample_deps fresh_server" unfolding fresh_server_def by (rule server_reach.start)
  qed (simp_all add: fresh_server_def boot_def unforged_def stranger_def)
  show "find_handler new_mux (req_method stranger) (req_path stranger) =
      Routed (behind_gate ''DELETE /api/netgate/forwards/{hostPort}'' ''handleDeleteNetgateForward'') [''8080'']"
    using operator_request_routed(1) by (simp add: stranger_def)
qed

end
