(* ===== verification/Footprint.thy ===== *)
theory Footprint
  imports Server
begin

text \<open>
  Which files a request can change.  The features of the program keep their documents beside each other on one disk;
  here each is confined to its own paths (the locale \<open>feature\<close>, interpreted by every feature that writes), so that
  what holds of one feature's document holds whatever the others do.
\<close>

section \<open>Confined changes\<close>

definition keeps :: "string set \<Rightarrow> 'b fs \<Rightarrow> 'b fs \<Rightarrow> bool" where
  "keeps S fs fs' \<longleftrightarrow> (\<forall>q. q \<notin> S \<longrightarrow> fs' q = fs q)"

definition with_tmp :: "string \<Rightarrow> string set" where
  "with_tmp p = {p, tmp_path p}"

lemma keeps_refl [simp, intro]: "keeps S fs fs"
  by (simp add: keeps_def)

lemma keeps_trans: "keeps S f g \<Longrightarrow> keeps S g h \<Longrightarrow> keeps S f h"
  by (simp add: keeps_def)

lemma keeps_mono: "keeps S f g \<Longrightarrow> S \<subseteq> T \<Longrightarrow> keeps T f g"
  by (auto simp: keeps_def)

lemma keeps_out: "keeps S f g \<Longrightarrow> p \<notin> S \<Longrightarrow> g p = f p"
  by (simp add: keeps_def)

lemma keeps_step: "keeps S s (snd res) \<Longrightarrow> res = (r, s') \<Longrightarrow> keeps S s s'"
  by simp

lemma keeps_atomic_write: "p \<in> S \<Longrightarrow> tmp_path p \<in> S \<Longrightarrow> keeps S fs (snd (atomic_write os p d m fs))"
  unfolding keeps_def by (metis atomic_write_other)

lemma keeps_remove: "p \<in> S \<Longrightarrow> keeps S fs (snd (remove os p fs))"
  by (auto simp: keeps_def remove_def)

lemma keeps_save_doc: "p \<in> S \<Longrightarrow> tmp_path p \<in> S \<Longrightarrow> keeps S fs (snd (save_doc cd m p os c fs))"
  using keeps_atomic_write [of p S fs os _ m] by (auto simp: save_doc_def split: option.splits prod.splits) (metis snd_conv)

lemma keeps_credential_write:
  assumes "p \<in> S" "tmp_path p \<in> S" shows "keeps S fs (snd (credential_write os p d m fs))"
  unfolding keeps_def credential_write_def
proof (intro allI impI run_acts_frame)
  fix q a and g :: "'a fs"
  assume "q \<notin> S" "a \<in> set (credential_write_acts os p d m)"
  then show "snd (a g) q = g q"
    using assms by (auto simp: credential_write_acts_def syscall_defs split: option.splits)
qed

lemma keeps_modify_doc: "(\<And>c. keeps S s (snd (save c s))) \<Longrightarrow> keeps S s (snd (modify_doc load save change s))"
  by (auto simp: modify_doc_def split: sum.splits prod.splits) (metis snd_conv)+

lemma keeps_checked_modify: "(\<And>c. keeps S s (snd (save c s))) \<Longrightarrow> keeps S s (snd (checked_modify chk load save change s))"
  by (auto simp: checked_modify_def keeps_modify_doc split: sum.splits)

text \<open>A file name's extension survives \<open>filepath.Join\<close>, whatever the name.\<close>

lemma clean_parts_snoc:
  "p \<noteq> [] \<Longrightarrow> p \<noteq> ''.'' \<Longrightarrow> p \<noteq> ''..'' \<Longrightarrow> clean_parts acc (ps @ [p]) = clean_parts acc ps @ [p]"
  by (induction acc ps rule: clean_parts.induct) auto

lemma split_on_append_last:
  "c \<notin> set e \<Longrightarrow> \<exists>qs q. split_on c (xs @ e) = qs @ [q @ e]"
proof (induction xs)
  case Nil
  have "split_on c e = [e]" using Nil by (induction e) auto
  then show ?case by (metis append_Nil)
next
  case (Cons x xs)
  then obtain qs q where "split_on c (xs @ e) = qs @ [q @ e]" by blast
  then show ?case by (cases "x = c"; cases qs) auto
qed

lemma path_join_extension:
  assumes "CHR ''/'' \<notin> set e" "2 < length e"
  shows "has_suffix (path_join dir (n @ e)) e"
proof -
  obtain qs q where s: "split_on CHR ''/'' (dir @ CHR ''/'' # n @ e) = qs @ [q @ e]"
    using split_on_append_last [OF assms(1), of "dir @ CHR ''/'' # n"] by auto
  have "q @ e \<noteq> []" "q @ e \<noteq> ''.''" "q @ e \<noteq> ''..''" using assms(2) by (auto dest: arg_cong [of _ _ length])
  then have "path_join dir (n @ e) = CHR ''/'' # join ''/'' (clean_parts [] qs @ [q @ e])"
    by (simp add: path_join_def clean_abs_def s clean_parts_snoc)
  also have "has_suffix \<dots> e"
    by (cases "clean_parts [] qs = []") (auto simp: join_snoc has_suffix_def rev_swap)
  finally show ?thesis .
qed

section \<open>Features\<close>

text \<open>A feature: its operation on a state with a disk, and the paths that are its own.\<close>

locale feature =
  fixes op :: "'r \<Rightarrow> 's \<Rightarrow> 'a \<times> 's" and disk_part :: "'s \<Rightarrow> 'b fs" and own :: "string set"
  assumes confined: "keeps own (disk_part s) (disk_part (snd (op r s)))"
begin

lemma confined_result: "op r s = (a, s') \<Longrightarrow> keeps own (disk_part s) (disk_part s')"
  using confined [of s r] by simp

text \<open>A document kept at a path of another feature is the one it was.\<close>

lemma foreign_document: "p \<notin> own \<Longrightarrow> stored_doc cd z p (disk_part (snd (op r s))) = stored_doc cd z p (disk_part s)"
  using keeps_out [OF confined] by (simp add: stored_doc_def)

end

text \<open>netgate\<close>

lemma netgate_keeps: "keeps (with_tmp live_config_path) fs (snd (ng_api env cd os req fs))"
proof -
  have "keeps (with_tmp live_config_path) s (snd (netgate_save cd os live_config_path c s))" for c s
    by (auto simp: netgate_save_def with_tmp_def intro!: keeps_save_doc)
  then have m: "keeps (with_tmp live_config_path) fs
      (snd (modify_doc (netgate_load cd os live_config_path) (netgate_save cd os live_config_path) change fs))"
    for change :: "netgate_config \<Rightarrow> (netgate_config \<times> 'x) checked"
    by (rule keeps_modify_doc)
  show ?thesis
    by (cases req) (auto simp: handle_replace_netgate_outbound_def replace_outbound_def handle_add_netgate_forward_def
        add_forward_def handle_set_netgate_bandwidth_def set_bandwidth_def handle_delete_netgate_forward_def
        delete_forward_def m split: option.splits sum.splits)
qed

interpretation netgate_feature: feature "ng_api env cd os" "\<lambda>fs. fs" "with_tmp live_config_path" for env cd os
  by unfold_locales (rule netgate_keeps)

text \<open>Dev Proxy and App Routes: files called \<open>*.caddy\<close>, wherever a name leads (\<open>update_old_name_escapes\<close>).\<close>

definition caddy_files :: "string set" where
  "caddy_files = {q. has_suffix q ''.caddy''}"

lemma fragment_path_caddy [simp]: "fragment_path dir n \<in> caddy_files"
  by (simp add: caddy_files_def fragment_path_def path_join_extension)

lemma write_and_validate_keeps: "write_and_validate cad os dir n c fs = (r, fs') \<Longrightarrow> keeps caddy_files fs fs'"
  unfolding keeps_def using write_and_validate_frame fragment_path_caddy by metis

lemma remove_fragment_keeps: "remove os (fragment_path dir n) fs = (r, fs') \<Longrightarrow> keeps caddy_files fs fs'"
  using keeps_remove [of "fragment_path dir n" caddy_files fs os] by simp

lemmas fragment_steps = write_and_validate_keeps remove_fragment_keeps reload_files

lemma write_then_reload_keeps:
  "write_then_reload cad os dir n c s = (r, s') \<Longrightarrow> keeps caddy_files (files s) (files s')"
  by (auto simp: write_then_reload_def dest!: fragment_steps split: prod.splits sum.splits)

lemma create_fragment_keeps:
  "create_fragment cad os dir n c s = (r, s') \<Longrightarrow> keeps caddy_files (files s) (files s')"
  by (auto simp: create_fragment_def dest!: write_then_reload_keeps split: if_splits)

lemma update_raw_fragment_keeps:
  "update_raw_fragment cad os dir n c s = (r, s') \<Longrightarrow> keeps caddy_files (files s) (files s')"
  by (auto simp: update_raw_fragment_def dest!: write_then_reload_keeps split: if_splits)

lemma update_fragment_keeps:
  "update_fragment cad os dir old n c s = (r, s') \<Longrightarrow> keeps caddy_files (files s) (files s')"
  by (auto simp: update_fragment_def dest!: fragment_steps split: prod.splits sum.splits if_splits intro: keeps_trans)

lemma delete_fragment_keeps:
  "delete_fragment cad os dir n s = (r, s') \<Longrightarrow> keeps caddy_files (files s) (files s')"
  by (auto simp: delete_fragment_def Let_def dest!: fragment_steps split: prod.splits sum.splits if_splits option.splits
      intro: keeps_trans)

lemmas fragment_keeps =
  create_fragment_keeps update_fragment_keeps update_raw_fragment_keeps delete_fragment_keeps

lemma expose_keeps:
  "create_expose env cad os e s = (r, s') \<Longrightarrow> keeps caddy_files (files s) (files s')"
  "update_expose env cad os old e s = (r, s') \<Longrightarrow> keeps caddy_files (files s) (files s')"
  "update_expose_raw cad os n t s = (r, s') \<Longrightarrow> keeps caddy_files (files s) (files s')"
  "delete_expose cad os n s = (r, s') \<Longrightarrow> keeps caddy_files (files s) (files s')"
  by (auto simp: create_expose_def update_expose_def update_expose_raw_def delete_expose_def
      dest: fragment_keeps split: sum.splits)

lemma app_keeps:
  "create_app env cad os a s = (r, s') \<Longrightarrow> keeps caddy_files (files s) (files s')"
  "update_app env cad os old a s = (r, s') \<Longrightarrow> keeps caddy_files (files s) (files s')"
  "update_app_raw cad os n t s = (r, s') \<Longrightarrow> keeps caddy_files (files s) (files s')"
  "delete_app cad os n s = (r, s') \<Longrightarrow> keeps caddy_files (files s) (files s')"
  by (auto simp: create_app_eq update_app_eq update_app_raw_eq delete_app_eq
      dest: fragment_keeps split: sum.splits)

lemma caddy_api_keeps: "keeps caddy_files (files s) (files (snd (caddy_api env cad os req s)))"
  by (cases req)
    (auto simp: handle_create_dev_proxy_expose_def handle_update_dev_proxy_expose_def handle_delete_dev_proxy_expose_def
      handle_reload_dev_proxy_def handle_create_app_route_def handle_update_app_route_def handle_delete_app_route_def
      handle_reload_app_routes_def answer_with_def reload_caddy_def Let_def
      dest!: expose_keeps app_keeps split: option.splits prod.splits sum.splits if_splits)

interpretation caddy_feature: feature "caddy_api env cad os" files caddy_files for env cad os
  by unfold_locales (rule caddy_api_keeps)

text \<open>The vnc targets: their registry, and the App Routes they bring along.\<close>

definition vnc_files :: "string set" where
  "vnc_files = with_tmp vnc_store_path \<union> caddy_files"

lemma app_keeps_vnc:
  "create_app env cad os a s = (r, s') \<Longrightarrow> keeps vnc_files (files s) (files s')"
  "update_app env cad os old a s = (r, s') \<Longrightarrow> keeps vnc_files (files s) (files s')"
  "delete_app cad os n s = (r, s') \<Longrightarrow> keeps vnc_files (files s) (files s')"
  by (auto simp: vnc_files_def dest!: app_keeps elim: keeps_mono)

lemma vnc_save_keeps: "vnc_save cd os ts s = (r, s') \<Longrightarrow> keeps vnc_files (files s) (files s')"
  by (auto simp: vnc_save_def vnc_files_def with_tmp_def split: prod.splits intro: keeps_step [OF keeps_save_doc])

lemma sync_route_keeps:
  "sync_route (create_app env cad os) (update_app env cad os) (delete_app cad os) had wants old a s = (r, s') \<Longrightarrow>
     keeps vnc_files (files s) (files s')"
  by (auto simp: sync_route_def dest!: app_keeps_vnc split: if_splits prod.splits intro: keeps_trans)

lemma route_dropped_keeps: "keeps vnc_files (files s) (files (snd (delete_app cad os n s)))"
  using app_keeps_vnc(3) by (metis surjective_pairing)

lemma vnc_create_keeps: "vnc_create env cad cd os t s = (r, s') \<Longrightarrow> keeps vnc_files (files s) (files s')"
  by (auto simp: vnc_create_def dest!: app_keeps_vnc vnc_save_keeps split: sum.splits prod.splits if_splits
      intro: keeps_trans keeps_trans [OF keeps_trans, OF _ _ route_dropped_keeps])

lemma vnc_update_keeps: "vnc_update env cad cd os old t s = (r, s') \<Longrightarrow> keeps vnc_files (files s) (files s')"
  by (auto simp: vnc_update_def dest!: sync_route_keeps vnc_save_keeps split: sum.splits prod.splits if_splits option.splits
      intro: keeps_trans)

lemma vnc_delete_keeps: "vnc_delete cad cd os n s = (r, s') \<Longrightarrow> keeps vnc_files (files s) (files s')"
  by (auto simp: vnc_delete_def Let_def dest!: app_keeps_vnc vnc_save_keeps
      split: sum.splits prod.splits if_splits option.splits intro: keeps_trans)

lemma target_api_keeps: "keeps vnc_files (files s) (files (snd (target_api d req s)))"
  by (cases req)
    (auto simp: handle_create_vnc_target_def handle_update_vnc_target_def handle_delete_vnc_target_def vnc_answer_def Let_def
      dest: vnc_create_keeps vnc_update_keeps vnc_delete_keeps split: option.splits prod.splits sum.splits)

interpretation target_feature: feature "target_api d" files vnc_files for d
  by unfold_locales (rule target_api_keeps)

text \<open>Tailscale, tinyauth's users and dns, which restart a program: the disk is the first part of their state.\<close>

lemma restart_keeps [simp]: "fst (snd (restart_and_reply w name ok (fs, s))) = fs"
  by (auto simp: restart_and_reply_def split: prod.splits option.splits)

lemma change_and_restart_keeps:
  "(\<And>r fs'. change fs = (r, fs') \<Longrightarrow> keeps S fs fs') \<Longrightarrow>
     keeps S fs (fst (snd (change_and_restart w name refuse ok change (fs, s))))"
  by (auto simp: change_and_restart_def split: prod.splits sum.splits)

lemma ts_save_keeps: "keeps (with_tmp p) fs (snd (ts_save cd os p c fs))"
  by (auto simp: ts_save_def with_tmp_def intro!: keeps_save_doc)

lemma ts_change_keeps:
  "checked_modify chk (ts_load cd os p) (ts_save cd os p) change fs = (r, fs') \<Longrightarrow> keeps (with_tmp p) fs fs'"
  by (erule keeps_step [rotated]) (rule keeps_checked_modify, rule ts_save_keeps)

lemma ts_api_keeps: "keeps (with_tmp ts_config_path) (fst s) (fst (snd (ts_api env cd os w req s)))"
proof (cases s)
  case (Pair fs d)
  show ?thesis
    unfolding Pair
    by (cases req)
      (auto simp: handle_put_tailscale_config_def tailscale_handlers set_global_config_def ts_add_forward_def
        ts_update_forward_def ts_delete_forward_def add_publish_def update_publish_def delete_publish_def Let_def
        modify_is_checked
        intro!: change_and_restart_keeps dest: ts_change_keeps split: option.splits sum.splits if_splits)
qed

interpretation tailscale_feature: feature "ts_api env cd os w" fst "with_tmp ts_config_path" for env cd os w
  by unfold_locales (rule ts_api_keeps)

definition users_files :: "string set" where
  "users_files = with_tmp tu_store_path \<union> with_tmp env_file_path"

lemma tu_save_keeps: "keeps (with_tmp p) fs (snd (tu_save cd os p us fs))"
proof (cases "marshal cd us")
  case None
  then show ?thesis using tu_save_unencoded [OF None] by (metis keeps_refl surjective_pairing)
next
  case (Some data)
  then show ?thesis by (auto simp: tu_save_eq with_tmp_def intro!: keeps_credential_write)
qed

lemma tu_change_keeps:
  "checked_modify chk (tu_load cd os p) (tu_save cd os p) change fs = (r, fs') \<Longrightarrow> keeps (with_tmp p) fs fs'"
  by (erule keeps_step [rotated]) (rule keeps_checked_modify, rule tu_save_keeps)

lemma apply_users_keeps: "keeps users_files fs (fst (snd (apply_tinyauth_users cd os w d (fs, s))))"
proof -
  have "keeps users_files fs (snd (render_env_file os env_file_path us fs))" for us
    unfolding render_env_file_def by (rule keeps_credential_write) (simp_all add: users_files_def with_tmp_def)
  then show ?thesis
    by (auto simp: apply_tinyauth_users_def split: sum.splits prod.splits dest: keeps_step)
qed

lemma changed_then_applied:
  assumes "checked_modify chk (tu_load cd os tu_store_path) (tu_save cd os tu_store_path) change fs = (r, fs1)"
  shows "keeps users_files fs fs1 \<and> keeps users_files fs (fst (snd (apply_tinyauth_users cd os w d (fs1, s))))"
proof -
  have "keeps users_files fs fs1"
    by (rule keeps_mono [OF tu_change_keeps [OF assms]]) (simp add: users_files_def)
  then show ?thesis using keeps_trans [OF _ apply_users_keeps] by metis
qed

lemma users_keeps: "keeps users_files (fst s) (fst (snd (tu_serve env bc cd os w req s)))"
proof (cases s)
  case (Pair fs d)
  show ?thesis
    unfolding Pair
    by (cases req)
      (auto simp: handle_add_tinyauth_user_def handle_set_tinyauth_user_password_def handle_delete_tinyauth_user_def
        add_user_def set_password_def delete_user_def modify_is_checked dest: changed_then_applied
        split: option.splits sum.splits prod.splits if_splits)
qed

interpretation users_feature: feature "tu_serve env bc cd os w" fst users_files for env bc cd os w
  by unfold_locales (rule users_keeps)

text \<open>dns: the hosts files, one for each source and the rendered custom hosts, and three documents.\<close>

definition dns_files :: "string set" where
  "dns_files =
     {q. has_suffix q ''.hosts''} \<union> {q. has_suffix q ''.hosts.tmp''} \<union>
     with_tmp manifest_path \<union> with_tmp custom_hosts_config_path \<union> with_tmp resolver_config_path"

lemma has_suffix_extended: "has_suffix p e \<Longrightarrow> has_suffix (p @ f) (e @ f)"
  by (auto simp: has_suffix_iff)

lemma hosts_path [simp]: "has_suffix p ''.hosts'' \<Longrightarrow> p \<in> dns_files \<and> tmp_path p \<in> dns_files"
  using has_suffix_extended [of p "''.hosts''" "''.tmp''"] by (simp add: dns_files_def tmp_path_def)

lemma custom_path_hosts [simp]: "has_suffix (custom_path n) ''.hosts''" "has_suffix builtin_path ''.hosts''"
    "has_suffix custom_hosts_rendered_path ''.hosts''"
  by (simp_all add: custom_path_def builtin_path_def path_join_extension)
    (simp add: custom_hosts_rendered_path_def has_suffix_def)

lemma dns_write_keeps: "p \<in> dns_files \<and> tmp_path p \<in> dns_files \<Longrightarrow> atomic_write os p d m fs = (r, fs') \<Longrightarrow> keeps dns_files fs fs'"
  by (rule keeps_step [OF keeps_atomic_write]) simp_all

lemma dns_remove_keeps: "p \<in> dns_files \<Longrightarrow> remove os p fs = (r, fs') \<Longrightarrow> keeps dns_files fs fs'"
  by (rule keeps_step [OF keeps_remove])

lemma dns_documents [simp]:
  "manifest_path \<in> dns_files" "tmp_path manifest_path \<in> dns_files"
  "custom_hosts_config_path \<in> dns_files" "tmp_path custom_hosts_config_path \<in> dns_files"
  "resolver_config_path \<in> dns_files" "tmp_path resolver_config_path \<in> dns_files"
  by (simp_all add: dns_files_def with_tmp_def)

lemma source_keeps:
  "create_source os n hs fs = (r, fs') \<Longrightarrow> keeps dns_files fs fs'"
  "update_source os n hs fs = (r, fs') \<Longrightarrow> keeps dns_files fs fs'"
  "delete_source os n fs = (r, fs') \<Longrightarrow> keeps dns_files fs fs'"
  by (auto simp: create_source_def update_source_def delete_source_def write_source_def apfst_def map_prod_def
      dest: dns_write_keeps [rotated] dns_remove_keeps [rotated] split: sum.splits if_splits prod.splits)

lemma record_baseline_keeps: "record_baseline sha walk os t fs = (r, fs') \<Longrightarrow> keeps dns_files fs fs'"
  by (auto simp: record_baseline_def save_manifest_def apfst_def map_prod_def
      dest: dns_write_keeps [rotated] split: sum.splits prod.splits)

lemma builtin_keeps:
  "builtin_pull env sha walk os fs = (r, fs') \<Longrightarrow> keeps dns_files fs fs'"
  "builtin_ignore env sha walk os fs = (r, fs') \<Longrightarrow> keeps dns_files fs fs'"
  by (auto simp: builtin_pull_def builtin_ignore_def split: sum.splits prod.splits
      dest!: record_baseline_keeps dest: dns_write_keeps [rotated] intro: keeps_trans)

lemmas custom_hosts_steps =
  dns_write_keeps [OF conjI, OF dns_documents(3,4)] dns_write_keeps [OF hosts_path, OF custom_path_hosts(3)]
  dns_remove_keeps [OF conjunct1, OF hosts_path, OF custom_path_hosts(3)]

lemma set_custom_hosts_keeps: "set_custom_hosts cd os es fs = (r, fs') \<Longrightarrow> keeps dns_files fs fs'"
  by (auto simp: set_custom_hosts_def apfst_def map_prod_def split: sum.splits prod.splits option.splits if_splits
      dest!: custom_hosts_steps intro: keeps_trans)

lemma set_resolver_keeps: "set_resolver_config cd os c fs = (r, fs') \<Longrightarrow> keeps dns_files fs fs'"
  by (auto simp: set_resolver_config_def apfst_def map_prod_def split: sum.splits prod.splits
      elim!: keeps_step [OF keeps_save_doc, rotated 2])

lemma dns_api_keeps: "keeps dns_files (fst s) (fst (snd (dns_api c w req s)))"
proof (cases s)
  case (Pair fs d)
  show ?thesis
    unfolding Pair
    by (cases req)
      (auto simp: handle_create_blocklist_source_def handle_update_blocklist_source_def handle_delete_blocklist_source_def
        handle_builtin_blocklist_pull_def handle_set_custom_hosts_def handle_set_resolver_config_def
        intro!: change_and_restart_keeps dest: source_keeps builtin_keeps set_custom_hosts_keeps set_resolver_keeps
        split: option.splits)
qed

interpretation dns_feature: feature "dns_api c w" fst dns_files for c w
  by unfold_locales (rule dns_api_keeps)

lemma ignore_keeps: "keeps dns_files (fst s) (fst (snd (handle_builtin_blocklist_ignore c s)))"
  by (auto simp: handle_builtin_blocklist_ignore_def dest: builtin_keeps split: prod.splits sum.splits)

section \<open>The footprint of a request\<close>

text \<open>\<open>store\<close> is the file of the gate's credential.\<close>

fun footprint :: "'s deps \<Rightarrow> string \<Rightarrow> api_call \<Rightarrow> string set" where
  "footprint d store (SetupCall _ _ _) = with_tmp store"
| "footprint d store (ChangeCall _ _) = with_tmp store"
| "footprint d store DismissCall = with_tmp (dismiss_path (d_version d))"
| "footprint d store (NetgateCall _) = with_tmp live_config_path"
| "footprint d store (CaddyCall _) = caddy_files"
| "footprint d store (TargetCall _) = vnc_files"
| "footprint d store (TailscaleCall _) = with_tmp ts_config_path"
| "footprint d store (UsersCall _) = users_files"
| "footprint d store (DnsCall _) = dns_files"
| "footprint d store IgnoreBuiltinCall = dns_files"
| "footprint d store _ = {}"

fun reloads_caddy :: "api_call \<Rightarrow> bool" where
  "reloads_caddy (CaddyCall _) = True"
| "reloads_caddy (TargetCall _) = True"
| "reloads_caddy _ = False"

fun restarts_program :: "api_call \<Rightarrow> bool" where
  "restarts_program (TailscaleCall _) = True"
| "restarts_program (UsersCall _) = True"
| "restarts_program (DnsCall _) = True"
| "restarts_program _ = False"

fun logs_in :: "api_call \<Rightarrow> bool" where
  "logs_in (LoginStartCall _ _ _) = True"
| "logs_in LoginCancelCall = True"
| "logs_in _ = False"

fun moves_sockets :: "api_call \<Rightarrow> bool" where
  "moves_sockets (OpenSocketCall _ _ _) = True"
| "moves_sockets (DisconnectCall _ _) = True"
| "moves_sockets _ = False"

text \<open>The parts of the program besides the files, by who may change them.\<close>

definition parts_kept :: "api_call \<Rightarrow> 's server \<Rightarrow> 's server \<Rightarrow> bool" where
  "parts_kept ac v v' \<longleftrightarrow>
     (reloads_caddy ac \<or> live_config v' = live_config v) \<and>
     (restarts_program ac \<or> daemon v' = daemon v) \<and>
     (logs_in ac \<or> ts_login v' = ts_login v \<and> signalled v' = signalled v) \<and>
     (moves_sockets ac \<or> sockets_hub v' = sockets_hub v)"

lemma parts_kept_run: "parts_kept ac v (run_handler d key busy t1 t2 ac v)"
  by (cases ac) (auto simp: parts_kept_def on_site_def on_programs_def Let_def handle_builtin_blocklist_ignore_def
      split: option.splits prod.splits sum.splits)

lemma on_site_keeps:
  "keeps S (disk_of v) (files (snd (op \<lparr>files = disk_of v, live = live_config v\<rparr>))) \<Longrightarrow>
   keeps S (disk_of v) (disk_of (on_site op v))"
  by (simp add: on_site_def Let_def)

lemma on_programs_keeps:
  "keeps S (disk_of v) (fst (snd (op (disk_of v, daemon v)))) \<Longrightarrow> keeps S (disk_of v) (disk_of (on_programs op v))"
  by (auto simp: on_programs_def split: prod.splits)

lemma run_handler_keeps:
  "keeps (footprint d (store_path (the_gate (auth v))) ac) (disk_of v) (disk_of (run_handler d key busy t1 t2 ac v))"
proof (cases ac)
  case (UnlockCall body)
  then show ?thesis by (auto simp: after_unlock_def split: option.splits prod.splits sum.splits)
next
  case (SetupCall body salt random)
  obtain x a g fs where h: "handle_auth_setup (d_gate d) body salt random (the_gate (auth v), disk_of v) = (x, a, g, fs)"
    by (metis surj_pair)
  show ?thesis using handle_auth_setup_frame [OF h] by (auto simp: SetupCall h keeps_def with_tmp_def)
next
  case (ChangeCall body salt)
  obtain x g fs where h: "handle_auth_change (d_gate d) key body salt busy t1 t2 (the_gate (auth v), disk_of v) = (x, g, fs)"
    by (metis surj_pair)
  show ?thesis using handle_auth_change_frame [OF h] by (auto simp: ChangeCall h keeps_def with_tmp_def)
next
  case DismissCall
  then show ?thesis by (auto simp: keeps_def with_tmp_def intro: dismiss_frame)
next
  case (NetgateCall c)
  then show ?thesis by (simp add: netgate_feature.confined)
next
  case (CaddyCall c)
  show ?thesis
    using caddy_feature.confined [where s = "\<lparr>files = disk_of v, live = live_config v\<rparr>"]
    by (simp add: CaddyCall on_site_keeps)
next
  case (TargetCall c)
  show ?thesis
    using target_feature.confined [of "\<lparr>files = disk_of v, live = live_config v\<rparr>" d c]
    by (simp add: TargetCall on_site_keeps)
next
  case (TailscaleCall c)
  then show ?thesis
    using tailscale_feature.confined [where s = "(disk_of v, daemon v)"] by (simp add: on_programs_keeps)
next
  case (UsersCall c)
  then show ?thesis
    using users_feature.confined [where s = "(disk_of v, daemon v)"] by (simp add: on_programs_keeps)
next
  case (DnsCall c)
  then show ?thesis
    using dns_feature.confined [where s = "(disk_of v, daemon v)"] by (simp add: on_programs_keeps)
next
  case IgnoreBuiltinCall
  then show ?thesis
    using ignore_keeps [where s = "(disk_of v, daemon v)"] by (simp add: on_programs_keeps)
qed (auto split: prod.splits sum.splits)

text \<open>
  C10.  Every request keeps to its footprint.  Whatever comes in, the files it changes are those of the feature its
  handler belongs to (the credential, the banner's dismissal, one configuration document, the fragments called
  \<open>*.caddy\<close>, the vnc registry with these, tinyauth's two files, the files of dns), and the running Caddy, the programs,
  the Tailscale login and the VNC sockets are touched only by the calls that are for them.
\<close>

theorem request_footprint:
  "keeps (footprint d (store_path (the_gate (auth v))) ac) (disk_of v)
     (disk_of (process_request d req key busy t1 t2 t3 t4 t5 t6 ac v)) \<and>
   parts_kept ac v (process_request d req key busy t1 t2 t3 t4 t5 t6 ac v)"
proof (cases "new_handler (d_gate d) (d_mac d) (the_gate (auth v)) (disk_of v) req t1 t2 t3 t4")
  case (Reached r vs c)
  define v1 where "v1 = (if gated r
    then v\<lparr>auth := after_request (refresh_payload (d_mac d) (unlock_value req) t3 t4) t4 (auth v)\<rparr> else v)"
  have v1: "disk_of v1 = disk_of v" "the_gate (auth v1) = the_gate (auth v)" "live_config v1 = live_config v"
    "daemon v1 = daemon v" "ts_login v1 = ts_login v" "signalled v1 = signalled v" "sockets_hub v1 = sockets_hub v"
    by (simp_all add: v1_def after_request_def split: option.splits)
  have p: "process_request d req key busy t1 t2 t3 t4 t5 t6 ac v =
      tick t6 (if decodes (handler r) ac then run_handler d key busy t5 t6 ac v1 else v1)"
    by (simp add: process_request_def Reached v1_def)
  show ?thesis
    using run_handler_keeps [of d v1 ac key busy t5 t6] parts_kept_run [of ac v1 d key busy t5 t6]
    by (auto simp: p tick_def v1 parts_kept_def)
qed (simp_all add: process_request_def tick_def parts_kept_def)

section \<open>The documents stay well-formed\<close>

definition document_paths :: "string set" where
  "document_paths = {live_config_path, ts_config_path, tu_store_path, vnc_store_path}"

definition documents_ok :: "'s deps \<Rightarrow> string fs \<Rightarrow> bool" where
  "documents_ok d fs \<longleftrightarrow>
     (\<forall>c. ng_stored (d_netgate d) fs = Some c \<longrightarrow> config_ok (d_env d) c) \<and>
     (\<forall>c. stored_doc (d_tailscale d) empty_ts_config ts_config_path fs = Some c \<longrightarrow> ts_ok (d_env d) c) \<and>
     (\<forall>us. stored_doc (d_users d) [] tu_store_path fs = Some us \<longrightarrow> users_ok us) \<and>
     (\<forall>ts. stored_doc (d_vnc d) [] vnc_store_path fs = Some ts \<longrightarrow> vnc_ok ts)"

text \<open>What the codecs and bcrypt are relied on for, and that the two paths of the environment are no document's.\<close>

definition deps_ok :: "'s deps \<Rightarrow> bool" where
  "deps_ok d \<longleftrightarrow>
     codec_ok (d_netgate d) norm_config \<and> codec_ok (d_tailscale d) norm_ts_config \<and> codec_ok (d_users d) (\<lambda>us. us) \<and>
     codec_ok (d_vnc d) (\<lambda>ts. ts) \<and> bcrypt_ok (d_bcrypt d) \<and>
     with_tmp (dismiss_path (d_version d)) \<inter> document_paths = {}"

lemma documents_untouched: "(\<And>p. p \<in> document_paths \<Longrightarrow> fs' p = fs p) \<Longrightarrow> documents_ok d fs' = documents_ok d fs"
  by (simp add: documents_ok_def ng_stored_def stored_doc_def document_paths_def)

lemma documents_apart: "keeps S fs fs' \<Longrightarrow> S \<inter> document_paths = {} \<Longrightarrow> documents_ok d fs' = documents_ok d fs"
  by (rule documents_untouched) (auto simp: keeps_def)

lemma documents_elsewhere:
  "p \<in> document_paths \<Longrightarrow> p \<notin> caddy_files" "p \<in> document_paths \<Longrightarrow> p \<notin> dns_files"
  by (auto simp: document_paths_def caddy_files_def dns_files_def with_tmp_def has_suffix_def live_config_path_def
      ts_config_path_def tu_store_path_def vnc_store_path_def manifest_path_def custom_hosts_config_path_def
      resolver_config_path_def tmp_path_def)

lemma ng_effect_ok:
  assumes "ng_effect env req c = Some c'" "config_ok env c"
  shows "config_ok env c'"
proof (cases req)
  case (PutOutbound b)
  then obtain rs where "check_outbound (elems rs) = Inr ()" "set_outbound rs c = Inr (c', non_nil rs)"
    using assms(1) by (cases b) (auto simp: set_outbound_def split: if_splits)
  then show ?thesis using set_outbound_ok assms(2) by blast
next
  case (PostForward b)
  then obtain f where "check_forward env f = Inr ()" "put_forward f c = Inr (c', f)"
    using assms(1) by (cases b) (auto simp: put_forward_def split: if_splits)
  then show ?thesis using put_forward_ok assms(2) by blast
next
  case (PutBandwidth b)
  then obtain bw where "check_bandwidth bw = Inr ()" "put_bandwidth bw c = Inr (c', with_services bw)"
    using assms(1) by (cases b) (auto simp: put_bandwidth_def split: if_splits)
  then show ?thesis using put_bandwidth_ok assms(2) by blast
next
  case (RemoveForward t)
  then obtain p where "drop_forward p c = Inr (c', ())"
    using assms(1) by (auto simp: res_simps split: option.splits)
  then show ?thesis using drop_forward_ok assms(2) by blast
qed

lemma netgate_documents:
  assumes "codec_ok cd norm_config" "\<And>c. ng_stored cd fs = Some c \<Longrightarrow> config_ok env c"
    and "ng_stored cd (snd (ng_api env cd os req fs)) = Some d"
  shows "config_ok env d"
proof -
  have "ng_kept env cd req fs (ng_api env cd os req fs)" by (cases req) (simp_all only: call_kept)
  then consider "ng_stored cd (snd (ng_api env cd os req fs)) = ng_stored cd fs"
    | c c' where "ng_stored cd fs = Some c" "ng_effect env req c = Some c'"
      "ng_stored cd (snd (ng_api env cd os req fs)) = reread_doc cd c'"
    by (auto simp: ng_kept_def split: prod.splits if_splits)
  then show ?thesis
  proof cases
    case 2
    have "config_ok env c'" using ng_effect_ok 2 assms(2) by blast
    moreover have "d = norm_config c'" using 2(3) assms(3) reread_codec_ok [OF assms(1)] by simp
    ultimately show ?thesis by simp
  qed (use assms in simp)
qed

definition ts_doc_ok :: "env \<Rightarrow> (ts_config, 'b) codec \<Rightarrow> 'b fs \<Rightarrow> bool" where
  "ts_doc_ok env cd fs \<longleftrightarrow> (\<forall>c. stored_doc cd empty_ts_config ts_config_path fs = Some c \<longrightarrow> ts_ok env c)"

lemma changed_disk [simp]:
  "fst (snd (change_and_restart w name refuse ok change (fs, s))) = snd (change fs)"
  by (auto simp: change_and_restart_def split: prod.splits sum.splits)

lemma ts_serve_doc_ok:
  assumes "codec_ok cd norm_ts_config" "ts_doc_ok env cd fs"
  shows "ts_doc_ok env cd (snd (ts_serve env cd ts_config_path os q fs))"
proof -
  obtain a fs' where "ts_serve env cd ts_config_path os q fs = (a, fs')" by fastforce
  from ts_serve_keeps [OF this assms(1)] this assms(2) show ?thesis by (simp add: ts_doc_ok_def)
qed

lemmas ts_operations_ok =
  ts_serve_doc_ok [where q = "SetGlobal g" for g, simplified] ts_serve_doc_ok [where q = "AddTsForward f" for f, simplified]
  ts_serve_doc_ok [where q = "UpdateTsForward n f" for n f, simplified]
  ts_serve_doc_ok [where q = "DeleteTsForward n" for n, simplified] ts_serve_doc_ok [where q = "AddPublish p" for p, simplified]
  ts_serve_doc_ok [where q = "UpdatePublish n p" for n p, simplified] ts_serve_doc_ok [where q = "DeletePublish n" for n, simplified]

lemma tailscale_documents:
  assumes "codec_ok cd norm_ts_config" "ts_doc_ok env cd fs"
  shows "ts_doc_ok env cd (fst (snd (ts_api env cd os w req (fs, s))))"
  using assms
  by (cases req)
    (auto simp: handle_put_tailscale_config_def tailscale_handlers Let_def
      intro: ts_operations_ok split: option.splits sum.splits if_splits)

lemma users_documents:
  assumes "codec_ok cd (\<lambda>us. us)" "bcrypt_ok bc" "\<And>us. stored_doc cd [] tu_store_path fs = Some us \<Longrightarrow> users_ok us"
    and "tu_serve env bc cd os w req (fs, s) = (r, fs', s')" "stored_doc cd [] tu_store_path fs' = Some us"
  shows "users_ok us"
  using assms(4)
proof (cases rule: tu_serve_cases)
  case (failed e)
  show ?thesis by (rule tu_operation_keeps [OF failed(1) assms(1,2) _ assms(5)]) (rule assms(3))
next
  case (applied d fs1)
  have "stored_doc cd [] tu_store_path fs1 = Some us"
    using apply_tinyauth_users_spec [OF applied(2)] assms(5) by metis
  from tu_operation_keeps [OF applied(1) assms(1,2) _ this] show ?thesis using assms(3) by blast
qed (use assms(3,5) in simp)

text \<open>The vnc registry: a settled request leaves what was saved, any other what was there.\<close>

lemma route_keeps_registry:
  "create_app env cad os a s = (r, s') \<Longrightarrow> vnc_registry cd s' = vnc_registry cd s"
  "update_app env cad os old a s = (r, s') \<Longrightarrow> vnc_registry cd s' = vnc_registry cd s"
  "delete_app cad os n s = (r, s') \<Longrightarrow> vnc_registry cd s' = vnc_registry cd s"
  using documents_elsewhere(1) [of vnc_store_path]
  by (auto intro!: vnc_registry_files keeps_out dest: app_keeps simp: document_paths_def)

lemma sync_keeps_registry:
  "sync_route (create_app env cad os) (update_app env cad os) (delete_app cad os) had wants old a s = (r, s') \<Longrightarrow>
     vnc_registry cd s' = vnc_registry cd s"
  by (auto simp: sync_route_def dest!: route_keeps_registry [where cd = cd] split: if_splits prod.splits)

text \<open>The registry is as it was, or the list just saved is a \<open>change\<close> of it.\<close>

definition registry_becomes :: "vnc_codec \<Rightarrow> string os \<Rightarrow> (target list \<Rightarrow> target list \<Rightarrow> bool) \<Rightarrow> site \<Rightarrow> site \<Rightarrow> bool" where
  "registry_becomes cd os change s s' \<longleftrightarrow>
     vnc_registry cd s' = vnc_registry cd s \<or>
     (\<exists>ts ts' s1. vnc_registry cd s = Some ts \<and> change ts ts' \<and> vnc_save cd os ts' s1 = (Inr (), s'))"

lemma registry_saved:
  "vnc_load cd os s = Inr ts \<Longrightarrow> vnc_registry cd s1 = vnc_registry cd s \<Longrightarrow> vnc_save cd os ts' s1 = (r, s') \<Longrightarrow> change ts ts' \<Longrightarrow>
     registry_becomes cd os change s s'"
  by (cases r) (auto simp: registry_becomes_def dest: vnc_store.save_failed vnc_store.load_stored)

lemma registry_kept: "vnc_registry cd s' = vnc_registry cd s \<Longrightarrow> registry_becomes cd os change s s'"
  by (simp add: registry_becomes_def)

lemma vnc_ok_becomes:
  assumes "registry_becomes cd os change s s'" "codec_ok cd (\<lambda>ts. ts)"
    and "\<And>ts. vnc_registry cd s = Some ts \<Longrightarrow> vnc_ok ts" "vnc_registry cd s' = Some us"
    and "\<And>ts ts'. vnc_ok ts \<Longrightarrow> change ts ts' \<Longrightarrow> vnc_ok ts'"
  shows "vnc_ok us"
proof -
  consider "vnc_registry cd s' = vnc_registry cd s"
    | ts ts' s1 where "vnc_registry cd s = Some ts" "change ts ts'" "vnc_save cd os ts' s1 = (Inr (), s')"
    using assms(1) unfolding registry_becomes_def by blast
  then show ?thesis
  proof cases
    case 2
    have "us = sort_key tg_name ts'" using saved_registry [OF 2(3) assms(2)] assms(4) by simp
    then show ?thesis using assms(5) [OF assms(3) [OF 2(1)] 2(2)] by (simp add: vnc_ok_def unique_sort)
  qed (use assms(3,4) in simp)
qed

definition adds :: "target \<Rightarrow> target list \<Rightarrow> target list \<Rightarrow> bool" where
  "adds t ts ts' \<longleftrightarrow> rx_match label_re (tg_name t) \<and> tg_name t \<notin> tg_name ` set ts \<and> ts' = ts @ [t]"

definition replaces :: "string \<Rightarrow> target \<Rightarrow> target list \<Rightarrow> target list \<Rightarrow> bool" where
  "replaces old t ts ts' \<longleftrightarrow> rx_match label_re (tg_name t) \<and>
     (\<exists>i. i < length ts \<and> tg_name (ts ! i) = old \<and> (tg_name t = old \<or> tg_name t \<notin> tg_name ` set ts) \<and> ts' = ts[i := t])"

definition drops :: "target list \<Rightarrow> target list \<Rightarrow> bool" where
  "drops ts ts' \<longleftrightarrow> (\<exists>i. i < length ts \<and> ts' = take i ts @ drop (Suc i) ts)"

lemma vnc_create_becomes:
  assumes "vnc_create env cad cd os t s = (r, s')"
  shows "registry_becomes cd os (adds t) s s'"
proof -
  consider "s' = s" | u ts where "vnc_validate env t = Inr u" "vnc_load cd os s = Inr ts" "index_of ts (tg_name t) = None"
    using assms by (auto simp: vnc_create_def split: sum.splits if_splits)
  then show ?thesis
  proof cases
    case 2
    obtain cr s1 where c: "(if uses_app_route t then create_app env cad os (app_of t) s else (Inr (), s)) = (cr, s1)"
      by fastforce
    obtain w s2 where sv: "vnc_save cd os (ts @ [t]) s1 = (w, s2)" by fastforce
    have s1: "vnc_registry cd s1 = vnc_registry cd s"
      using c route_keeps_registry(1) by (auto split: if_splits)
    have s2: "registry_becomes cd os (adds t) s s2"
      by (rule registry_saved [OF 2(2) s1 sv]) (use vnc_validate_name [OF 2(1)] 2(3) in \<open>simp add: adds_def index_of_None\<close>)
    show ?thesis
    proof (cases w)
      case (Inl e)
      have "vnc_registry cd s2 = vnc_registry cd s" using vnc_store.save_failed [OF sv [unfolded Inl]] s1 by simp
      moreover have "vnc_registry cd (snd (delete_app cad os (tg_name t) s2)) = vnc_registry cd s2"
        using route_keeps_registry(3) by (metis surjective_pairing)
      ultimately show ?thesis
        using assms 2 c sv Inl s1 by (auto simp: vnc_create_def intro!: registry_kept split: if_splits)
    next
      case (Inr u)
      then show ?thesis using assms 2 c sv s1 s2 by (auto simp: vnc_create_def intro: registry_kept split: if_splits)
    qed
  qed (simp add: registry_kept)
qed

lemma vnc_update_becomes:
  assumes "vnc_update env cad cd os old t s = (r, s')"
  shows "registry_becomes cd os (replaces old t) s s'"
proof -
  consider "s' = s" | u ts i where "vnc_validate env t = Inr u" "vnc_load cd os s = Inr ts" "index_of ts old = Some i"
      "\<not> (tg_name t \<noteq> old \<and> index_of ts (tg_name t) \<noteq> None)"
    using assms by (auto simp: vnc_update_def split: sum.splits if_splits option.splits)
  then show ?thesis
  proof cases
    case 2
    obtain ur s1 where c: "sync_route (create_app env cad os) (update_app env cad os) (delete_app cad os)
       (uses_app_route (ts ! i)) (uses_app_route t) old (app_of t) s = (ur, s1)" by fastforce
    obtain w s2 where sv: "vnc_save cd os (ts[i := t]) s1 = (w, s2)" by fastforce
    have s1: "vnc_registry cd s1 = vnc_registry cd s" by (rule sync_keeps_registry [OF c])
    have "registry_becomes cd os (replaces old t) s s2"
      by (rule registry_saved [OF 2(2) s1 sv])
        (use vnc_validate_name [OF 2(1)] index_of_Some [OF 2(3)] 2(4) in \<open>auto simp: replaces_def index_of_None\<close>)
    moreover have "s' = s1 \<or> s' = s2"
      using assms 2 c sv by (auto simp: vnc_update_def split: sum.splits if_splits)
    ultimately show ?thesis using registry_kept [OF s1] by blast
  qed (simp add: registry_kept)
qed

lemma vnc_delete_becomes:
  assumes "vnc_delete cad cd os n s = (r, s')"
  shows "registry_becomes cd os drops s s'"
proof -
  consider "s' = s" | ts i where "vnc_load cd os s = Inr ts" "index_of ts n = Some i"
    using assms by (auto simp: vnc_delete_def split: sum.splits option.splits)
  then show ?thesis
  proof cases
    case 2
    let ?rest = "take i ts @ drop (Suc i) ts"
    have d: "drops ts ?rest" using index_of_Some [OF 2(2)] by (auto simp: drops_def)
    obtain dr s1 where c: "(if uses_app_route (ts ! i) then delete_app cad os n s else (Inr (), s)) = (dr, s1)" by fastforce
    obtain w s2 where sv: "vnc_save cd os ?rest s1 = (w, s2)" by fastforce
    have s1: "vnc_registry cd s1 = vnc_registry cd s"
      using c route_keeps_registry(3) by (auto split: if_splits)
    have "registry_becomes cd os drops s s2" by (rule registry_saved [OF 2(1) s1 sv]) (rule d)
    moreover have "s' = s1 \<or> s' = s2"
      using assms 2 c sv by (auto simp: vnc_delete_def Let_def split: sum.splits if_splits)
    ultimately show ?thesis using registry_kept [OF s1] by blast
  qed (simp add: registry_kept)
qed

lemma vnc_ok_changes:
  assumes "vnc_ok ts"
  shows "adds t ts ts' \<Longrightarrow> vnc_ok ts'" "replaces old t ts ts' \<Longrightarrow> vnc_ok ts'" "drops ts ts' \<Longrightarrow> vnc_ok ts'"
proof -
  show "vnc_ok ts'" if "adds t ts ts'" using assms that by (auto simp: adds_def vnc_ok_def unique_keys_def)
  show "vnc_ok ts'" if "replaces old t ts ts'"
    using assms that
    by (auto simp: replaces_def vnc_ok_def intro!: update_names dest: set_update_subset_insert [THEN subsetD])
  show "vnc_ok ts'" if d: "drops ts ts'"
  proof -
    obtain i where i: "i < length ts" "ts' = take i ts @ drop (Suc i) ts" using d unfolding drops_def by blast
    have "set ts' \<subseteq> set ts" using set_take_subset [of i ts] set_drop_subset [of "Suc i" ts] by (auto simp: i(2))
    then show ?thesis using assms removed_unique [of tg_name ts i] unfolding vnc_ok_def i(2) by blast
  qed
qed

lemma registry_stays_ok:
  assumes "codec_ok cd (\<lambda>ts. ts)" "\<And>ts. vnc_registry cd s = Some ts \<Longrightarrow> vnc_ok ts"
  shows "vnc_registry cd (snd (vnc_create env cad cd os t s)) = Some us \<Longrightarrow> vnc_ok us"
    and "vnc_registry cd (snd (vnc_update env cad cd os old t s)) = Some us \<Longrightarrow> vnc_ok us"
    and "vnc_registry cd (snd (vnc_delete cad cd os n s)) = Some us \<Longrightarrow> vnc_ok us"
proof -
  show "vnc_ok us" if "vnc_registry cd (snd (vnc_create env cad cd os t s)) = Some us"
    by (rule vnc_ok_becomes [OF vnc_create_becomes [OF prod.collapse [symmetric]] assms that]) (blast intro: vnc_ok_changes)+
  show "vnc_ok us" if "vnc_registry cd (snd (vnc_update env cad cd os old t s)) = Some us"
    by (rule vnc_ok_becomes [OF vnc_update_becomes [OF prod.collapse [symmetric]] assms that]) (blast intro: vnc_ok_changes)+
  show "vnc_ok us" if "vnc_registry cd (snd (vnc_delete cad cd os n s)) = Some us"
    by (rule vnc_ok_becomes [OF vnc_delete_becomes [OF prod.collapse [symmetric]] assms that]) (blast intro: vnc_ok_changes)+
qed

lemma vnc_answer_site [simp]: "snd (vnc_answer res) = snd res"
  by (simp add: vnc_answer_def split: prod.splits sum.splits)

lemma targets_documents:
  assumes "codec_ok (d_vnc d) (\<lambda>ts. ts)" "\<And>ts. vnc_registry (d_vnc d) s = Some ts \<Longrightarrow> vnc_ok ts"
    and "vnc_registry (d_vnc d) (snd (target_api d req s)) = Some us"
  shows "vnc_ok us"
  using assms(3) registry_stays_ok [OF assms(1,2)] assms(2)
  by (cases req)
    (simp_all add: handle_create_vnc_target_def handle_update_vnc_target_def handle_delete_vnc_target_def Let_def
      split: option.splits)

lemma document_paths_distinct [simp]:
  "ts_config_path \<noteq> live_config_path" "tu_store_path \<noteq> live_config_path" "vnc_store_path \<noteq> live_config_path"
  "live_config_path \<noteq> ts_config_path" "tu_store_path \<noteq> ts_config_path" "vnc_store_path \<noteq> ts_config_path"
  "live_config_path \<noteq> tu_store_path" "ts_config_path \<noteq> tu_store_path" "vnc_store_path \<noteq> tu_store_path"
  "live_config_path \<noteq> vnc_store_path" "ts_config_path \<noteq> vnc_store_path" "tu_store_path \<noteq> vnc_store_path"
  by (simp_all add: live_config_path_def ts_config_path_def tu_store_path_def vnc_store_path_def)

lemma documents_not_tmp [simp]: "p \<in> document_paths \<Longrightarrow> q \<in> insert env_file_path document_paths \<Longrightarrow> p \<noteq> tmp_path q"
  by (auto simp: document_paths_def tmp_path_def live_config_path_def ts_config_path_def tu_store_path_def
      vnc_store_path_def env_file_path_def)

lemma documents_not_env [simp]: "p \<in> document_paths \<Longrightarrow> p \<noteq> env_file_path"
  by (auto simp: document_paths_def live_config_path_def ts_config_path_def tu_store_path_def
      vnc_store_path_def env_file_path_def)

text \<open>The part of \<open>documents_ok\<close> that the document at \<open>p\<close> makes up.\<close>

definition document_ok :: "'s deps \<Rightarrow> string \<Rightarrow> string fs \<Rightarrow> bool" where
  "document_ok d p fs \<longleftrightarrow>
     (p = live_config_path \<longrightarrow> (\<forall>c. ng_stored (d_netgate d) fs = Some c \<longrightarrow> config_ok (d_env d) c)) \<and>
     (p = ts_config_path \<longrightarrow> ts_doc_ok (d_env d) (d_tailscale d) fs) \<and>
     (p = tu_store_path \<longrightarrow> (\<forall>us. stored_doc (d_users d) [] tu_store_path fs = Some us \<longrightarrow> users_ok us)) \<and>
     (p = vnc_store_path \<longrightarrow> (\<forall>ts. stored_doc (d_vnc d) [] vnc_store_path fs = Some ts \<longrightarrow> vnc_ok ts))"

lemma documents_ok_iff: "documents_ok d fs \<longleftrightarrow> (\<forall>p \<in> document_paths. document_ok d p fs)"
  by (simp add: documents_ok_def document_ok_def document_paths_def ts_doc_ok_def)

lemma document_ok_cong: "fs' p = fs p \<Longrightarrow> document_ok d p fs' = document_ok d p fs"
  by (auto simp: document_ok_def ng_stored_def stored_doc_def ts_doc_ok_def)

text \<open>A call that is confined and leaves its own document well-formed leaves all of them so.\<close>

lemma documents_after:
  assumes "documents_ok d fs" "keeps S fs fs'" "S \<inter> document_paths \<subseteq> {p}" "document_ok d p fs'"
  shows "documents_ok d fs'"
  unfolding documents_ok_iff
proof
  fix q assume q: "q \<in> document_paths"
  show "document_ok d q fs'"
  proof (cases "q = p")
    case False
    then have "fs' q = fs q" using keeps_out [OF assms(2)] assms(3) q by blast
    then show ?thesis using assms(1) q document_ok_cong by (metis documents_ok_iff)
  qed (simp add: assms(4))
qed

lemma netgate_call_documents:
  assumes "deps_ok d" "document_ok d live_config_path (disk_of v)"
  shows "document_ok d live_config_path (disk_of (run_handler d key busy t1 t2 (NetgateCall c) v))"
proof -
  have "codec_ok (d_netgate d) norm_config" "\<And>c. ng_stored (d_netgate d) (disk_of v) = Some c \<Longrightarrow> config_ok (d_env d) c"
    using assms by (simp_all add: deps_ok_def document_ok_def)
  from netgate_documents [OF this] show ?thesis by (simp add: document_ok_def)
qed

lemma tailscale_call_documents:
  assumes "deps_ok d" "document_ok d ts_config_path (disk_of v)"
  shows "document_ok d ts_config_path (disk_of (run_handler d key busy t1 t2 (TailscaleCall c) v))"
proof -
  have "codec_ok (d_tailscale d) norm_ts_config" "ts_doc_ok (d_env d) (d_tailscale d) (disk_of v)"
    using assms by (simp_all add: deps_ok_def document_ok_def)
  from tailscale_documents [OF this, of "d_os d" "d_wire d" c "daemon v"] show ?thesis
    by (cases "ts_api (d_env d) (d_tailscale d) (d_os d) (d_wire d) c (disk_of v, daemon v)")
      (simp add: document_ok_def on_programs_def ts_doc_ok_def split: prod.splits)
qed

lemma users_call_documents:
  assumes "deps_ok d" "document_ok d tu_store_path (disk_of v)"
  shows "document_ok d tu_store_path (disk_of (run_handler d key busy t1 t2 (UsersCall c) v))"
proof -
  obtain r fs' s' where run: "tu_serve (d_env d) (d_bcrypt d) (d_users d) (d_os d) (d_wire d) c (disk_of v, daemon v) = (r, fs', s')"
    by (metis surj_pair)
  have "codec_ok (d_users d) (\<lambda>us. us)" "bcrypt_ok (d_bcrypt d)"
      "\<And>us. stored_doc (d_users d) [] tu_store_path (disk_of v) = Some us \<Longrightarrow> users_ok us"
    using assms by (simp_all add: deps_ok_def document_ok_def)
  from users_documents [OF this run] show ?thesis
    by (simp add: document_ok_def on_programs_def run)
qed

lemma target_call_documents:
  assumes "deps_ok d" "document_ok d vnc_store_path (disk_of v)"
  shows "document_ok d vnc_store_path (disk_of (run_handler d key busy t1 t2 (TargetCall c) v))"
proof -
  let ?s = "\<lparr>files = disk_of v, live = live_config v\<rparr>"
  have "codec_ok (d_vnc d) (\<lambda>ts. ts)" "\<And>ts. vnc_registry (d_vnc d) ?s = Some ts \<Longrightarrow> vnc_ok ts"
    using assms by (simp_all add: deps_ok_def document_ok_def vnc_registry_def)
  from targets_documents [of d ?s, OF this, where req = c] show ?thesis
    by (simp add: document_ok_def on_site_def Let_def vnc_registry_def)
qed

lemma with_tmp_documents: "p \<in> insert env_file_path document_paths \<Longrightarrow> with_tmp p \<inter> document_paths \<subseteq> {p}"
  using documents_not_tmp [of "tmp_path p" p] by (auto simp: with_tmp_def)

lemma document_members [simp]:
  "live_config_path \<in> document_paths" "ts_config_path \<in> document_paths" "tu_store_path \<in> document_paths"
  "vnc_store_path \<in> document_paths"
  by (simp_all add: document_paths_def)

lemma footprint_documents:
  "footprint d store (NetgateCall c1) \<inter> document_paths \<subseteq> {live_config_path}"
  "footprint d store (TailscaleCall c2) \<inter> document_paths \<subseteq> {ts_config_path}"
  "footprint d store (UsersCall c3) \<inter> document_paths \<subseteq> {tu_store_path}"
  "footprint d store (TargetCall c4) \<inter> document_paths \<subseteq> {vnc_store_path}"
proof -
  have docs: "with_tmp p \<inter> document_paths \<subseteq> {p}" if "p \<in> document_paths" for p
    using with_tmp_documents that by blast
  have env: "with_tmp env_file_path \<inter> document_paths = {}"
    using with_tmp_documents [of env_file_path] documents_not_env by blast
  have caddy: "caddy_files \<inter> document_paths = {}" using documents_elsewhere(1) by blast
  show "footprint d store (NetgateCall c1) \<inter> document_paths \<subseteq> {live_config_path}"
    "footprint d store (TailscaleCall c2) \<inter> document_paths \<subseteq> {ts_config_path}"
    using docs by simp_all
  show "footprint d store (UsersCall c3) \<inter> document_paths \<subseteq> {tu_store_path}"
    "footprint d store (TargetCall c4) \<inter> document_paths \<subseteq> {vnc_store_path}"
    using docs [of tu_store_path] docs [of vnc_store_path] env caddy
    by (simp_all add: users_files_def vnc_files_def Int_Un_distrib2)
qed

lemma run_handler_documents:
  assumes "deps_ok d" "with_tmp (store_path (the_gate (auth v))) \<inter> document_paths = {}" "documents_ok d (disk_of v)"
  shows "documents_ok d (disk_of (run_handler d key busy t1 t2 ac v))"
proof -
  let ?v = "run_handler d key busy t1 t2 ac v" and ?own = "footprint d (store_path (the_gate (auth v))) ac"
  note k = run_handler_keeps [of d v ac key busy t1 t2]
  have ok: "document_ok d p (disk_of v)" if "p \<in> document_paths" for p
    using that assms(3) by (simp add: documents_ok_iff)
  have "?own \<inter> document_paths = {} \<or> (\<exists>p. ?own \<inter> document_paths \<subseteq> {p} \<and> document_ok d p (disk_of ?v))"
  proof (cases ac)
    case (NetgateCall c)
    show ?thesis unfolding NetgateCall
      by (intro disjI2 exI conjI, rule footprint_documents, rule netgate_call_documents [OF assms(1) ok], simp)
  next
    case (TailscaleCall c)
    show ?thesis unfolding TailscaleCall
      by (intro disjI2 exI conjI, rule footprint_documents, rule tailscale_call_documents [OF assms(1) ok], simp)
  next
    case (UsersCall c)
    show ?thesis unfolding UsersCall
      by (intro disjI2 exI conjI, rule footprint_documents, rule users_call_documents [OF assms(1) ok], simp)
  next
    case (TargetCall c)
    show ?thesis unfolding TargetCall
      by (intro disjI2 exI conjI, rule footprint_documents, rule target_call_documents [OF assms(1) ok], simp)
  qed (use assms(1,2) documents_elsewhere in \<open>auto simp: deps_ok_def\<close>)
  then show ?thesis
    using documents_apart [OF k, where d = d] documents_after [OF assms(3) k] assms(3) by blast
qed

section \<open>A served history\<close>

lemma setup_store_path:
  "setup_password w token pw salt random (g, fs) = (r, g', fs') \<Longrightarrow> store_path g' = store_path g"
  by (auto simp: setup_password_def split: if_splits sum.splits prod.splits)

lemma handle_setup_store_path:
  assumes "handle_auth_setup w body salt random (g, fs) = (x, a, g', fs')"
  shows "store_path g' = store_path g"
proof (cases "\<exists>token password. body = Some (token, password) \<and> password \<noteq> []")
  case True
  then obtain token password where b: "body = Some (token, password)" "password \<noteq> []" by blast
  obtain a1 g1 where an: "announce_setup_token w fs g = (a1, g1)" by (meson surj_pair)
  obtain y g2 fs2 where st: "setup_password w token password salt random (g1, fs) = (y, g2, fs2)"
    by (metis surj_pair)
  have "g' = g2" using assms b an st by (auto simp: handle_auth_setup_def Let_def split: sum.splits)
  then show ?thesis using setup_store_path [OF st] announce_setup_token_gate [OF an] by simp
next
  case False
  then show ?thesis using assms by (auto simp: handle_auth_setup_def split: option.splits)
qed

lemma change_store_path:
  "change_password w key cur new salt busy t1 t2 (g, fs) = (r, g', fs') \<Longrightarrow> store_path g' = store_path g"
  by (auto simp: change_password_def Let_def split: if_splits sum.splits prod.splits option.splits)

lemma handle_change_store_path:
  "handle_auth_change w key body salt busy t1 t2 (g, fs) = (x, g', fs') \<Longrightarrow> store_path g' = store_path g"
  by (auto simp: handle_auth_change_def dest: change_store_path split: option.splits if_splits prod.splits sum.splits)

lemma unlock_store_path:
  "try_unlock w mac fs key pw busy t1 t2 g = (r, g') \<Longrightarrow> store_path g' = store_path g"
  by (auto simp: try_unlock_def Let_def split: if_splits sum.splits option.splits)

abbreviation credential_of :: "'s server \<Rightarrow> string" where
  "credential_of v \<equiv> store_path (the_gate (auth v))"

lemma run_handler_credential: "credential_of (run_handler d key busy t1 t2 ac v) = credential_of v"
proof (cases ac)
  case AuthStatusCall
  obtain a g where an: "announce_setup_token (d_gate d) (disk_of v) (the_gate (auth v)) = (a, g)" by (meson surj_pair)
  show ?thesis using announce_setup_token_gate [OF an] by (simp add: AuthStatusCall an)
next
  case (UnlockCall body)
  then show ?thesis
    by (auto simp: after_unlock_def dest: unlock_store_path split: option.splits prod.splits sum.splits)
next
  case (SetupCall body salt random)
  then show ?thesis by (auto dest: handle_setup_store_path split: prod.splits)
next
  case (ChangeCall body salt)
  then show ?thesis by (auto dest: handle_change_store_path split: prod.splits)
qed (simp_all add: on_site_def on_programs_def Let_def split: prod.splits sum.splits)

text \<open>What holds of the disk and the credential's path after every handler holds after every request.\<close>

lemma request_as_handler:
  obtains w where "disk_of w = disk_of v" "credential_of w = credential_of v"
    "disk_of (process_request d req key busy t1 t2 t3 t4 t5 t6 ac v) = disk_of (run_handler d key busy t5 t6 ac w)"
    "credential_of (process_request d req key busy t1 t2 t3 t4 t5 t6 ac v) = credential_of v"
  | "disk_of (process_request d req key busy t1 t2 t3 t4 t5 t6 ac v) = disk_of v"
    "credential_of (process_request d req key busy t1 t2 t3 t4 t5 t6 ac v) = credential_of v"
proof (cases "new_handler (d_gate d) (d_mac d) (the_gate (auth v)) (disk_of v) req t1 t2 t3 t4")
  case (Reached r vs c)
  define v1 where "v1 = (if gated r
    then v\<lparr>auth := after_request (refresh_payload (d_mac d) (unlock_value req) t3 t4) t4 (auth v)\<rparr> else v)"
  have v1: "disk_of v1 = disk_of v" "credential_of v1 = credential_of v"
    by (simp_all add: v1_def after_request_def split: option.splits)
  have p: "process_request d req key busy t1 t2 t3 t4 t5 t6 ac v =
      tick t6 (if decodes (handler r) ac then run_handler d key busy t5 t6 ac v1 else v1)"
    by (simp add: process_request_def Reached v1_def)
  show ?thesis
  proof (cases "decodes (handler r) ac")
    case True
    then show ?thesis using that(1) [of v1] v1 by (simp add: p tick_def run_handler_credential)
  next
    case False
    then show ?thesis using that(2) v1 by (simp add: p tick_def)
  qed
qed (use that(2) in \<open>simp_all add: process_request_def tick_def\<close>)

text \<open>
  What may fail, and how: the system calls of the gate, of the DNS package and of the rest, Caddy, the programs
  supervisord runs, and \<open>tailscale status\<close>.  It is another one with every request.
\<close>

record 's faults =
  f_gate_os :: "string os"
  f_dns_os :: "string os"
  f_os :: "string os"
  f_caddy :: caddy
  f_wire :: "string fs \<Rightarrow> 's wire"
  f_status :: "string \<Rightarrow> status_raw option"

definition with_faults :: "'s faults \<Rightarrow> 's deps \<Rightarrow> 's deps" where
  "with_faults f d =
     d\<lparr>d_gate := (d_gate d)\<lparr>gate_os := f_gate_os f\<rparr>, d_dns := (d_dns d)\<lparr>dp_os := f_dns_os f\<rparr>, d_os := f_os f,
       d_caddy := f_caddy f, d_wire := f_wire f, d_status := f_status f\<rparr>"

definition own_faults :: "'s deps \<Rightarrow> 's faults" where
  "own_faults d = \<lparr>f_gate_os = gate_os (d_gate d), f_dns_os = dp_os (d_dns d), f_os = d_os d, f_caddy = d_caddy d,
     f_wire = d_wire d, f_status = d_status d\<rparr>"

lemma with_own_faults: "with_faults (own_faults d) d = d"
  by (simp add: with_faults_def own_faults_def)

lemma with_faults_documents [simp]:
  "deps_ok (with_faults f d) = deps_ok d" "documents_ok (with_faults f d) fs = documents_ok d fs"
  by (simp_all add: with_faults_def deps_ok_def documents_ok_def)

text \<open>
  The life of a server that serves: requests, each with its own faults, the repair of the fragments (its passes over
  the two directories, each with its own disk; the reloads after them are among the rest), and whatever happens beside
  them that leaves the documents alone.
\<close>

inductive working :: "'s deps \<Rightarrow> 's server \<Rightarrow> 's server \<Rightarrow> bool" for d v0 where
  now: "working d v0 v0"
| request: "working d v0 v \<Longrightarrow> working d v0 (process_request (with_faults f d) req key busy t1 t2 t3 t4 t5 t6 ac v)"
| repair_exposes: "working d v0 v \<Longrightarrow> working d v0 (set_disk (snd (normalize_exposes os ls (disk_of v))) v)"
| repair_apps: "working d v0 v \<Longrightarrow> working d v0 (set_disk (snd (normalize_apps os ls (disk_of v))) v)"
| aside:
    "working d v0 v \<Longrightarrow> keeps (- document_paths) (disk_of v) fs \<Longrightarrow>
     working d v0
       \<lparr>auth = (auth v)\<lparr>disk := fs, clock := t\<rparr>, live_config = l, daemon = s, ts_login = m, signalled = k, sockets_hub = h\<rparr>"

lemma repair_entry_keeps:
  assumes "has_suffix n ''.caddy''" "repair_entry parse render os dir n fs = (r, fs')"
  shows "keeps caddy_files fs fs'"
proof -
  obtain m where "n = m @ ''.caddy''" using assms(1) by (auto simp: has_suffix_iff)
  then have "path_join dir n \<in> caddy_files" by (simp add: caddy_files_def path_join_extension)
  then have "write_file os (path_join dir n) c 0x1A4 fs = (w, fs1) \<Longrightarrow> keeps caddy_files fs fs1" for c w fs1
    unfolding keeps_def using write_file_frame by metis
  then show ?thesis
    using assms(2)
    by (auto simp: repair_entry_def Let_def split: read_result.splits option.splits if_splits prod.splits sum.splits)
qed

lemma normalize_keeps: "keeps caddy_files fs (snd (normalize_fragments parse render os dir ls fs))"
proof -
  have "keeps caddy_files fs (snd (normalize_entries parse render os dir es fs))" for es
  proof (induction es arbitrary: fs)
    case (Cons e es)
    obtain n isdir where e: "e = (n, isdir)" by fastforce
    obtain r fs1 where r: "repair_entry parse render os dir n fs = (r, fs1)" by fastforce
    show ?case
      using Cons.IH [of fs] Cons.IH [of fs1] repair_entry_keeps [OF _ r]
      by (auto simp: e r split: sum.splits prod.splits intro: keeps_trans)
  qed simp
  then show ?thesis by (simp add: normalize_fragments_def split: listing.splits)
qed

lemma repair_documents: "documents_ok d (snd (normalize_fragments parse render os dir ls fs)) = documents_ok d fs"
  by (rule documents_apart [OF normalize_keeps]) (use documents_elsewhere(1) in blast)

lemma working_documents:
  assumes "working d v0 v" "deps_ok d" "with_tmp (credential_of v0) \<inter> document_paths = {}" "documents_ok d (disk_of v0)"
  shows "documents_ok d (disk_of v) \<and> credential_of v = credential_of v0"
  using assms(1)
proof induction
  case now
  then show ?case using assms(4) by simp
next
  case (request v f req key busy t1 t2 t3 t4 t5 t6 ac)
  let ?d = "with_faults f d"
  have ok: "deps_ok ?d" using assms(2) by simp
  show ?case
  proof (rule request_as_handler [of v ?d req key busy t1 t2 t3 t4 t5 t6 ac])
    fix w :: "'a server"
    assume w: "disk_of w = disk_of v" "credential_of w = credential_of v"
    from run_handler_documents [OF ok, of w key busy t5 t6 ac] w
    have "documents_ok d (disk_of (run_handler ?d key busy t5 t6 ac w))" using request.IH assms(3) by simp
    then show "disk_of (process_request ?d req key busy t1 t2 t3 t4 t5 t6 ac v) = disk_of (run_handler ?d key busy t5 t6 ac w) \<Longrightarrow>
      credential_of (process_request ?d req key busy t1 t2 t3 t4 t5 t6 ac v) = credential_of v \<Longrightarrow> ?case"
      using request.IH by simp
  qed (use request.IH in simp_all)
next
  case (repair_exposes v os ls)
  then show ?case by (simp add: normalize_exposes_def repair_documents)
next
  case (repair_apps v os ls)
  then show ?case by (simp add: normalize_apps_def repair_documents)
next
  case (aside v fs t l s m k h)
  have "- document_paths \<inter> document_paths = {}" by simp
  from documents_apart [OF aside.hyps(2) this, where d = d] aside.IH show ?case by simp
qed

text \<open>The paths the environment names, the credential's and the socket's, are no document's.\<close>

definition paths_apart :: "'s deps \<Rightarrow> launch \<Rightarrow> bool" where
  "paths_apart d x \<longleftrightarrow>
     with_tmp (store_path (start_gate (d_env d) (l_etc_environment x) (l_random x))) \<inter> document_paths = {} \<and>
     (case listen_choice (d_env d) of TcpOn _ \<Rightarrow> True | UnixAt p \<Rightarrow> p \<notin> document_paths)"

lemma start_up_parts:
  assumes "start_up d etc random now container_log fs l s = (v, out)"
  shows "disk_of v = snd (ensure_seeded (d_os d) fs)" "credential_of v = store_path (start_gate (d_env d) etc random)"
proof -
  obtain token g1 where an: "announce_setup_token (d_gate d) fs (start_gate (d_env d) etc random) = (token, g1)" by fastforce
  show "disk_of v = snd (ensure_seeded (d_os d) fs)" "credential_of v = store_path (start_gate (d_env d) etc random)"
    using assms announce_setup_token_gate [OF an] by (auto simp: start_up_def an boot_def)
qed

lemma listen_keeps:
  assumes "listen refuses os env fs = (Inr on, fs')" "p \<in> document_paths"
    and "case listen_choice env of TcpOn _ \<Rightarrow> True | UnixAt q \<Rightarrow> q \<notin> document_paths"
  shows "fs' p = fs p"
  using assms by (auto simp: listen_def Let_def remove_def chmod_def split: listener.splits if_splits option.splits)

lemma main_documents:
  assumes "main_run d x now container_log fs l s = Serves on v0 out" "paths_apart d x"
    and "documents_ok d (snd (ensure_seeded (d_os d) fs))"
  shows "documents_ok d (disk_of v0) \<and> with_tmp (credential_of v0) \<inter> document_paths = {}"
proof (rule main_serves [OF assms(1)])
  fix v1 :: "'a server"
  assume st: "start_up d (l_etc_environment x) (l_random x) now container_log fs l s = (v1, out)"
    and li: "listen (l_refuses x) (d_os d) (d_env d) (disk_of v1) = (Inr on, disk_of v0)" and v0: "v0 = set_disk (disk_of v0) v1"
  have "disk_of v0 p = snd (ensure_seeded (d_os d) fs) p" if "p \<in> document_paths" for p
    using listen_keeps [OF li that] assms(2) start_up_parts(1) [OF st] by (simp add: paths_apart_def)
  then have "documents_ok d (disk_of v0)" using assms(3) documents_untouched by blast
  moreover have "credential_of v0 = credential_of v1" by (subst v0) simp
  ultimately show ?thesis using assms(2) start_up_parts(2) [OF st] by (simp add: paths_apart_def)
qed

text \<open>
  C4.  The documents stay well-formed for as long as the server runs.  When \<open>main\<close> starts on well-formed documents (the
  netgate seed among them) and their paths are no other file's, then after every sequence of requests, whatever their
  contents, each with failures of its own of the disk, of Caddy and of the programs, and with the repair of the
  fragments running between them, what netgate, Tailscale, tinyauth and vnc read back is a well-formed document.
  (Their codecs are relied on to read back what they wrote, and bcrypt to return no comma.)
\<close>

theorem documents_stay_ok:
  assumes "main_run d x now container_log fs l s = Serves on v0 out" "working d v0 v"
    and "deps_ok d" "paths_apart d x" "documents_ok d (snd (ensure_seeded (d_os d) fs))"
  shows "documents_ok d (disk_of v)"
  using working_documents [OF assms(2,3)] main_documents [OF assms(1,4,5)] by blast

text \<open>A server with its password in the environment, started on a disk with netgate's document, that is asked to add a user.\<close>

definition one_codec :: "'c \<Rightarrow> ('c, string) codec" where
  "one_codec z = \<lparr>marshal = (\<lambda>c. if c = z then Some ''{}'' else None), unmarshal = (\<lambda>b. if b = ''{}'' then Some z else None)\<rparr>"

lemma codec_ok_one: "norm z = z \<Longrightarrow> codec_ok (one_codec z) norm"
  by (simp add: codec_ok_def one_codec_def)

definition pinned_env :: env where
  "pinned_env k =
     (if k = auth_hash_var then sample_hash else if k = ''ROUTER_MANAGER_ADDR'' then ''127.0.0.1:80'' else [])"

definition users_deps :: "unit deps" where
  "users_deps = sample_deps\<lparr>d_env := pinned_env, d_netgate := one_codec (norm_config sample_config), d_tailscale := one_codec (norm_ts_config empty_ts_config), d_vnc := sample_codec,
     d_users := line_codec, d_bcrypt := toy_hash\<rparr>"

definition users_launch :: launch where
  "users_launch = \<lparr>l_args = [''router-manager''], l_terminal = Piped None, l_salt = None, l_kdf = toy_kdf, l_template = None,
     l_stdin = None, l_migrate = (\<lambda>_ _. []), l_etc_environment = None, l_random = ''q'', l_refuses = (\<lambda>_. False)\<rparr>"

definition start_fs :: "string fs" where
  "start_fs = [live_config_path \<mapsto> \<lparr>contents = ''{}'', perm = 0x1A4\<rparr>]"

definition users_server :: "unit server" where
  "users_server =
     \<lparr>auth = boot (new_gate sample_hash (auth_store_path pinned_env) ''q'') start_fs 0, live_config = Map.empty,
      daemon = (), ts_login = new_login_manager, signalled = {}, sockets_hub = empty_hub\<rparr>"

definition add_request :: http_request where
  "add_request = operator_request\<lparr>req_method := ''POST'', req_path := ''/api/tinyauth/users''\<rparr>"

lemma add_request_routed:
  "find_handler new_mux (req_method add_request) (req_path add_request) =
     Routed (behind_gate ''POST /api/tinyauth/users'' ''handleAddTinyauthUser'') []"
  "cross_origin_ok add_request"
  by code_simp+

lemma users_deps_simps [simp]:
  "d_env users_deps = pinned_env" "d_gate users_deps = sample_ext" "d_mac users_deps = id" "d_os users_deps = quiet_os"
  "d_netgate users_deps = one_codec (norm_config sample_config)" "d_tailscale users_deps = one_codec (norm_ts_config empty_ts_config)"
  "d_vnc users_deps = sample_codec" "d_users users_deps = line_codec" "d_bcrypt users_deps = toy_hash"
  "d_wire users_deps = (\<lambda>_. calm_wire)" "dismiss_path (d_version users_deps) = ''/d''"
  by (simp_all add: users_deps_def sample_deps_def)

lemma pinned_env_simps [simp]:
  "pinned_env ''ROUTER_MANAGER_ADDR'' = ''127.0.0.1:80''" "pinned_env auth_hash_var = sample_hash"
  "pinned_env ''TINYAUTH_AUTH_USERS'' = []" "pinned_env ''ROUTER_MANAGER_AUTH_STORE_PATH'' = []"
  by (simp_all add: pinned_env_def auth_hash_var_def)

lemma users_deps_ok: "deps_ok users_deps"
proof -
  have "norm_config (norm_config sample_config) = norm_config sample_config"
    by (simp add: norm_config_def sample_config_def with_services_def)
  moreover have "norm_ts_config (norm_ts_config empty_ts_config) = norm_ts_config empty_ts_config"
    by (simp add: norm_ts_config_def empty_ts_config_def)
  moreover have "with_tmp ''/d'' \<inter> document_paths = {}"
    by (simp add: with_tmp_def document_paths_def tmp_path_def live_config_path_def ts_config_path_def tu_store_path_def
        vnc_store_path_def)
  ultimately show ?thesis by (simp add: deps_ok_def codec_ok_one sample_codec_ok codec_ok_lines bcrypt_ok_toy)
qed

lemma users_launched:
  "main_run users_deps users_launch 0 None start_fs Map.empty () = Serves (TcpOn ''127.0.0.1:80'') users_server None"
  "paths_apart users_deps users_launch" "documents_ok users_deps (snd (ensure_seeded (d_os users_deps) start_fs))"
proof -
  have g: "start_gate pinned_env None ''q'' = new_gate sample_hash (auth_store_path pinned_env) ''q''"
    by (simp add: start_gate_def auth_password_hash_def etc_environment_defines_def)
  have ng: "config_ok pinned_env (norm_config sample_config)"
    using sample_config_ok by (simp add: config_ok_defs norm_config_def sample_config_def)
  have seed: "snd (ensure_seeded quiet_os start_fs) = start_fs"
    by (simp add: ensure_seeded_def stat_ok_def start_fs_def)
  have "announce_setup_token sample_ext start_fs (new_gate sample_hash p ''q'') = (None, new_gate sample_hash p ''q'')" for p
    by (simp add: announce_setup_token_def configured_def current_hash_def new_gate_def)
  moreover have "listen (\<lambda>_. False) quiet_os pinned_env start_fs = (Inr (TcpOn ''127.0.0.1:80''), start_fs)"
    by (simp add: listen_def listen_choice_def)
  ultimately show "main_run users_deps users_launch 0 None start_fs Map.empty () =
      Serves (TcpOn ''127.0.0.1:80'') users_server None"
    by (simp add: main_run_def users_launch_def command_of_def start_up_def g seed users_server_def boot_def)
  show "paths_apart users_deps users_launch"
    by (simp add: paths_apart_def users_launch_def g listen_choice_def new_gate_def auth_store_path_def env_or_def
        with_tmp_def document_paths_def tmp_path_def live_config_path_def ts_config_path_def tu_store_path_def vnc_store_path_def)
  show "documents_ok users_deps (snd (ensure_seeded (d_os users_deps) start_fs))"
    unfolding users_deps_simps seed
    using ng by (simp add: start_fs_def documents_ok_def ng_stored_def stored_doc_def one_codec_def ts_ok_def
        users_ok_def vnc_ok_def unique_keys_def empty_ts_config_def)
qed

text \<open>The file the addition leaves: the user with her hash.\<close>

definition ann :: "tu_user list" where
  "ann = [\<lparr>tu_name = ''ann'', tu_hash = ''$x''\<rparr>]"

lemma ann_saved:
  assumes "fs tu_store_path = None"
  obtains fs1 where "add_user toy_hash line_codec quiet_os tu_store_path ''ann'' ''x'' fs = (Inr (), fs1)"
    "stored_doc line_codec [] tu_store_path fs1 = Some ann"
proof -
  have names: "check_new_user ''ann'' ''x'' = Inr ()" by code_simp
  have "NL \<notin> set ''ann''" "NL \<notin> set ''$x''" by code_simp+
  then have m: "marshal line_codec ann = Some (text_of (pair_lines (user_pairs ann)))"
    by (intro line_codec_marshal) (simp add: ann_def pair_lines_def user_pairs_def)
  obtain fs1 where sv: "tu_save line_codec quiet_os tu_store_path ann fs = (Inr (), fs1)"
    by (simp add: tu_save_eq [OF m] credential_write_quiet)
  have "tu_load line_codec quiet_os tu_store_path fs = Inr []"
    using assms by (simp add: tu_load_def load_doc_quiet stored_doc_def)
  moreover have "put_user toy_hash ''ann'' ''x'' [] = Inr (ann, ())" by (simp add: put_user_def toy_hash_def ann_def)
  ultimately have "add_user toy_hash line_codec quiet_os tu_store_path ''ann'' ''x'' fs = (Inr (), fs1)"
    using sv by (simp add: add_user_def checked_modify_def names modify_doc_def)
  moreover have "stored_doc line_codec [] tu_store_path fs1 = Some ann"
    using tu_save_ok [OF sv] m codec_ok_lines by (simp add: reread_doc_def codec_ok_def)
  ultimately show ?thesis using that by blast
qed

lemma ann_added:
  assumes "tu_serve pinned_env toy_hash line_codec quiet_os (\<lambda>_. calm_wire) (AddTuUser (Some (''ann'', ''x''))) (fs, ()) = (r, fs', s')"
    and "fs tu_store_path = None"
  shows "stored_doc line_codec [] tu_store_path fs' = Some ann"
proof (rule ann_saved [of fs, OF assms(2)])
  fix fs1
  assume add: "add_user toy_hash line_codec quiet_os tu_store_path ''ann'' ''x'' fs = (Inr (), fs1)"
    and st: "stored_doc line_codec [] tu_store_path fs1 = Some ann"
  have "apply_tinyauth_users line_codec quiet_os (\<lambda>_. calm_wire) (201, Body (UserAnswer ''ann'' False)) (fs1, ()) = (r, fs', s')"
    using assms(1) by (simp add: handle_add_tinyauth_user_def tinyauth_pinned_def add)
  from apply_tinyauth_users_spec [OF this] st show ?thesis by simp
qed

lemma add_request_admitted:
  "\<exists>c. new_handler sample_ext id (the_gate (auth users_server)) start_fs add_request
      (600 * second) (600 * second) (600 * second) (600 * second) =
     Reached \<lparr>gated = True, handler = ''handleAddTinyauthUser''\<rparr> [] c"
proof -
  have "\<exists>c. require_password sample_ext id (the_gate unlocked_service) (disk unlocked_service)
      (unlock_value add_request) (600 * second) (600 * second) (600 * second) (600 * second) = Admit (Some c)"
    using unlocked_service_admits by (simp add: add_request_def operator_request_def)
  moreover have "configured sample_ext (the_gate (auth users_server)) start_fs"
    by (simp add: configured_def current_hash_def users_server_def boot_def new_gate_def)
  ultimately have "\<exists>c. require_password sample_ext id (the_gate (auth users_server)) start_fs
      (unlock_value add_request) (600 * second) (600 * second) (600 * second) (600 * second) = Admit (Some c)"
    by (auto simp: require_password_def split: if_splits)
  then show ?thesis by (auto simp: new_handler_def add_request_routed behind_gate_def)
qed

theorem documents_stay_ok_witness:
  "\<exists>v. working users_deps users_server v \<and> documents_ok users_deps (disk_of v) \<and>
     stored_doc line_codec [] tu_store_path (disk_of v) = Some ann"
proof -
  let ?t = "600 * second" and ?call = "UsersCall (AddTuUser (Some (''ann'', ''x'')))"
  let ?v = "process_request users_deps add_request ''k'' False ?t ?t ?t ?t ?t ?t ?call users_server"
  obtain c where reached: "new_handler sample_ext id (the_gate (auth users_server)) start_fs add_request ?t ?t ?t ?t =
      Reached \<lparr>gated = True, handler = ''handleAddTinyauthUser''\<rparr> [] c"
    using add_request_admitted by blast
  obtain r fs' s' where run: "tu_serve pinned_env toy_hash line_codec quiet_os (\<lambda>_. calm_wire)
      (AddTuUser (Some (''ann'', ''x''))) (start_fs, ()) = (r, fs', s')"
    by (metis surj_pair)
  have "disk (auth users_server) = start_fs" "daemon users_server = ()" by (simp_all add: users_server_def boot_def)
  then have "disk_of ?v = fs'"
    using reached run
    by (simp add: process_request_def tick_def on_programs_def after_request_def del: tu_serve.simps split: option.splits)
  then have "stored_doc line_codec [] tu_store_path (disk_of ?v) = Some ann" using ann_added [OF run] by (simp add: start_fs_def)
  moreover have w: "working users_deps users_server ?v"
    using working.request [OF working.now, of users_deps users_server "own_faults users_deps"]
    by (simp only: with_own_faults)
  moreover have "documents_ok users_deps (disk_of ?v)"
    by (rule documents_stay_ok [OF users_launched(1) w users_deps_ok users_launched(2,3)])
  ultimately show ?thesis by blast
qed

end
