(* ===== verification/Vnc_Bridge.thy ===== *)
theory Vnc_Bridge
  imports Vnc_Socket "HOL-Library.Sublist"
begin

text \<open>
  What happens inside a bridge, from the registration of its client to the end of \<open>handleVncSocket\<close>: two \<open>io.Copy\<close>, one
  in a goroutine of its own, between the browser's WebSocket and the target's connection, and the end they come to.
\<close>

section \<open>One copy\<close>

text \<open>
  \<open>io.Copy\<close> reads a chunk of at most 32 KiB and writes it, until a read finds the end of its source or fails, or a write
  fails; a failed write may have passed on a part of its chunk.  A pipe is one direction: what its source has \<open>sent\<close> (a
  ghost), what of it is \<open>unread\<close>, whether the source \<open>ended\<close>, what its sink \<open>received\<close>, and whether the sink takes more
  at the moment (\<open>taking\<close>).  Of a source whose context is \<open>cancelled\<close> nothing more is read (\<open>websocket.NetConn\<close>: when
  the context is cancelled, all reads are).
\<close>

datatype copy_end = SourceEnded | ReadFailed | WriteFailed

datatype copying = Reading | Writing string | Copied copy_end

record pipe =
  sent :: string
  unread :: string
  ended :: bool
  received :: string
  taking :: bool
  copy :: copying

definition copy_buffer :: nat where "copy_buffer = 32768"

inductive copy_step :: "bool \<Rightarrow> bool \<Rightarrow> bool \<Rightarrow> pipe \<Rightarrow> pipe \<Rightarrow> bool" for cancelled source_lost sink_lost where
  read_chunk:
    "copy p = Reading \<Longrightarrow> \<not> cancelled \<Longrightarrow> unread p = chunk @ rest \<Longrightarrow> chunk \<noteq> [] \<Longrightarrow> length chunk \<le> copy_buffer \<Longrightarrow>
     copy_step cancelled source_lost sink_lost p (p\<lparr>unread := rest, copy := Writing chunk\<rparr>)"
| read_end:
    "copy p = Reading \<Longrightarrow> unread p = [] \<Longrightarrow> ended p \<Longrightarrow>
     copy_step cancelled source_lost sink_lost p (p\<lparr>copy := Copied SourceEnded\<rparr>)"
| read_fails:
    "copy p = Reading \<Longrightarrow> source_lost \<or> cancelled \<Longrightarrow>
     copy_step cancelled source_lost sink_lost p (p\<lparr>copy := Copied ReadFailed\<rparr>)"
| write_chunk:
    "copy p = Writing chunk \<Longrightarrow> taking p \<Longrightarrow>
     copy_step cancelled source_lost sink_lost p (p\<lparr>received := received p @ chunk, copy := Reading\<rparr>)"
| write_fails:
    "copy p = Writing (part @ rest) \<Longrightarrow> sink_lost \<Longrightarrow>
     copy_step cancelled source_lost sink_lost p (p\<lparr>received := received p @ part, copy := Copied WriteFailed\<rparr>)"

text \<open>What the two ends of a pipe do by themselves: send more, end, take more or no more.\<close>

inductive peer_step :: "bool \<Rightarrow> pipe \<Rightarrow> pipe \<Rightarrow> bool" for source_lost where
  sends: "\<not> ended p \<Longrightarrow> \<not> source_lost \<Longrightarrow> peer_step source_lost p (p\<lparr>sent := sent p @ bs, unread := unread p @ bs\<rparr>)"
| ends: "peer_step source_lost p (p\<lparr>ended := True\<rparr>)"
| takes: "peer_step source_lost p (p\<lparr>taking := b\<rparr>)"

definition empty_pipe :: pipe where
  "empty_pipe = \<lparr>sent = [], unread = [], ended = False, received = [], taking = True, copy = Reading\<rparr>"

text \<open>Nothing is lost, doubled or reordered before the copy ends, and nothing at all when it ends with its source.\<close>

fun in_hand :: "copying \<Rightarrow> string" where
  "in_hand (Writing chunk) = chunk"
| "in_hand _ = []"

definition pipe_ok :: "pipe \<Rightarrow> bool" where
  "pipe_ok p \<longleftrightarrow>
     (if copy p \<in> {Copied ReadFailed, Copied WriteFailed} then prefix (received p) (sent p)
      else sent p = received p @ in_hand (copy p) @ unread p) \<and>
     (copy p = Copied SourceEnded \<longrightarrow> ended p \<and> unread p = [])"

lemma pipe_ok_empty: "pipe_ok empty_pipe"
  by (simp add: pipe_ok_def empty_pipe_def)

lemma pipe_ok_copy: "copy_step x a b p p' \<Longrightarrow> pipe_ok p \<Longrightarrow> pipe_ok p'"
  by (induction rule: copy_step.induct) (auto simp: pipe_ok_def)

lemma pipe_ok_peer: "peer_step a p p' \<Longrightarrow> pipe_ok p \<Longrightarrow> pipe_ok p'"
  by (induction rule: peer_step.induct) (auto simp: pipe_ok_def)

lemma pipe_ok_prefix: "pipe_ok p \<Longrightarrow> prefix (received p) (sent p)"
  by (auto simp: pipe_ok_def split: if_splits)

lemma pipe_ok_complete: "pipe_ok p \<Longrightarrow> copy p = Copied SourceEnded \<Longrightarrow> received p = sent p"
  by (simp add: pipe_ok_def)

text \<open>Each step of a copy uses up some of its work, and a copy waits only for its source or its sink.\<close>

fun steps_left :: "copying \<Rightarrow> nat" where
  "steps_left Reading = 1"
| "steps_left (Writing _) = 2"
| "steps_left (Copied _) = 0"

definition copy_work :: "pipe \<Rightarrow> nat" where
  "copy_work p = 2 * length (unread p) + steps_left (copy p)"

lemma steps_left_bound: "steps_left c \<le> 2"
  by (cases c) simp_all

lemma copy_work_less: "copy_step x a b p p' \<Longrightarrow> copy_work p' < copy_work p"
proof (induction rule: copy_step.induct)
  case (read_chunk p chunk rest)
  then show ?case by (cases chunk) (simp_all add: copy_work_def)
qed (simp_all add: copy_work_def)

definition copy_waits :: "bool \<Rightarrow> bool \<Rightarrow> bool \<Rightarrow> pipe \<Rightarrow> bool" where
  "copy_waits cancelled source_lost sink_lost p =
     (case copy p of
        Reading \<Rightarrow> unread p = [] \<and> \<not> ended p \<and> \<not> source_lost \<and> \<not> cancelled
      | Writing _ \<Rightarrow> \<not> taking p \<and> \<not> sink_lost
      | Copied _ \<Rightarrow> True)"

lemma copy_goes_on: "\<not> copy_waits x a b p \<Longrightarrow> \<exists>p'. copy_step x a b p p'"
proof (cases "copy p")
  case Reading
  moreover assume "\<not> copy_waits x a b p"
  moreover have "\<exists>p'. copy_step x a b p p'" if "unread p = y # ys" "\<not> x" for y ys
    using read_chunk [of p x "[y]" ys a b] Reading that by (auto simp: copy_buffer_def)
  ultimately show ?thesis
    by (cases x; cases "unread p") (auto simp: copy_waits_def intro: read_end read_fails)
next
  case (Writing chunk)
  moreover assume "\<not> copy_waits x a b p"
  ultimately show ?thesis
    using write_chunk [of p chunk x a b] write_fails [of p "[]" chunk b x a] by (auto simp: copy_waits_def)
qed (simp add: copy_waits_def)

lemma copy_step_waits: "copy_step x a b p p' \<Longrightarrow> \<not> copy_waits x a b p"
  by (induction rule: copy_step.induct) (auto simp: copy_waits_def)

fun copied :: "copying \<Rightarrow> bool" where
  "copied (Copied _) = True"
| "copied _ = False"

section \<open>The bridge\<close>

text \<open>
  \<open>up\<close> runs in the goroutine, which half-closes the target's connection when it is over and then closes the channel
  \<open>done\<close> (\<open>upload_over\<close>); \<open>down\<close> is the handler's own copy, after which it cancels the WebSocket's context and waits for
  the goroutine.  \<open>client_lost\<close> and \<open>target_lost\<close> are connections that broke; an operator's \<open>Close\<close> breaks the client's.
\<close>

datatype stage = CopyingDown | Joining | Left

record bridge =
  up :: pipe
  down :: pipe
  client_lost :: bool
  target_lost :: bool
  upload_over :: bool
  stage :: stage

definition new_bridge :: bridge where
  "new_bridge =
     \<lparr>up = empty_pipe, down = empty_pipe, client_lost = False, target_lost = False, upload_over = False,
      stage = CopyingDown\<rparr>"

abbreviation copy_up :: "bridge \<Rightarrow> pipe \<Rightarrow> pipe \<Rightarrow> bool" where
  "copy_up b \<equiv> copy_step (stage b \<noteq> CopyingDown) (client_lost b) (target_lost b)"

abbreviation copy_down :: "bridge \<Rightarrow> pipe \<Rightarrow> pipe \<Rightarrow> bool" where
  "copy_down b \<equiv> copy_step False (target_lost b) (client_lost b \<or> ended (up b))"

inductive own_step :: "bridge \<Rightarrow> bridge \<Rightarrow> bool" where
  upload: "copy_up b (up b) p \<Longrightarrow> own_step b (b\<lparr>up := p\<rparr>)"
| half_close: "copied (copy (up b)) \<Longrightarrow> \<not> upload_over b \<Longrightarrow> own_step b (b\<lparr>upload_over := True\<rparr>)"
| download: "copy_down b (down b) p \<Longrightarrow> own_step b (b\<lparr>down := p\<rparr>)"
| cancel: "stage b = CopyingDown \<Longrightarrow> copied (copy (down b)) \<Longrightarrow> own_step b (b\<lparr>stage := Joining\<rparr>)"
| leave: "stage b = Joining \<Longrightarrow> upload_over b \<Longrightarrow> own_step b (b\<lparr>stage := Left\<rparr>)"

inductive outside_step :: "bridge \<Rightarrow> bridge \<Rightarrow> bool" where
  upstream: "peer_step (client_lost b) (up b) p \<Longrightarrow> outside_step b (b\<lparr>up := p\<rparr>)"
| downstream: "peer_step (target_lost b) (down b) p \<Longrightarrow> outside_step b (b\<lparr>down := p\<rparr>)"
| client_breaks: "outside_step b (b\<lparr>client_lost := True\<rparr>)"
| target_breaks: "outside_step b (b\<lparr>target_lost := True\<rparr>)"

inductive bridge_reach :: "bridge \<Rightarrow> bool" where
  new: "bridge_reach new_bridge"
| own: "bridge_reach b \<Longrightarrow> own_step b b' \<Longrightarrow> bridge_reach b'"
| outside: "bridge_reach b \<Longrightarrow> outside_step b b' \<Longrightarrow> bridge_reach b'"

section \<open>What is passed on\<close>

text \<open>The reasons the copies ended for, and how far the handler is when they have.\<close>

definition copies_ok :: "bridge \<Rightarrow> bool" where
  "copies_ok b \<longleftrightarrow> pipe_ok (up b) \<and> pipe_ok (down b) \<and>
     (copy (up b) = Copied ReadFailed \<longrightarrow> client_lost b \<or> stage b \<noteq> CopyingDown) \<and>
     (copy (up b) = Copied WriteFailed \<longrightarrow> target_lost b) \<and>
     (copy (down b) = Copied ReadFailed \<longrightarrow> target_lost b) \<and>
     (copy (down b) = Copied WriteFailed \<longrightarrow> client_lost b \<or> ended (up b))"

definition stage_ok :: "bridge \<Rightarrow> bool" where
  "stage_ok b \<longleftrightarrow> (upload_over b \<longrightarrow> copied (copy (up b))) \<and>
     (stage b \<noteq> CopyingDown \<longrightarrow> copied (copy (down b))) \<and> (stage b = Left \<longrightarrow> upload_over b)"

inductive_cases copied_step: "copy_step x a b p p'"

lemma copy_step_cause:
  "copy_step x a b p p' \<Longrightarrow> copy p' = Copied ReadFailed \<Longrightarrow> a \<or> x"
  "copy_step x a b p p' \<Longrightarrow> copy p' = Copied WriteFailed \<Longrightarrow> b"
  "copy_step x a b p p' \<Longrightarrow> \<not> copied (copy p)"
  "copy_step x a b p p' \<Longrightarrow> ended p' = ended p"
  by (auto elim: copied_step)

lemma peer_step_copy: "peer_step a p p' \<Longrightarrow> copy p' = copy p \<and> (ended p \<longrightarrow> ended p')"
  by (auto elim: peer_step.cases)

lemmas bridge_ok = copies_ok_def stage_ok_def

lemma bridge_ok_own: "own_step b b' \<Longrightarrow> copies_ok b \<and> stage_ok b \<Longrightarrow> copies_ok b' \<and> stage_ok b'"
proof (induction rule: own_step.induct)
  case (upload b p)
  note step = copy_step_cause [OF upload(1)] pipe_ok_copy [OF upload(1)]
  from step(3) upload(2) have "\<not> upload_over b" by (auto simp: bridge_ok)
  then show ?case using upload(2) step by (simp add: bridge_ok)
next
  case (download b p)
  note step = copy_step_cause [OF download(1)] pipe_ok_copy [OF download(1)]
  from step(3) download(2) have "stage b = CopyingDown" by (auto simp: bridge_ok)
  then show ?case using download(2) step by (simp add: bridge_ok)
qed (simp_all add: bridge_ok)

lemma bridge_ok_outside: "outside_step b b' \<Longrightarrow> copies_ok b \<and> stage_ok b \<Longrightarrow> copies_ok b' \<and> stage_ok b'"
proof (induction rule: outside_step.induct)
  case (upstream b p)
  then show ?case
    using peer_step_copy [OF upstream(1)] pipe_ok_peer [OF upstream(1)] by (simp add: bridge_ok) blast
next
  case (downstream b p)
  then show ?case
    using peer_step_copy [OF downstream(1)] pipe_ok_peer [OF downstream(1)] by (simp add: bridge_ok)
qed (simp_all add: bridge_ok)

lemma bridge_ok_reach: "bridge_reach b \<Longrightarrow> copies_ok b \<and> stage_ok b"
proof (induction rule: bridge_reach.induct)
  case new
  show ?case using pipe_ok_empty by (simp add: bridge_ok new_bridge_def) (simp add: empty_pipe_def)
next
  case (own b b')
  then show ?case using bridge_ok_own by blast
next
  case (outside b b')
  then show ?case using bridge_ok_outside by blast
qed

text \<open>
  C16.  The bridge is faithful.  At every moment each side has received the beginning of what the other side sent; the
  target's connection is half-closed only after all of the client's bytes were passed on, unless a connection broke or
  the handler was leaving; and the handler leaves only after all of the target's bytes were passed on, unless a
  connection broke or the client had gone.
\<close>

theorem bridge_faithful:
  assumes "bridge_reach b"
  shows "prefix (received (up b)) (sent (up b)) \<and> prefix (received (down b)) (sent (down b)) \<and>
    (upload_over b \<longrightarrow>
       ended (up b) \<and> received (up b) = sent (up b) \<or> client_lost b \<or> target_lost b \<or> stage b \<noteq> CopyingDown) \<and>
    (stage b \<noteq> CopyingDown \<longrightarrow>
       ended (down b) \<and> received (down b) = sent (down b) \<or> client_lost b \<or> target_lost b \<or> ended (up b))"
proof -
  have ok: "copies_ok b" "stage_ok b" using bridge_ok_reach [OF assms] by simp_all
  then have p: "pipe_ok (up b)" "pipe_ok (down b)" by (simp_all add: copies_ok_def)
  have "copied c \<Longrightarrow> c = Copied SourceEnded \<or> c = Copied ReadFailed \<or> c = Copied WriteFailed" for c
    by (cases c rule: copied.cases) (auto intro: copy_end.exhaust)
  then have e: "upload_over b \<Longrightarrow>
      copy (up b) = Copied SourceEnded \<or> client_lost b \<or> target_lost b \<or> stage b \<noteq> CopyingDown"
    "stage b \<noteq> CopyingDown \<Longrightarrow>
      copy (down b) = Copied SourceEnded \<or> client_lost b \<or> target_lost b \<or> ended (up b)"
    using ok unfolding bridge_ok by blast+
  have "copy (up b) = Copied SourceEnded \<Longrightarrow> ended (up b)" "copy (down b) = Copied SourceEnded \<Longrightarrow> ended (down b)"
    using p by (simp_all add: pipe_ok_def)
  then show ?thesis
    using p [THEN pipe_ok_prefix] p [THEN pipe_ok_complete] e by blast
qed

section \<open>How it ends\<close>

text \<open>
  What brings the handler to its end: its own copy, its cancelling and its leaving, and, once it waits for it, what the
  goroutine does.  The goroutine's copy before that, the client's sending and the rest may come in between.
\<close>

definition towards_end :: "bridge \<Rightarrow> bridge \<Rightarrow> bool" where
  "towards_end b b' \<longleftrightarrow>
     own_step b b' \<and> (stage b = CopyingDown \<longrightarrow> up b' = up b \<and> upload_over b' = upload_over b)"

definition leaving_work :: "bridge \<Rightarrow> nat" where
  "leaving_work b =
     (case stage b of
        CopyingDown \<Rightarrow> copy_work (down b) + 5
      | Joining \<Rightarrow> steps_left (copy (up b)) + (if upload_over b then 0 else 1) + 1
      | Left \<Rightarrow> 0)"

lemma cancelled_copy_less:
  "copy_step True a b p p' \<Longrightarrow> steps_left (copy p') < steps_left (copy p)"
  by (auto elim: copied_step)

lemma own_step_leaving:
  assumes "own_step b b'" "stage_ok b"
  shows "if towards_end b b' then leaving_work b' < leaving_work b else leaving_work b' = leaving_work b"
  using assms
proof (induction rule: own_step.induct)
  case (upload b p)
  have "p \<noteq> up b" using copy_work_less [OF upload.hyps] by auto
  moreover have "stage b \<noteq> Left" using upload.prems copy_step_cause(3) [OF upload.hyps] by (auto simp: stage_ok_def)
  ultimately show ?case
    using upload.hyps own_step.upload [OF upload.hyps] cancelled_copy_less
    by (cases "stage b") (auto simp: towards_end_def leaving_work_def)
next
  case (half_close b)
  then show ?case
    using own_step.half_close [OF half_close.hyps]
    by (cases "stage b") (auto simp: towards_end_def leaving_work_def stage_ok_def)
next
  case (download b p)
  have "stage b = CopyingDown" using download.prems copy_step_cause(3) [OF download.hyps] by (auto simp: stage_ok_def)
  then show ?case
    using own_step.download [OF download.hyps] copy_work_less [OF download.hyps]
    by (simp add: towards_end_def leaving_work_def)
next
  case (cancel b)
  then show ?case
    using own_step.cancel [OF cancel.hyps] steps_left_bound [of "copy (up b)"] by (simp add: towards_end_def leaving_work_def)
next
  case (leave b)
  then show ?case
    using own_step.leave [OF leave.hyps] by (simp add: towards_end_def leaving_work_def)
qed

text \<open>Whether nothing the bridge waits for can fail to come: the target is over, and what is written is taken or lost.\<close>

definition winding_up :: "bridge \<Rightarrow> bool" where
  "winding_up b \<longleftrightarrow> (ended (down b) \<or> target_lost b) \<and> (taking (up b) \<or> target_lost b) \<and>
     (taking (down b) \<or> client_lost b \<or> ended (up b))"

lemma peer_step_work: "peer_step a p p' \<Longrightarrow> ended p \<or> a \<Longrightarrow> copy_work p' = copy_work p"
  by (auto simp: copy_work_def elim: peer_step.cases)

lemma outside_step_leaving: "outside_step b b' \<Longrightarrow> winding_up b \<Longrightarrow> leaving_work b' = leaving_work b"
proof (induction rule: outside_step.induct)
  case (upstream b p)
  then show ?case using peer_step_copy [OF upstream.hyps] by (simp add: leaving_work_def split: stage.split)
next
  case (downstream b p)
  then show ?case using peer_step_work [OF downstream.hyps] by (simp add: leaving_work_def winding_up_def split: stage.split)
qed (simp_all add: leaving_work_def split: stage.split)

text \<open>Runs in which the target stays over and what is written is taken or lost, and how many steps led towards the end.\<close>

inductive winding_run :: "nat \<Rightarrow> bridge \<Rightarrow> bridge \<Rightarrow> bool" where
  begins: "winding_run 0 b b"
| towards: "winding_run n b c \<Longrightarrow> winding_up c \<Longrightarrow> towards_end c c' \<Longrightarrow> winding_run (Suc n) b c'"
| beside:
    "winding_run n b c \<Longrightarrow> winding_up c \<Longrightarrow> own_step c c' \<and> \<not> towards_end c c' \<or> outside_step c c' \<Longrightarrow> winding_run n b c'"

lemma winding_run_work: "winding_run n b b' \<Longrightarrow> bridge_reach b \<Longrightarrow> bridge_reach b' \<and> n + leaving_work b' \<le> leaving_work b"
proof (induction rule: winding_run.induct)
  case (towards n b c c')
  then have "own_step c c'" "bridge_reach c" by (simp_all add: towards_end_def)
  then show ?case
    using towards own_step_leaving [of c c'] bridge_ok_reach [of c] bridge_reach.own [of c c'] by simp
next
  case (beside n b c c')
  then have r: "bridge_reach c" "n + leaving_work c \<le> leaving_work b" by simp_all
  from beside.hyps(3) show ?case
  proof
    assume "own_step c c' \<and> \<not> towards_end c c'"
    then show ?thesis using r own_step_leaving [of c c'] bridge_ok_reach [of c] bridge_reach.own [of c c'] by simp
  next
    assume "outside_step c c'"
    then show ?thesis using r outside_step_leaving [of c c'] beside.hyps(2) bridge_reach.outside [of c c'] by simp
  qed
qed simp

text \<open>Such a bridge can always do something towards its end.\<close>

lemma winding_up_goes_on:
  assumes "stage_ok b" "winding_up b" "stage b \<noteq> Left"
  shows "\<exists>c. towards_end b c"
proof (cases "stage b")
  case CopyingDown
  show ?thesis
  proof (cases "copied (copy (down b))")
    case True
    then show ?thesis using own_step.cancel [OF CopyingDown] by (auto simp: towards_end_def)
  next
    case False
    then have "\<not> copy_waits False (target_lost b) (client_lost b \<or> ended (up b)) (down b)"
      using assms(2) by (cases "copy (down b)") (auto simp: copy_waits_def winding_up_def)
    then obtain p where "copy_down b (down b) p" using copy_goes_on by blast
    from own_step.download [OF this] show ?thesis by (auto simp: towards_end_def)
  qed
next
  case Joining
  consider "upload_over b" | "\<not> upload_over b" "copied (copy (up b))" | "\<not> copied (copy (up b))" by blast
  then have "\<exists>c. own_step b c"
  proof cases
    case 3
    then have "\<not> copy_waits True (client_lost b) (target_lost b) (up b)"
      using assms(2) by (cases "copy (up b)") (auto simp: copy_waits_def winding_up_def)
    then obtain p where "copy_up b (up b) p" using copy_goes_on Joining by (metis stage.distinct(1))
    then show ?thesis using own_step.upload by blast
  qed (use Joining own_step.leave own_step.half_close in blast)+
  then show ?thesis using Joining by (simp add: towards_end_def)
qed (use assms(3) in simp)

lemma leaving_work_bound: "leaving_work b \<le> 2 * length (unread (down b)) + 7"
  using steps_left_bound [of "copy (up b)"] steps_left_bound [of "copy (down b)"]
  by (simp add: leaving_work_def copy_work_def split: stage.split)

text \<open>
  C17.  The bridge comes to its end.  Take any run in which the target has ended its side or is lost, its buffer takes
  what is written to it (or it is lost) and the client's does (or the client is gone), while the client may go on
  sending, connections break and the goroutine goes on copying.  The steps that lead the handler to its end (its own
  copy, its cancelling and leaving, and what the goroutine does once it is waited for) are at most two for each byte the
  target had in flight and seven more, no other step undoes one, and as long as the handler has not left, one can be
  taken.  (After the cancelling no more is read from the WebSocket, and a lost target sends no more.)
\<close>

theorem bridge_ends:
  assumes "bridge_reach b" "winding_run n b b'" "winding_up b'"
  shows "n \<le> 2 * length (unread (down b)) + 7 \<and> (stage b' = Left \<or> (\<exists>c. towards_end b' c))"
proof
  note run = winding_run_work [OF assms(2,1)]
  show "n \<le> 2 * length (unread (down b)) + 7" using run leaving_work_bound [of b] by simp
  have "stage_ok b'" using run bridge_ok_reach by blast
  then show "stage b' = Left \<or> (\<exists>c. towards_end b' c)" using winding_up_goes_on [OF _ assms(3)] by blast
qed

section \<open>Two bridges\<close>

text \<open>A bridge that carried a client's bytes to a target which then ended its side, on its way out.\<close>

definition carried :: pipe where
  "carried = \<lparr>sent = ''RFB'', unread = [], ended = True, received = ''RFB'', taking = True, copy = Copied SourceEnded\<rparr>"

lemmas sample_bridges = new_bridge_def empty_pipe_def carried_def copy_buffer_def

lemma reach_own: "bridge_reach b \<Longrightarrow> own_step b c \<Longrightarrow> c = b' \<Longrightarrow> bridge_reach b'"
  using bridge_reach.own by simp

lemma reach_outside: "bridge_reach b \<Longrightarrow> outside_step b c \<Longrightarrow> c = b' \<Longrightarrow> bridge_reach b'"
  using bridge_reach.outside by simp

lemma carried_reach: "bridge_reach (new_bridge\<lparr>up := carried, upload_over := True\<rparr>)"
proof -
  have r1: "bridge_reach (new_bridge\<lparr>up := empty_pipe\<lparr>sent := ''RFB'', unread := ''RFB''\<rparr>\<rparr>)"
    by (rule reach_outside [OF bridge_reach.new], rule outside_step.upstream, rule peer_step.sends [where bs = "''RFB''"])
      (simp_all add: sample_bridges)
  have r2: "bridge_reach (new_bridge\<lparr>up := empty_pipe\<lparr>sent := ''RFB'', unread := ''RFB'', ended := True\<rparr>\<rparr>)"
    by (rule reach_outside [OF r1], rule outside_step.upstream, rule peer_step.ends) (simp_all add: sample_bridges)
  have r3: "bridge_reach (new_bridge\<lparr>up := empty_pipe\<lparr>sent := ''RFB'', unread := [], ended := True, copy := Writing ''RFB''\<rparr>\<rparr>)"
    by (rule reach_own [OF r2], rule own_step.upload, rule copy_step.read_chunk [where chunk = "''RFB''" and rest = "[]"])
      (simp_all add: sample_bridges)
  have r4: "bridge_reach (new_bridge\<lparr>up := carried\<lparr>copy := Reading\<rparr>\<rparr>)"
    by (rule reach_own [OF r3], rule own_step.upload, rule copy_step.write_chunk [where chunk = "''RFB''"])
      (simp_all add: sample_bridges)
  have r5: "bridge_reach (new_bridge\<lparr>up := carried\<rparr>)"
    by (rule reach_own [OF r4], rule own_step.upload, rule copy_step.read_end) (simp_all add: sample_bridges)
  show ?thesis
    by (rule reach_own [OF r5], rule own_step.half_close) (simp_all add: sample_bridges)
qed

theorem bridge_faithful_witness:
  "upload_over (new_bridge\<lparr>up := carried, upload_over := True\<rparr>) \<and> received carried = sent carried \<and>
    stage (new_bridge\<lparr>up := carried, upload_over := True\<rparr>) = CopyingDown"
  using bridge_faithful [OF carried_reach] by (simp add: new_bridge_def)

text \<open>A new bridge to a target that hangs up at once, and a client that goes on sending: five steps to the end.\<close>

definition hung_up :: pipe where "hung_up = empty_pipe\<lparr>ended := True\<rparr>"

lemma hung_up_reach: "bridge_reach (new_bridge\<lparr>down := hung_up\<rparr>)"
  by (rule reach_outside [OF bridge_reach.new], rule outside_step.downstream, rule peer_step.ends)
    (simp_all add: sample_bridges hung_up_def)

lemma run_towards:
  "winding_run n b c \<Longrightarrow> own_step c d \<Longrightarrow> winding_up c \<and> d = c' \<Longrightarrow>
   (stage c = CopyingDown \<Longrightarrow> up c' = up c \<and> upload_over c' = upload_over c) \<Longrightarrow> winding_run (Suc n) b c'"
  using winding_run.towards by (simp add: towards_end_def)

lemma run_outside: "winding_run n b c \<Longrightarrow> outside_step c d \<Longrightarrow> winding_up c \<and> d = c' \<Longrightarrow> winding_run n b c'"
  using winding_run.beside by blast

lemmas sample_runs = sample_bridges hung_up_def winding_up_def

lemma hung_up_run:
  "winding_run 5 (new_bridge\<lparr>down := hung_up\<rparr>)
     (new_bridge\<lparr>down := hung_up\<lparr>copy := Copied SourceEnded\<rparr>,
        up := empty_pipe\<lparr>sent := ''KL'', unread := ''KL'', copy := Copied ReadFailed\<rparr>, upload_over := True, stage := Left\<rparr>)"
proof -
  let ?b = "new_bridge\<lparr>down := hung_up\<rparr>" and ?over = "hung_up\<lparr>copy := Copied SourceEnded\<rparr>"
  let ?k = "empty_pipe\<lparr>sent := ''K'', unread := ''K''\<rparr>" and ?kl = "empty_pipe\<lparr>sent := ''KL'', unread := ''KL''\<rparr>"
  have r1: "winding_run 1 ?b (new_bridge\<lparr>down := ?over\<rparr>)"
    by (simp, rule run_towards [OF winding_run.begins], rule own_step.download, rule copy_step.read_end)
      (simp_all add: sample_runs)
  have r2: "winding_run 1 ?b (new_bridge\<lparr>down := ?over, up := ?k\<rparr>)"
    by (rule run_outside [OF r1], rule outside_step.upstream, rule peer_step.sends [where bs = "''K''"]) (simp_all add: sample_runs)
  have r3: "winding_run (Suc 1) ?b (new_bridge\<lparr>down := ?over, up := ?k, stage := Joining\<rparr>)"
    by (rule run_towards [OF r2], rule own_step.cancel) (simp_all add: sample_runs)
  have r4: "winding_run (Suc 1) ?b (new_bridge\<lparr>down := ?over, up := ?kl, stage := Joining\<rparr>)"
    by (rule run_outside [OF r3], rule outside_step.upstream, rule peer_step.sends [where bs = "''L''"]) (simp_all add: sample_runs)
  have r5: "winding_run (Suc (Suc 1)) ?b (new_bridge\<lparr>down := ?over, up := ?kl\<lparr>copy := Copied ReadFailed\<rparr>, stage := Joining\<rparr>)"
    by (rule run_towards [OF r4], rule own_step.upload, rule copy_step.read_fails) (simp_all add: sample_runs)
  have r6: "winding_run (Suc (Suc (Suc 1))) ?b
      (new_bridge\<lparr>down := ?over, up := ?kl\<lparr>copy := Copied ReadFailed\<rparr>, upload_over := True, stage := Joining\<rparr>)"
    by (rule run_towards [OF r5], rule own_step.half_close) (simp_all add: sample_runs)
  have r7: "winding_run (Suc (Suc (Suc (Suc 1)))) ?b
      (new_bridge\<lparr>down := ?over, up := ?kl\<lparr>copy := Copied ReadFailed\<rparr>, upload_over := True, stage := Left\<rparr>)"
    by (rule run_towards [OF r6], rule own_step.leave) (simp_all add: sample_runs)
  show ?thesis using r7 by (simp add: eval_nat_numeral)
qed

theorem bridge_ends_witness:
  "\<exists>b'. winding_run 5 (new_bridge\<lparr>down := hung_up\<rparr>) b' \<and> stage b' = Left \<and> winding_up b' \<and>
     5 \<le> 2 * length (unread (down (new_bridge\<lparr>down := hung_up\<rparr>))) + 7 \<and> (\<exists>c. towards_end (new_bridge\<lparr>down := hung_up\<rparr>) c)"
proof -
  let ?b = "new_bridge\<lparr>down := hung_up\<rparr>"
  let ?left = "new_bridge\<lparr>down := hung_up\<lparr>copy := Copied SourceEnded\<rparr>,
     up := empty_pipe\<lparr>sent := ''KL'', unread := ''KL'', copy := Copied ReadFailed\<rparr>, upload_over := True, stage := Left\<rparr>"
  have w: "winding_up ?b" by (simp add: sample_runs)
  have "\<exists>c. towards_end ?b c"
    using bridge_ends [OF hung_up_reach winding_run.begins w] by (simp add: sample_runs)
  moreover have "5 \<le> 2 * length (unread (down ?b)) + 7"
    using bridge_ends [OF hung_up_reach hung_up_run] by (simp add: sample_runs)
  moreover have "stage ?left = Left \<and> winding_up ?left" by (simp add: sample_runs)
  ultimately show ?thesis using hung_up_run by blast
qed

text \<open>
  Without the target's help it does not end.  A client that is gone (or was disconnected by an operator) is off the list
  only when the target ends its side or sends something; and a target that ended its side but takes no more bytes keeps
  the handler waiting for the goroutine, whose write only the \<open>Close\<close> deferred until after that wait would end.
\<close>

lemma no_own_step:
  "copy_waits (stage b \<noteq> CopyingDown) (client_lost b) (target_lost b) (up b) \<Longrightarrow>
   copy_waits False (target_lost b) (client_lost b \<or> ended (up b)) (down b) \<Longrightarrow>
   (copied (copy (up b)) \<Longrightarrow> upload_over b) \<Longrightarrow> (copied (copy (down b)) \<Longrightarrow> stage b \<noteq> CopyingDown) \<Longrightarrow>
   (stage b = Joining \<Longrightarrow> \<not> upload_over b) \<Longrightarrow> \<not> own_step b b'"
  by (auto elim!: own_step.cases dest: copy_step_waits)

theorem silent_target_keeps_bridge:
  "\<exists>b. bridge_reach b \<and> client_lost b \<and> ended (up b) \<and> upload_over b \<and> stage b = CopyingDown \<and> (\<nexists>b'. own_step b b')"
proof (intro exI conjI)
  let ?b = "new_bridge\<lparr>up := carried, upload_over := True, client_lost := True\<rparr>"
  show "bridge_reach ?b" by (rule reach_outside [OF carried_reach outside_step.client_breaks]) (simp_all add: sample_bridges)
  show "\<nexists>b'. own_step ?b b'"
    using no_own_step [of ?b] by (simp add: copy_waits_def carried_def new_bridge_def empty_pipe_def)
qed (simp_all add: new_bridge_def carried_def)

theorem full_target_blocks_handler:
  "\<exists>b. bridge_reach b \<and> ended (down b) \<and> client_lost b \<and> stage b = Joining \<and> (\<nexists>b'. own_step b b')"
proof -
  let ?up = "empty_pipe\<lparr>sent := ''RFB'', taking := False, copy := Writing ''RFB''\<rparr>"
  let ?down = "empty_pipe\<lparr>ended := True, copy := Copied SourceEnded\<rparr>"
  let ?b = "new_bridge\<lparr>up := ?up, down := ?down, stage := Joining, client_lost := True\<rparr>"
  have r1: "bridge_reach (new_bridge\<lparr>up := empty_pipe\<lparr>sent := ''RFB'', unread := ''RFB''\<rparr>\<rparr>)"
    by (rule reach_outside [OF bridge_reach.new], rule outside_step.upstream, rule peer_step.sends [where bs = "''RFB''"])
      (simp_all add: sample_bridges)
  have r2: "bridge_reach (new_bridge\<lparr>up := empty_pipe\<lparr>sent := ''RFB'', unread := [], copy := Writing ''RFB''\<rparr>\<rparr>)"
    by (rule reach_own [OF r1], rule own_step.upload, rule copy_step.read_chunk [where chunk = "''RFB''" and rest = "[]"])
      (simp_all add: sample_bridges)
  have r3: "bridge_reach (new_bridge\<lparr>up := ?up\<rparr>)"
    by (rule reach_outside [OF r2], rule outside_step.upstream, rule peer_step.takes [where b = False]) (simp_all add: sample_bridges)
  have r4: "bridge_reach (new_bridge\<lparr>up := ?up, down := empty_pipe\<lparr>ended := True\<rparr>\<rparr>)"
    by (rule reach_outside [OF r3], rule outside_step.downstream, rule peer_step.ends) (simp_all add: sample_bridges)
  have r5: "bridge_reach (new_bridge\<lparr>up := ?up, down := ?down\<rparr>)"
    by (rule reach_own [OF r4], rule own_step.download, rule copy_step.read_end) (simp_all add: sample_bridges)
  have r6: "bridge_reach (new_bridge\<lparr>up := ?up, down := ?down, stage := Joining\<rparr>)"
    by (rule reach_own [OF r5], rule own_step.cancel) (simp_all add: sample_bridges)
  have r7: "bridge_reach ?b" by (rule reach_outside [OF r6 outside_step.client_breaks]) (simp_all add: sample_bridges)
  have n: "\<nexists>b'. own_step ?b b'"
    using no_own_step [of ?b] by (simp add: copy_waits_def new_bridge_def empty_pipe_def)
  show ?thesis using r7 n by (intro exI [of _ ?b] conjI) (simp_all add: new_bridge_def empty_pipe_def)
qed
end
