(* ===== verification/Verify_Slots.thy ===== *)
theory Verify_Slots
  imports Auth_Gate Semaphore
begin

text \<open>
  The queue in front of argon2 in \<open>internal/authgate/password.go\<close>: \<open>verifySlots\<close> and the timer of
  \<open>VerifyPassword\<close>, for checks beside each other.  The result of a check is \<open>verify_password\<close>'s: with \<open>busy\<close>
  where the timer fired, without where a slot was had; a hash that does not parse needs neither.
\<close>

definition max_concurrent_verifies :: nat where "max_concurrent_verifies = 2"
definition verify_queue_wait :: time where "verify_queue_wait = 3 * second"

definition needs_slot :: "kdf \<Rightarrow> string \<Rightarrow> string \<Rightarrow> bool" where
  "needs_slot idkey p h \<longleftrightarrow> verify_password idkey True p h = Inl ErrBusy"

datatype check =
    Queued string string time
  | Deriving string string time
  | Answered string string time time "password_error + bool"

record verifies =
  checks :: "nat \<Rightarrow> check option"
  slots_taken :: nat
  verify_clock :: time

definition deriving :: "(nat \<Rightarrow> check option) \<Rightarrow> nat set" where
  "deriving m = {i. \<exists>p h t. m i = Some (Deriving p h t)}"

inductive verify_step :: "kdf \<Rightarrow> verifies \<Rightarrow> verifies \<Rightarrow> bool" for idkey where
  malformed:
    "checks s i = None \<Longrightarrow> \<not> needs_slot idkey p h \<Longrightarrow>
     verify_step idkey s (s\<lparr>checks := (checks s)(i \<mapsto>
       Answered p h (verify_clock s) (verify_clock s) (verify_password idkey True p h))\<rparr>)"
| queue:
    "checks s i = None \<Longrightarrow> needs_slot idkey p h \<Longrightarrow>
     verify_step idkey s (s\<lparr>checks := (checks s)(i \<mapsto> Queued p h (verify_clock s))\<rparr>)"
| take:
    "checks s i = Some (Queued p h t) \<Longrightarrow> slots_taken s < max_concurrent_verifies \<Longrightarrow>
     verify_step idkey s (s\<lparr>checks := (checks s)(i \<mapsto> Deriving p h t), slots_taken := slots_taken s + 1\<rparr>)"
| timer:
    "checks s i = Some (Queued p h t) \<Longrightarrow> t + verify_queue_wait \<le> verify_clock s \<Longrightarrow>
     verify_step idkey s (s\<lparr>checks := (checks s)(i \<mapsto>
       Answered p h t (verify_clock s) (verify_password idkey True p h))\<rparr>)"
| derived:
    "checks s i = Some (Deriving p h t) \<Longrightarrow>
     verify_step idkey s (s\<lparr>checks := (checks s)(i \<mapsto>
       Answered p h t (verify_clock s) (verify_password idkey False p h)), slots_taken := slots_taken s - 1\<rparr>)"
| time:
    "verify_clock s \<le> now \<Longrightarrow> verify_step idkey s (s\<lparr>verify_clock := now\<rparr>)"

inductive verify_reach :: "kdf \<Rightarrow> verifies \<Rightarrow> bool" for idkey where
  start: "verify_reach idkey \<lparr>checks = (\<lambda>_. None), slots_taken = 0, verify_clock = t\<rparr>"
| step: "verify_reach idkey s \<Longrightarrow> verify_step idkey s s' \<Longrightarrow> verify_reach idkey s'"

lemma deriving_upd [simp]:
  "deriving (m(i := x)) = (if \<exists>p h t. x = Some (Deriving p h t) then insert i (deriving m) else deriving m - {i})"
  by (auto simp: deriving_def split: if_splits)

lemma deriving_iff: "m i = x \<Longrightarrow> i \<in> deriving m \<longleftrightarrow> (\<exists>p h t. x = Some (Deriving p h t))"
  by (simp add: deriving_def)

lemma not_busy_without: "verify_password idkey False p h \<noteq> Inl ErrBusy"
  by (auto simp: verify_password_def split: list.splits option.splits)

text \<open>An answer is that of \<open>VerifyPassword\<close>, and busy only after the whole wait.\<close>

definition answer_ok :: "kdf \<Rightarrow> time \<Rightarrow> check \<Rightarrow> bool" where
  "answer_ok idkey now c =
     (case c of
        Queued p h t \<Rightarrow> t \<le> now \<and> needs_slot idkey p h
      | Deriving p h t \<Rightarrow> t \<le> now \<and> needs_slot idkey p h
      | Answered p h t u r \<Rightarrow> t \<le> u \<and> u \<le> now \<and> r = verify_password idkey (r = Inl ErrBusy) p h \<and>
          (r = Inl ErrBusy \<longrightarrow> t + verify_queue_wait \<le> u))"

definition checks_ok :: "kdf \<Rightarrow> time \<Rightarrow> (nat \<Rightarrow> check option) \<Rightarrow> bool" where
  "checks_ok idkey now m \<longleftrightarrow> (\<forall>i c. m i = Some c \<longrightarrow> answer_ok idkey now c)"

lemma checks_ok_upd: "checks_ok idkey now m \<Longrightarrow> answer_ok idkey now c \<Longrightarrow> checks_ok idkey now (m(i \<mapsto> c))"
  by (simp add: checks_ok_def)

lemma answer_ok_later: "answer_ok idkey now c \<Longrightarrow> now \<le> t \<Longrightarrow> answer_ok idkey t c"
  by (auto simp: answer_ok_def split: check.splits)

lemma verify_malformed: "\<not> needs_slot idkey p h \<Longrightarrow> verify_password idkey True p h = verify_password idkey False p h"
  unfolding needs_slot_def verify_password_def
  by (auto split: list.split option.split)

definition queue_ok :: "kdf \<Rightarrow> verifies \<Rightarrow> bool" where
  "queue_ok idkey s \<longleftrightarrow>
     sem_ok max_concurrent_verifies (slots_taken s) (deriving (checks s)) \<and> checks_ok idkey (verify_clock s) (checks s)"

lemma checks_ok_at: "checks_ok idkey now m \<Longrightarrow> m i = Some c \<Longrightarrow> answer_ok idkey now c"
  by (simp add: checks_ok_def)

lemma queue_ok_step: "verify_step idkey s s' \<Longrightarrow> queue_ok idkey s \<Longrightarrow> queue_ok idkey s'"
proof (induction rule: verify_step.induct)
  case (malformed s i p h)
  then have "i \<notin> deriving (checks s)" by (simp add: deriving_iff)
  moreover have "verify_password idkey True p h \<noteq> Inl ErrBusy" using malformed(2) by (simp add: needs_slot_def)
  then have "answer_ok idkey (verify_clock s) (Answered p h (verify_clock s) (verify_clock s) (verify_password idkey True p h))"
    using verify_malformed [OF malformed(2)] by (simp add: answer_ok_def)
  ultimately show ?case using malformed(3) by (simp add: queue_ok_def checks_ok_upd)
next
  case (queue s i p h)
  then have "i \<notin> deriving (checks s)" by (simp add: deriving_iff)
  moreover have "answer_ok idkey (verify_clock s) (Queued p h (verify_clock s))" using queue(2) by (simp add: answer_ok_def)
  ultimately show ?case using queue(3) by (simp add: queue_ok_def checks_ok_upd)
next
  case (take s i p h t)
  then have "i \<notin> deriving (checks s)" by (simp add: deriving_iff)
  moreover have "answer_ok idkey (verify_clock s) (Deriving p h t)"
    using take(1,3) checks_ok_at [of idkey _ "checks s" i] by (fastforce simp: queue_ok_def answer_ok_def)
  ultimately show ?case using take(2,3) by (simp add: queue_ok_def checks_ok_upd sem_ok_take)
next
  case (timer s i p h t)
  then have "i \<notin> deriving (checks s)" by (simp add: deriving_iff)
  moreover have "t \<le> verify_clock s" "verify_password idkey True p h = Inl ErrBusy"
    using timer(1,3) checks_ok_at [of idkey _ "checks s" i] by (fastforce simp: queue_ok_def answer_ok_def needs_slot_def)+
  then have "answer_ok idkey (verify_clock s) (Answered p h t (verify_clock s) (verify_password idkey True p h))"
    using timer(2) by (simp add: answer_ok_def)
  ultimately show ?case using timer(3) by (simp add: queue_ok_def checks_ok_upd)
next
  case (derived s i p h t)
  then have "i \<in> deriving (checks s)" by (simp add: deriving_iff)
  moreover have "t \<le> verify_clock s"
    using derived checks_ok_at [of idkey _ "checks s" i] by (fastforce simp: queue_ok_def answer_ok_def)
  then have "answer_ok idkey (verify_clock s) (Answered p h t (verify_clock s) (verify_password idkey False p h))"
    by (simp add: answer_ok_def not_busy_without)
  ultimately show ?case using derived(2) by (simp add: queue_ok_def checks_ok_upd sem_ok_release)
next
  case (time s now)
  then show ?case by (auto simp: queue_ok_def checks_ok_def intro: answer_ok_later)
qed

lemma queue_ok_reach: "verify_reach idkey s \<Longrightarrow> queue_ok idkey s"
proof (induction rule: verify_reach.induct)
  case (start t)
  then show ?case by (simp add: queue_ok_def checks_ok_def deriving_def sem_ok_empty)
next
  case (step s s')
  then show ?case using queue_ok_step by blast
qed

lemma queued_moves:
  assumes "checks s i = Some (Queued p h t)" "slots_taken s < max_concurrent_verifies \<or> t + verify_queue_wait \<le> verify_clock s"
  shows "\<exists>s'. verify_step idkey s s' \<and> checks s' i \<noteq> checks s i"
  using assms(2)
proof
  assume "slots_taken s < max_concurrent_verifies"
  from verify_step.take [OF assms(1) this] show ?thesis using assms(1) by (fastforce intro: exI)
next
  assume "t + verify_queue_wait \<le> verify_clock s"
  from verify_step.timer [OF assms(1) this] show ?thesis using assms(1) by (fastforce intro: exI)
qed

text \<open>
  C36.  At most two argon2 derivations run at once, however many passwords are checked beside each other; every answer is
  the one \<open>VerifyPassword\<close> gives, busy only after three seconds in the queue; and a check in the queue can go on
  unless both slots are taken and its three seconds are not over.
\<close>

theorem verify_slots_bound:
  assumes "verify_reach idkey s"
  shows "slots_taken s = card {i. \<exists>p h t. checks s i = Some (Deriving p h t)} \<and> slots_taken s \<le> 2 \<and>
    (\<forall>i p h t u r. checks s i = Some (Answered p h t u r) \<longrightarrow>
       r = verify_password idkey (r = Inl ErrBusy) p h \<and> (r = Inl ErrBusy \<longrightarrow> t + 3 * second \<le> u)) \<and>
    (\<forall>i p h t. checks s i = Some (Queued p h t) \<longrightarrow>
       (\<exists>s'. verify_step idkey s s' \<and> checks s' i \<noteq> checks s i) \<or> slots_taken s = 2 \<and> verify_clock s < t + 3 * second)"
proof -
  have q: "sem_ok 2 (slots_taken s) {i. \<exists>p h t. checks s i = Some (Deriving p h t)}"
    "checks_ok idkey (verify_clock s) (checks s)"
    using queue_ok_reach [OF assms] by (simp_all add: queue_ok_def deriving_def max_concurrent_verifies_def)
  have a: "r = verify_password idkey (r = Inl ErrBusy) p h \<and> (r = Inl ErrBusy \<longrightarrow> t + 3 * second \<le> u)"
    if "checks s i = Some (Answered p h t u r)" for i p h t u r
    using checks_ok_at [OF q(2) that] by (simp add: answer_ok_def verify_queue_wait_def)
  have m: "(\<exists>s'. verify_step idkey s s' \<and> checks s' i \<noteq> checks s i) \<or> slots_taken s = 2 \<and> verify_clock s < t + 3 * second"
    if "checks s i = Some (Queued p h t)" for i p h t
  proof (cases "slots_taken s < max_concurrent_verifies \<or> t + verify_queue_wait \<le> verify_clock s")
    case True
    then show ?thesis using queued_moves [OF that] by blast
  next
    case False
    then show ?thesis using q(1) by (auto simp: sem_ok_def max_concurrent_verifies_def verify_queue_wait_def)
  qed
  show ?thesis using q(1) a m unfolding sem_ok_def by blast
qed

text \<open>Three checks of the password beside each other: two derive, the third waits in vain.\<close>

definition three_checks :: verifies where
  "three_checks =
     \<lparr>checks = [0 \<mapsto> Deriving ''pw'' sample_hash 0, 1 \<mapsto> Deriving ''pw'' sample_hash 0,
        2 \<mapsto> Answered ''pw'' sample_hash 0 (3 * second) (Inl ErrBusy)],
      slots_taken = 2, verify_clock = 3 * second\<rparr>"

lemma sample_needs_slot: "needs_slot toy_kdf ''pw'' sample_hash"
  by (rule verify_hash [OF sample_hash_eq, where busy = True and q = "''pw''"]) (simp add: needs_slot_def)

lemma three_checks_reach: "verify_reach toy_kdf three_checks"
proof -
  let ?w = "Queued ''pw'' sample_hash 0" and ?d = "Deriving ''pw'' sample_hash 0"
  define s0 :: verifies where "s0 = \<lparr>checks = (\<lambda>_. None), slots_taken = 0, verify_clock = 0\<rparr>"
  define s1 where "s1 = s0\<lparr>checks := [0 \<mapsto> ?w]\<rparr>"
  define s2 where "s2 = s0\<lparr>checks := [0 \<mapsto> ?w, 1 \<mapsto> ?w]\<rparr>"
  define s3 where "s3 = s0\<lparr>checks := [0 \<mapsto> ?w, 1 \<mapsto> ?w, 2 \<mapsto> ?w]\<rparr>"
  define s4 where "s4 = s0\<lparr>checks := [1 \<mapsto> ?w, 2 \<mapsto> ?w, 0 \<mapsto> ?d], slots_taken := 1\<rparr>"
  define s5 where "s5 = s0\<lparr>checks := [0 \<mapsto> ?d, 2 \<mapsto> ?w, 1 \<mapsto> ?d], slots_taken := 2\<rparr>"
  define s6 where "s6 = s5\<lparr>verify_clock := 3 * second\<rparr>"
  have "verify_reach toy_kdf s0" unfolding s0_def by (rule verify_reach.start)
  moreover have "verify_step toy_kdf s0 s1"
    using verify_step.queue [of s0 0, OF _ sample_needs_slot] by (simp add: s0_def s1_def)
  moreover have "verify_step toy_kdf s1 s2"
    using verify_step.queue [of s1 1, OF _ sample_needs_slot] by (simp add: s0_def s1_def s2_def)
  moreover have "verify_step toy_kdf s2 s3"
    using verify_step.queue [of s2 2, OF _ sample_needs_slot] by (simp add: s0_def s2_def s3_def)
  moreover have "verify_step toy_kdf s3 s4"
    using verify_step.take [of s3 0 "''pw''" sample_hash 0 toy_kdf]
    by (simp add: s0_def s3_def s4_def max_concurrent_verifies_def fun_upd_twist)
  moreover have "verify_step toy_kdf s4 s5"
    using verify_step.take [of s4 1 "''pw''" sample_hash 0 toy_kdf]
    by (simp add: s0_def s4_def s5_def max_concurrent_verifies_def fun_upd_twist numeral_2_eq_2)
  moreover have "verify_step toy_kdf s5 s6"
    unfolding s6_def by (rule verify_step.time) (simp add: s5_def s0_def second_def)
  moreover have "verify_password toy_kdf True ''pw'' sample_hash = Inl ErrBusy"
    using sample_needs_slot by (simp add: needs_slot_def)
  then have "verify_step toy_kdf s6 three_checks"
    using verify_step.timer [of s6 2 "''pw''" sample_hash 0 toy_kdf]
    by (simp add: s0_def s5_def s6_def three_checks_def verify_queue_wait_def fun_upd_twist)
  ultimately show ?thesis by (meson verify_reach.step)
qed

theorem verify_slots_bound_witness:
  "slots_taken three_checks = card {i. \<exists>p h t. checks three_checks i = Some (Deriving p h t)} \<and>
   slots_taken three_checks = 2 \<and>
   checks three_checks 2 = Some (Answered ''pw'' sample_hash 0 (3 * second) (Inl ErrBusy)) \<and>
   Inl ErrBusy = verify_password toy_kdf True ''pw'' sample_hash"
proof -
  have "checks three_checks 2 = Some (Answered ''pw'' sample_hash 0 (3 * second) (Inl ErrBusy))" "slots_taken three_checks = 2"
    by (simp_all add: three_checks_def)
  with verify_slots_bound [OF three_checks_reach] show ?thesis by force
qed

end
