(* ===== verification/Spec2Isabelle.thy ===== *)
theory Spec2Isabelle
  imports Footprint Vnc_Bridge Verify_Slots
begin

text \<open>
  router-manager (\<open>src/backend\<close>): the process that configures a development router.  It serves an HTTP API behind a
  password gate, keeps the configuration of the router's programs in files and makes the programs take a change over:
  Caddy by a reload of its fragment tree, the others by a restart over supervisord's XML-RPC.  This development models
  the Go code of the backend; every definition is named after the function it models, in Isabelle's spelling.

  \<^bold>\<open>The parts and how they call each other.\<close>
  A request passes \<open>newHandler\<close> (cross-origin protection), \<open>newMux\<close> (the routes) and, on all routes but ten, the gate
  (\<open>internal/authgate\<close>); its handler (\<open>handlers_*.go\<close>) calls one package, and restarts a program where the change
  needs it.  \<open>internal/targetguard\<close> decides for all of them what a route, a forward or a publish may point at;
  \<open>internal/atomicfile\<close> writes the documents; \<open>internal/vnc\<close> keeps its targets in step with \<open>internal/approutes\<close>.

  \<^bold>\<open>What models what.\<close>
  \<^item> The Go library: \<open>Go_Prelude\<close> (results, slices, \<open>strings\<close>), \<open>Go_Regexp\<close>, \<open>Go_Strconv\<close>, \<open>Go_Base64\<close>, \<open>Go_URL\<close>,
    \<open>Go_Filepath\<close>, \<open>Net_Addr\<close> (addresses as 128-bit words), \<open>Serve_Mux\<close> (patterns and matching of \<open>net/http\<close>),
    \<open>Semaphore\<close> (a channel used as a counting semaphore).
  \<^item> \<open>Atomic_File\<close>: the file system, a map from paths to contents and mode, with the faults of each system call
    (the record \<open>os\<close>); \<open>atomicfile.Write\<close> as its sequence of calls.  \<open>Config_Store\<close>: the interfaces the packages
    share, a document in a file (\<open>config_store\<close>) and a list with unique keys (\<open>keyed_entries\<close>, \<open>updatable_entries\<close>),
    interpreted by every package that has one.
  \<^item> \<open>Target_Guard\<close>: \<open>targetguard.go\<close>.  \<open>Netgate\<close>: \<open>netgate/config.go\<close>.  \<open>Forward_Auth\<close>, \<open>Caddy_Fragments\<close>, \<open>Dev_Proxy\<close>,
    \<open>App_Routes\<close>: \<open>devproxy\<close> and \<open>approutes\<close>, whose shared file plumbing is proved once over the locale
    \<open>fragment_template\<close>.  \<open>Vnc_Targets\<close>: \<open>vnc.go\<close>, on the locale \<open>route_provider\<close>.
  \<^item> \<open>Password_Hash\<close>, \<open>Auth_Gate\<close>, \<open>Auth_Session\<close>, \<open>Key_Lock\<close>, \<open>Verify_Slots\<close>: \<open>authgate\<close>, its sessions as a step
    relation, its per-key locks and the queue in front of argon2 as step relations of their own.
  \<^item> \<open>Tailscale_Config\<close>, \<open>Tailscale_Client\<close>: \<open>internal/tailscale\<close>.  \<open>Tinyauth_Users\<close>: \<open>tinyauthusers\<close> with its handlers.
    \<open>Dns_Blocklist\<close>, \<open>Dns_Config\<close>: \<open>internal/dns\<close>.  \<open>Supervisor_Client\<close>: \<open>internal/supervisor\<close> and the restart of a
    program.  \<open>Env_Version\<close>: \<open>envversionprefs\<close> with its handlers.  \<open>Vhost_Pwa\<close>: \<open>vhostpwa\<close> with its handler.
  \<^item> \<open>Http_Reply\<close> (what an answer is), \<open>Auth_Api\<close>, \<open>Netgate_Api\<close>, \<open>Caddy_Api\<close>, \<open>Tailscale_Api\<close>, \<open>Dns_Api\<close>: the handlers,
    with their status codes.  \<open>Vnc_Socket\<close>: the socket half of \<open>handlers_vnc.go\<close>, \<open>Vnc_Bridge\<close>: the two copies of a bridge
    and how they end.
  \<^item> \<open>Router\<close>: \<open>newMux\<close> and \<open>newHandler\<close>.  \<open>Process\<close>: settings, listening, the repair at the start, static files and the
    two commands.  \<open>Server\<close>: all of it on one state, \<open>main\<close> up to \<open>http.Serve\<close>, and a request from the wire to the
    handler's effect.  \<open>Footprint\<close>: what a request can change, every feature confined to its own files (the locale
    \<open>feature\<close>), and the documents over the life of a server.

  \<^bold>\<open>What the lemmas show.\<close>
  The gate: an admitted request goes back to a password typed less than twelve hours before, guesses are rate limited
  on the whole schedule of the backoff, the setup token works once, tokens round trip, keys exclude each other and never
  block for good, at most two derivations run.  The routes: each is reached by its own requests, none but ten is open,
  and (\<open>Server\<close>) a request without a password changes no configuration and no running program.  The documents: every
  operation keeps well-formedness under every fault of the system, a refused or failed one keeps the document, an
  accepted one is what the abstract operation makes of it; the API answers say which.  The fragments: what is rendered
  reads back, word for word, a refused one leaves the tree as it was, an update that could read the old fragment never
  leaves the tree without the entry, repair is idempotent and keeps foreign files.  Together (\<open>Footprint\<close>) a request changes only the files and programs of its
  feature, and the documents are well-formed for as long as the server runs, through faults that come and go.  The vnc registry and the App Routes stay
  in step through every operation that can see the fragments; no more than thirty-two bridges run, the client list is that of the bridges, a kicked
  client stays out for its window, and a bridge passes on what it was sent, in order, and ends once its target does.
  The lists of dns, the users of tinyauth and the tailnet's entries are safe to hand to the programs that read them.

  \<^bold>\<open>Conventions.\<close>
  Strings are byte strings, with the ASCII part of the case and space tables of \<open>strings\<close>; a Go error is a value that
  keeps the arguments of its message.  The environment is a function; a time is an \<open>int\<close> of nanoseconds, and an
  operation takes one reading for every call of \<open>time.Now\<close>, in order.

  \<^bold>\<open>Locks and interleaving.\<close>
  A function that holds its package's mutex (\<open>netgate\<close>, \<open>tailscale\<close>, \<open>dns\<close>, \<open>vnc\<close>, and \<open>authgate\<close>'s) is one transition.
  The gate's key locks, the queue in front of argon2, the VNC sockets and bridges and the login manager interleave, and are step
  relations (\<open>Key_Lock\<close>, \<open>Verify_Slots\<close>, \<open>Vnc_Socket\<close>, \<open>Vnc_Bridge\<close>, \<open>Tailscale_Client\<close>).  Four packages take no lock:
  \<open>devproxy\<close>, \<open>approutes\<close>, \<open>envversionprefs\<close> and \<open>tinyauthusers\<close>.  Their operations are modelled as one transition each,
  too (\<open>create_fragment\<close>, \<open>update_fragment\<close>, a pass of \<open>normalize_fragments\<close>, \<open>apply_tinyauth_users\<close> and the rest), and so
  is \<open>vnc_create\<close>, whose mutex an App Routes handler does not take: the properties of these are about a request (or a
  pass of the repair) that runs alone, and a server's life is one request after the other.  What overlapping ones can do
  is shown by \<open>overlapping_creates_lose\<close> and \<open>overlapping_additions_lose\<close>.

  \<^bold>\<open>Parameters.\<close>
  Not in the repository, and so arguments of the definitions: the YAML, JSON and
  XML codecs, argon2, HMAC, bcrypt and SHA-1, the \<open>caddy\<close>, \<open>tailscale\<close> and \<open>dig\<close> commands, supervisord, the order in
  which Go walks a map, \<open>os.ReadDir\<close>'s listing, the upstream of a vhost, the PNG decoder and \<open>envmigrate\<close>.  What is
  assumed of them is a named hypothesis (\<open>codec_ok\<close>, \<open>kdf_ok\<close>, \<open>bcrypt_ok\<close>, \<open>unforged\<close>), each with an instance among the
  witnesses.  A failed \<open>caddy reload\<close> is taken to leave the running configuration as it was (a client that was cut off
  after the instance had taken the new one over is not modelled).  The faults of the system are those of the record \<open>os\<close>,
  fixed while one operation runs and another one for the next (\<open>with_faults\<close>).  The handlers of the GET routes that only
  read are one constructor, \<open>Read\<close>, without an effect; that they have none was found by reading them.

  \<^bold>\<open>Bounds.\<close>
  No definition needs fuel: loops are structural recursions or have a measure (the doubling of the backoff, which ends
  at five minutes; the five attempts of a reload).  The steps that lead a bridge to its end are counted by \<open>leaving_work\<close>.
  Ports, ids and sizes of the sources are checked against their width where they are parsed (\<open>parse_int\<close>); IP arithmetic
  is on words.

  \<^bold>\<open>Not modelled.\<close>
  \<open>http.Serve\<close> and the connections under it (a server's life is a sequence of requests), the WebSocket protocol, log
  lines, the HTTP headers an answer carries besides cookie and status, the texts of error messages, \<open>runCaddy\<close> and
  \<open>http.Client\<close> below their results, and everything that is not Go: the frontend, and the shell and configuration of the container.
\<close>

end
